(* ===== verification/Go_Prelude.thy ===== *)
theory Go_Prelude
  imports Main "HOL-Library.Word" "HOL-Library.Signed_Division" "HOL-Library.Multiset"
begin

text \<open>
  The part of the Go language and of its standard library that every component uses:
  results of calls that may panic or exit the process, fixed-width integers, \<open>time.Time\<close>
  and \<open>time.Duration\<close>, string maps, \<open>fmt.Sprintf\<close> of integers, \<open>strings.Split\<close> and
  \<open>strings.TrimPrefix\<close>, and a generic notion of reachable state with its invariant rule.

  \<^item> \<open>'a go\<close> is what running a piece of code yields: \<open>Ret\<close> a value, a \<open>Panic\<close> (a nil
    dereference, an index out of range, an explicit \<open>panic\<close>), a \<open>Fatal\<close> exit
    (\<open>klog.Fatalf\<close>), or \<open>Blocked\<close> (a channel operation that can never proceed).
  \<^item> A Go \<open>int\<close>, \<open>int64\<close>, \<open>int32\<close> is an \<^typ>\<open>int\<close>; the conversions \<open>int64\<close>, \<open>int32\<close>
    and \<open>uint32\<close> reduce it to its width through the word types.
  \<^item> A \<open>time.Time\<close> is the number of nanoseconds since Go's zero time, so that
    \<open>IsZero\<close> is \<open>t = 0\<close>; a \<open>time.Duration\<close> is a number of nanoseconds and \<open>Sub\<close> saturates
    as documented.
\<close>

section \<open>Collections of rewrite rules\<close>

named_theorems go_simps \<open>equations of the Go layer, safe to unfold anywhere\<close>
named_theorems go_int \<open>conversions between integer widths\<close>

section \<open>Outcomes\<close>

datatype panic = NilDeref | IndexOutOfRange | DivideByZero | PanicMsg string

datatype 'a go = Ret 'a | Panic panic | Fatal string | Blocked

fun go_bind :: "'a go \<Rightarrow> ('a \<Rightarrow> 'b go) \<Rightarrow> 'b go" where
  "go_bind (Ret x) f = f x"
| "go_bind (Panic p) f = Panic p"
| "go_bind (Fatal s) f = Fatal s"
| "go_bind Blocked f = Blocked"

lemma go_bind_Ret_iff [simp]:
  "go_bind m f = Ret y \<longleftrightarrow> (\<exists>x. m = Ret x \<and> f x = Ret y)"
  by (cases m) auto

lemma go_bind_RetE:
  assumes "go_bind m f = Ret y"
  obtains x where "m = Ret x" "f x = Ret y"
  using assms by auto

lemma go_bind_cong [fundef_cong]:
  "m = m' \<Longrightarrow> (\<And>x. m' = Ret x \<Longrightarrow> f x = g x) \<Longrightarrow> go_bind m f = go_bind m' g"
  by (cases m') auto

lemma go_bind_assoc: "go_bind (go_bind m f) g = go_bind m (\<lambda>x. go_bind (f x) g)"
  by (cases m) auto

text \<open>A slice index as Go reads it: out of range is a panic.\<close>

definition go_index :: "'a list \<Rightarrow> int \<Rightarrow> 'a go" where
  "go_index xs i = (if 0 \<le> i \<and> i < int (length xs) then Ret (xs ! nat i) else Panic IndexOutOfRange)"

lemma go_index_Ret [simp]: "i < length xs \<Longrightarrow> go_index xs (int i) = Ret (xs ! i)"
  by (simp add: go_index_def)

lemma go_index_bad [simp]: "length xs \<le> i \<Longrightarrow> go_index xs (int i) = Panic IndexOutOfRange"
  by (simp add: go_index_def)

text \<open>Building a list whose elements may panic.\<close>

fun go_traverse :: "('a \<Rightarrow> 'b go) \<Rightarrow> 'a list \<Rightarrow> 'b list go" where
  "go_traverse f [] = Ret []"
| "go_traverse f (x # xs) = go_bind (f x) (\<lambda>y. go_bind (go_traverse f xs) (\<lambda>ys. Ret (y # ys)))"

lemma go_traverse_Ret: "(\<And>x. x \<in> set xs \<Longrightarrow> f x = Ret (g x)) \<Longrightarrow> go_traverse f xs = Ret (map g xs)"
  by (induction xs) auto

text \<open>Handling a list of events one after the other.\<close>

fun go_fold :: "('e \<Rightarrow> 's \<Rightarrow> 's go) \<Rightarrow> 'e list \<Rightarrow> 's \<Rightarrow> 's go" where
  "go_fold f [] s = Ret s"
| "go_fold f (e # es) s = go_bind (f e s) (go_fold f es)"

section \<open>Fixed-width integers\<close>

definition int64 :: "int \<Rightarrow> int" where "int64 x = sint (word_of_int x :: 64 word)"
definition int32 :: "int \<Rightarrow> int" where "int32 x = sint (word_of_int x :: 32 word)"
definition uint32 :: "int \<Rightarrow> int" where "uint32 x = uint (word_of_int x :: 32 word)"

lemma int32_id [go_int]: "- (2 ^ 31) \<le> x \<Longrightarrow> x < 2 ^ 31 \<Longrightarrow> int32 x = x"
  unfolding int32_def sint_sbintrunc' by (rule signed_take_bit_int_eq_self) simp_all

lemma int64_id [go_int]: "- (2 ^ 63) \<le> x \<Longrightarrow> x < 2 ^ 63 \<Longrightarrow> int64 x = x"
  unfolding int64_def sint_sbintrunc' by (rule signed_take_bit_int_eq_self) simp_all

lemma uint32_id [go_int]: "0 \<le> x \<Longrightarrow> x < 2 ^ 32 \<Longrightarrow> uint32 x = x"
  by (simp add: uint32_def uint_word_of_int)

lemma int32_range: "- (2 ^ 31) \<le> int32 x \<and> int32 x < 2 ^ 31"
  using sint_range_size [of "word_of_int x :: 32 word"] by (simp add: int32_def word_size)

lemma int64_range: "- (2 ^ 63) \<le> int64 x \<and> int64 x < 2 ^ 63"
  using sint_range_size [of "word_of_int x :: 64 word"] by (simp add: int64_def word_size)

lemma uint32_range: "0 \<le> uint32 x \<and> uint32 x < 2 ^ 32"
  by (simp add: uint32_def uint_word_of_int)

lemma int32_idem [simp]: "int32 (int32 x) = int32 x"
  using int32_range [of x] by (simp add: int32_id)

section \<open>Times and durations\<close>

type_synonym time = int
type_synonym duration = int

definition max_duration :: duration where "max_duration = 2 ^ 63 - 1"
definition min_duration :: duration where "min_duration = - (2 ^ 63)"

definition Nanosecond :: duration where "Nanosecond = 1"
definition Microsecond :: duration where "Microsecond = 1000"
definition Millisecond :: duration where "Millisecond = 1000000"
definition Second :: duration where "Second = 1000000000"

lemmas duration_units = Nanosecond_def Microsecond_def Millisecond_def Second_def
declare duration_units [go_simps]

definition t_IsZero :: "time \<Rightarrow> bool" where "t_IsZero t \<longleftrightarrow> t = 0"
definition t_Add :: "time \<Rightarrow> duration \<Rightarrow> time" where "t_Add t d = t + d"
definition t_Before :: "time \<Rightarrow> time \<Rightarrow> bool" where "t_Before t u \<longleftrightarrow> t < u"

text \<open>\<open>t.Sub(u)\<close>: the difference, saturated at the ends of the int64 range.\<close>

definition t_Sub :: "time \<Rightarrow> time \<Rightarrow> duration" where
  "t_Sub t u = max min_duration (min max_duration (t - u))"

text \<open>\<open>time.Until(t)\<close> read at clock value \<open>now\<close>, \<open>time.Since(t)\<close> likewise.\<close>

definition t_Until :: "time \<Rightarrow> time \<Rightarrow> duration" where "t_Until now t = t_Sub t now"
definition t_Since :: "time \<Rightarrow> time \<Rightarrow> duration" where "t_Since now t = t_Sub now t"

text \<open>Go's integer division truncates towards zero.\<close>

definition d_Milliseconds :: "duration \<Rightarrow> int" where "d_Milliseconds d = d sdiv Millisecond"
definition d_Microseconds :: "duration \<Rightarrow> int" where "d_Microseconds d = d sdiv Microsecond"
definition d_Nanoseconds :: "duration \<Rightarrow> int" where "d_Nanoseconds d = d"

lemma t_Sub_pos_iff: "0 < t_Sub t u \<longleftrightarrow> u < t"
  by (auto simp: t_Sub_def max_duration_def min_duration_def)

lemma t_Sub_le_0_iff: "t_Sub t u \<le> 0 \<longleftrightarrow> t \<le> u"
  using t_Sub_pos_iff [of t u] by linarith

lemma t_Sub_neg_iff: "t_Sub t u < 0 \<longleftrightarrow> t < u"
  by (auto simp: t_Sub_def max_duration_def min_duration_def)

lemma t_Sub_exact: "min_duration \<le> t - u \<Longrightarrow> t - u \<le> max_duration \<Longrightarrow> t_Sub t u = t - u"
  by (simp add: t_Sub_def)

lemma sdiv_nonneg: "0 \<le> a \<Longrightarrow> 0 < b \<Longrightarrow> a sdiv b = a div (b::int)"
  by (cases "a = 0") (simp_all add: signed_divide_int_def sgn_if)

section \<open>String-keyed maps and strings\<close>

type_synonym 'v smap = "string \<rightharpoonup> 'v"

text \<open>Reading a missing key of a Go map yields the zero value.\<close>

definition mget :: "string smap \<Rightarrow> string \<Rightarrow> string" where
  "mget m k = (case m k of None \<Rightarrow> [] | Some v \<Rightarrow> v)"

lemma mget_empty [simp]: "mget Map.empty k = []"
  by (simp add: mget_def)

lemma mget_upd [simp]: "mget (m(k \<mapsto> v)) k' = (if k' = k then v else mget m k')"
  by (simp add: mget_def)

definition TrimPrefix :: "string \<Rightarrow> string \<Rightarrow> string" where
  "TrimPrefix s p = (if take (length p) s = p then drop (length p) s else s)"

lemma TrimPrefix_append [simp]: "TrimPrefix (p @ s) p = s"
  by (simp add: TrimPrefix_def)

text \<open>\<open>strings.Split\<close> on a one-character separator: never empty.\<close>

fun Split :: "string \<Rightarrow> char \<Rightarrow> string list" where
  "Split [] c = [[]]"
| "Split (x # xs) c =
     (if x = c then [] # Split xs c
      else (case Split xs c of [] \<Rightarrow> [[x]] | y # ys \<Rightarrow> (x # y) # ys))"

lemma Split_nonempty [simp]: "Split s c \<noteq> []"
  by (cases s) (auto split: list.splits)

lemma Split_no_sep: "c \<notin> set s \<Longrightarrow> Split s c = [s]"
  by (induction s) auto

lemma Split_sep: "c \<notin> set a \<Longrightarrow> Split (a @ c # b) c = a # Split b c"
  by (induction a) auto

text \<open>\<open>strings.Contains\<close>.\<close>

fun Contains :: "string \<Rightarrow> string \<Rightarrow> bool" where
  "Contains [] p = (p = [])"
| "Contains (x # xs) p = (take (length p) (x # xs) = p \<or> Contains xs p)"

lemma Contains_prefix: "Contains (p @ b) p"
proof (cases "p @ b")
  case (Cons x xs)
  then have "take (length p) (x # xs) = p" by (metis append_eq_conv_conj)
  with Cons show ?thesis by simp
qed simp

lemma Contains_infix: "Contains (a @ p @ b) p"
  by (induction a) (auto simp: Contains_prefix)

subsection \<open>Decimal integers\<close>

definition digit_char :: "nat \<Rightarrow> char" where "digit_char d = char_of (48 + d)"

fun itoa_nat :: "nat \<Rightarrow> string" where
  "itoa_nat n = (if n < 10 then [digit_char n] else itoa_nat (n div 10) @ [digit_char (n mod 10)])"

declare itoa_nat.simps [simp del]

definition itoa :: "int \<Rightarrow> string" where
  "itoa i = (if i < 0 then CHR ''-'' # itoa_nat (nat (- i)) else itoa_nat (nat i))"

definition atoi_nat :: "string \<Rightarrow> nat" where
  "atoi_nat s = foldl (\<lambda>a c. 10 * a + (of_char c - 48)) 0 s"

lemma of_char_digit [simp]: "d < 10 \<Longrightarrow> of_char (digit_char d) = 48 + d"
  by (simp add: digit_char_def)

lemma atoi_itoa [simp]: "atoi_nat (itoa_nat n) = n"
proof (induction n rule: itoa_nat.induct)
  case (1 n)
  show ?case
  proof (cases "n < 10")
    case True
    then show ?thesis by (simp add: itoa_nat.simps [of n] atoi_nat_def)
  next
    case False
    with "1.IH" have "atoi_nat (itoa_nat (n div 10)) = n div 10" by simp
    with False show ?thesis by (simp add: itoa_nat.simps [of n] atoi_nat_def)
  qed
qed

lemma itoa_nat_inject [simp]: "itoa_nat m = itoa_nat n \<longleftrightarrow> m = n"
  by (metis atoi_itoa)

lemma itoa_nat_chars: "c \<in> set (itoa_nat n) \<Longrightarrow> 48 \<le> (of_char c :: nat) \<and> of_char c < (58 :: nat)"
proof (induction n rule: itoa_nat.induct)
  case (1 n)
  show ?case
  proof (cases "n < 10")
    case True
    with "1.prems" show ?thesis by (simp add: itoa_nat.simps [of n])
  next
    case False
    with "1.prems" have "c \<in> set (itoa_nat (n div 10)) \<or> c = digit_char (n mod 10)"
      by (auto simp: itoa_nat.simps [of n])
    then show ?thesis using "1.IH" [OF False] by auto
  qed
qed

lemma itoa_nat_no_sep: "CHR ''-'' \<notin> set (itoa_nat n)" "CHR ''/'' \<notin> set (itoa_nat n)"
  using itoa_nat_chars by fastforce+

section \<open>Lists\<close>

lemma sep_append_inject:
  "c \<notin> set a \<Longrightarrow> c \<notin> set a' \<Longrightarrow> a @ c # b = a' @ c # b' \<longleftrightarrow> a = a' \<and> b = b'"
proof (induction a arbitrary: a')
  case Nil
  then show ?case by (cases a') auto
next
  case (Cons x a)
  then show ?case by (cases a') auto
qed

lemma count_mset_filter_len: "count (mset xs) x = length (filter ((=) x) xs)"
  by (induction xs) auto

section \<open>Reachable states\<close>

inductive reachable :: "('s \<Rightarrow> bool) \<Rightarrow> ('s \<Rightarrow> 's \<Rightarrow> bool) \<Rightarrow> 's \<Rightarrow> bool"
  for init :: "'s \<Rightarrow> bool" and step :: "'s \<Rightarrow> 's \<Rightarrow> bool" where
  reach_init: "init s \<Longrightarrow> reachable init step s"
| reach_step: "reachable init step s \<Longrightarrow> step s t \<Longrightarrow> reachable init step t"

lemma reachable_mono: "reachable init step s \<Longrightarrow> (\<And>s. init s \<Longrightarrow> init' s) \<Longrightarrow> reachable init' step s"
  by (induction rule: reachable.induct) (auto intro: reachable.intros)

locale inductive_invariant =
  fixes init :: "'s \<Rightarrow> bool" and step :: "'s \<Rightarrow> 's \<Rightarrow> bool" and inv :: "'s \<Rightarrow> bool"
  assumes inv_init: "init s \<Longrightarrow> inv s"
    and inv_step: "inv s \<Longrightarrow> step s t \<Longrightarrow> inv t"
begin

lemma inv_reachable: "reachable init step s \<Longrightarrow> inv s"
  by (induction rule: reachable.induct) (auto intro: inv_init inv_step)

lemma inv_steps: "inv s \<Longrightarrow> step\<^sup>*\<^sup>* s t \<Longrightarrow> inv t"
  by (rotate_tac, induction rule: rtranclp_induct) (auto intro: inv_step)

end

end
