(* ===== verification/Go_Float.thy ===== *)
theory Go_Float
  imports Go_Prelude Complex_Main "HOL-Library.Log_Nat"
begin

text \<open>
  Go's \<open>float64\<close>: IEEE-754 binary64 with round-to-nearest-even. A value is \<open>NaN\<close>, an
  infinity, or \<open>Fin r\<close> for a rational \<open>r\<close>; every arithmetic operation is the exact rational
  operation followed by \<open>rnd64\<close>, which rounds to the nearest number of the form
  \<open>m * 2 ^ e\<close> with a 53-bit significand and \<open>-1074 \<le> e\<close>, and overflows to an infinity.
  The two zeros are identified: no division of the program has a divisor that can be a
  negative zero. The conversion of a float to an integer that does not fit is the value the
  amd64 instruction yields (the machines of the experiments), \<open>-(2 ^ 63)\<close>.

  The locale \<open>float_round\<close> states what the components rely on (monotone, odd, exact on
  integers up to \<open>2 ^ 53\<close>); its interpretation on \<open>rnd64\<close> proves those laws of the
  rounding function that the operations use.
\<close>

section \<open>Values\<close>

datatype f64 = NaN | PInf | NInf | Fin rat

section \<open>Rounding\<close>

text \<open>\<open>emin_scale\<close>: the smallest positive binary64 is \<open>2 ^ -1074\<close>; \<open>emax_pow\<close>: everything
  from \<open>2 ^ 1024\<close> on is infinite; \<open>prec\<close>: the significand has 53 bits.\<close>

definition emin_scale :: nat where "emin_scale = 1074"
definition emax_pow :: nat where "emax_pow = 1024"
definition prec :: nat where "prec = 53"

definition round_half_even :: "rat \<Rightarrow> int" where
  "round_half_even x =
     (let f = \<lfloor>x\<rfloor>; d = x - of_int f
      in if d < 1/2 then f else if 1/2 < d then f + 1 else if even f then f else f + 1)"

text \<open>\<open>round_grid y\<close> keeps the leading 53 bits of a number given in units of \<open>2 ^ -1074\<close>.\<close>

definition ulp_shift :: "rat \<Rightarrow> nat" where
  "ulp_shift y = floorlog 2 (nat \<lfloor>y\<rfloor>) - prec"

definition round_grid :: "rat \<Rightarrow> rat" where
  "round_grid y = of_int (round_half_even (y / 2 ^ ulp_shift y)) * 2 ^ ulp_shift y"

definition round_abs :: "rat \<Rightarrow> rat" where
  "round_abs x = round_grid (x * 2 ^ emin_scale) / 2 ^ emin_scale"

definition rnd64 :: "rat \<Rightarrow> f64" where
  "rnd64 x =
     (let r = round_abs \<bar>x\<bar>
      in if 2 ^ emax_pow \<le> r then (if x < 0 then NInf else PInf)
         else Fin (if x < 0 then - r else r))"

section \<open>Operations\<close>

fun f_neg :: "f64 \<Rightarrow> f64" where
  "f_neg NaN = NaN" | "f_neg PInf = NInf" | "f_neg NInf = PInf" | "f_neg (Fin x) = Fin (- x)"

fun f_add :: "f64 \<Rightarrow> f64 \<Rightarrow> f64" where
  "f_add (Fin x) (Fin y) = rnd64 (x + y)"
| "f_add NaN _ = NaN" | "f_add _ NaN = NaN"
| "f_add PInf NInf = NaN" | "f_add NInf PInf = NaN"
| "f_add PInf _ = PInf" | "f_add _ PInf = PInf"
| "f_add NInf _ = NInf" | "f_add _ NInf = NInf"

definition f_sub :: "f64 \<Rightarrow> f64 \<Rightarrow> f64" where "f_sub x y = f_add x (f_neg y)"

definition f_inf :: "bool \<Rightarrow> f64" where "f_inf neg = (if neg then NInf else PInf)"

fun f_sgn :: "f64 \<Rightarrow> int" where
  "f_sgn NaN = 0" | "f_sgn PInf = 1" | "f_sgn NInf = - 1"
| "f_sgn (Fin x) = (if x < 0 then - 1 else if x = 0 then 0 else 1)"

definition f_mul :: "f64 \<Rightarrow> f64 \<Rightarrow> f64" where
  "f_mul x y =
     (case (x, y) of
        (Fin a, Fin b) \<Rightarrow> rnd64 (a * b)
      | _ \<Rightarrow> if x = NaN \<or> y = NaN \<or> f_sgn x = 0 \<or> f_sgn y = 0 then NaN
            else f_inf (f_sgn x \<noteq> f_sgn y))"

definition f_div :: "f64 \<Rightarrow> f64 \<Rightarrow> f64" where
  "f_div x y =
     (if x = NaN \<or> y = NaN then NaN
      else case x of
        Fin a \<Rightarrow>
          (case y of
             Fin b \<Rightarrow> if b = 0 then (if a = 0 then NaN else f_inf (a < 0)) else rnd64 (a / b)
           | _ \<Rightarrow> Fin 0)
      | _ \<Rightarrow>
          (case y of
             Fin b \<Rightarrow> f_inf ((f_sgn x < 0) \<noteq> (b < 0))
           | _ \<Rightarrow> NaN))"

fun f_le :: "f64 \<Rightarrow> f64 \<Rightarrow> bool" where
  "f_le NaN _ = False" | "f_le _ NaN = False"
| "f_le NInf _ = True" | "f_le _ PInf = True"
| "f_le (Fin x) (Fin y) = (x \<le> y)"
| "f_le PInf _ = False" | "f_le _ NInf = False"

definition f_lt :: "f64 \<Rightarrow> f64 \<Rightarrow> bool" where
  "f_lt x y \<longleftrightarrow> f_le x y \<and> x \<noteq> y"

fun f_ceil :: "f64 \<Rightarrow> f64" where
  "f_ceil (Fin x) = Fin (of_int \<lceil>x\<rceil>)" | "f_ceil x = x"

fun f_floor :: "f64 \<Rightarrow> f64" where
  "f_floor (Fin x) = Fin (of_int \<lfloor>x\<rfloor>)" | "f_floor x = x"

text \<open>\<open>math.Max\<close> and \<open>math.Min\<close>: an infinity on the dominating side wins over a NaN.\<close>

definition f_max :: "f64 \<Rightarrow> f64 \<Rightarrow> f64" where
  "f_max x y =
     (if x = PInf \<or> y = PInf then PInf else if x = NaN \<or> y = NaN then NaN
      else if f_le y x then x else y)"

definition f_min :: "f64 \<Rightarrow> f64 \<Rightarrow> f64" where
  "f_min x y =
     (if x = NInf \<or> y = NInf then NInf else if x = NaN \<or> y = NaN then NaN
      else if f_le x y then x else y)"

definition f_of_int :: "int \<Rightarrow> f64" where "f_of_int n = rnd64 (of_int n)"

definition f_trunc :: "rat \<Rightarrow> int" where "f_trunc x = (if 0 \<le> x then \<lfloor>x\<rfloor> else \<lceil>x\<rceil>)"

definition f_to_int :: "f64 \<Rightarrow> int" where
  "f_to_int x =
     (case x of
        Fin r \<Rightarrow> let n = f_trunc r in if - (2 ^ 63) \<le> n \<and> n < 2 ^ 63 then n else - (2 ^ 63)
      | _ \<Rightarrow> - (2 ^ 63))"

text \<open>\<open>Duration.Seconds\<close>: whole seconds plus the fraction, each converted to a float.\<close>

definition d_Seconds :: "duration \<Rightarrow> f64" where
  "d_Seconds d =
     f_add (f_of_int (d sdiv Second)) (f_div (f_of_int (d smod Second)) (Fin 1000000000))"

section \<open>Laws of the rounding function\<close>

lemma rhe_bounds: "\<lfloor>x\<rfloor> \<le> round_half_even x \<and> round_half_even x \<le> \<lfloor>x\<rfloor> + 1"
  by (simp add: round_half_even_def Let_def)

lemma rhe_of_int [simp]: "round_half_even (of_int n) = n"
  by (simp add: round_half_even_def)

lemma rhe_mono: "x \<le> y \<Longrightarrow> round_half_even x \<le> round_half_even y"
proof -
  assume le: "x \<le> y"
  then have fl: "\<lfloor>x\<rfloor> \<le> \<lfloor>y\<rfloor>" by (rule floor_mono)
  show ?thesis
  proof (cases "\<lfloor>x\<rfloor> = \<lfloor>y\<rfloor>")
    case True
    with le show ?thesis by (auto simp: round_half_even_def Let_def)
  next
    case False
    with fl have "\<lfloor>x\<rfloor> + 1 \<le> \<lfloor>y\<rfloor>" by simp
    with rhe_bounds [of x] rhe_bounds [of y] show ?thesis by linarith
  qed
qed

lemma floorlog_upper: "n < 2 ^ floorlog 2 n"
  by (cases "n = 0") (use floorlog_bounds [of n 2] in auto)

lemma floor_less_power: "0 \<le> x \<Longrightarrow> nat \<lfloor>x\<rfloor> < 2 ^ k \<Longrightarrow> x < 2 ^ k" for x :: rat
proof -
  assume "0 \<le> x" and "nat \<lfloor>x\<rfloor> < 2 ^ k"
  then have "\<lfloor>x\<rfloor> < 2 ^ k" by (simp add: nat_less_iff)
  then show ?thesis by (simp add: floor_less_iff)
qed

lemma ulp_shift_mono: "x \<le> y \<Longrightarrow> ulp_shift x \<le> ulp_shift y"
  unfolding ulp_shift_def by (intro diff_le_mono floorlog_mono nat_mono floor_mono)

lemma round_grid_lower:
  assumes "ulp_shift y = s" and "0 < s"
  shows "2 ^ (s + (prec - 1)) \<le> y" and "2 ^ (s + (prec - 1)) \<le> round_grid y"
proof -
  from assms have fl: "floorlog 2 (nat \<lfloor>y\<rfloor>) = s + prec" by (simp add: ulp_shift_def)
  with assms have pos: "0 < nat \<lfloor>y\<rfloor>" by (auto simp: floorlog_def prec_def split: if_splits)
  have "2 ^ (s + prec - 1) \<le> nat \<lfloor>y\<rfloor>"
    using floorlog_bounds [of "nat \<lfloor>y\<rfloor>" 2] pos fl by simp
  then have "(2::int) ^ (s + prec - 1) \<le> \<lfloor>y\<rfloor>" using pos by (simp add: nat_le_eq_zle le_nat_iff)
  then show le: "2 ^ (s + (prec - 1)) \<le> y" by (simp add: le_floor_iff prec_def add.commute)
  then have "2 ^ (prec - 1) \<le> y / 2 ^ s" by (simp add: power_add field_simps)
  then have "round_half_even (of_int (2 ^ (prec - 1))) \<le> round_half_even (y / 2 ^ s)"
    by (intro rhe_mono) simp
  then have "(2::rat) ^ (prec - 1) \<le> of_int (round_half_even (y / 2 ^ s))"
    unfolding rhe_of_int by (metis of_int_le_iff of_int_numeral of_int_power)
  then have "2 ^ (prec - 1) * 2 ^ s \<le> of_int (round_half_even (y / 2 ^ s)) * (2 ^ s :: rat)"
    by (rule mult_right_mono) simp
  then show "2 ^ (s + (prec - 1)) \<le> round_grid y"
    unfolding round_grid_def assms(1) by (simp add: power_add mult.commute)
qed

lemma round_grid_upper:
  assumes "0 \<le> x" and "ulp_shift x \<le> k" and "x \<le> 2 ^ k"
  shows "round_grid x \<le> 2 ^ k"
proof -
  let ?s = "ulp_shift x"
  from assms(2) have split: "(2::rat) ^ k = 2 ^ (k - ?s) * 2 ^ ?s"
    by (simp flip: power_add)
  from assms(3) have "x / 2 ^ ?s \<le> of_int (2 ^ (k - ?s))" unfolding split by (simp add: field_simps)
  then have "round_half_even (x / 2 ^ ?s) \<le> 2 ^ (k - ?s)"
    using rhe_mono [of "x / 2 ^ ?s" "of_int (2 ^ (k - ?s))"] unfolding rhe_of_int by simp
  then have "(of_int (round_half_even (x / 2 ^ ?s)) :: rat) \<le> of_int (2 ^ (k - ?s))"
    by (simp only: of_int_le_iff)
  then show ?thesis unfolding round_grid_def split by (intro mult_right_mono) auto
qed

lemma round_grid_mono:
  assumes "0 \<le> x" and "x \<le> y"
  shows "round_grid x \<le> round_grid y"
proof (cases "ulp_shift x = ulp_shift y")
  case True
  from assms(2) have "x / 2 ^ ulp_shift y \<le> y / 2 ^ ulp_shift y" by (simp add: divide_right_mono)
  then have "round_half_even (x / 2 ^ ulp_shift y) \<le> round_half_even (y / 2 ^ ulp_shift y)"
    by (rule rhe_mono)
  then show ?thesis unfolding round_grid_def True by (intro mult_right_mono) auto
next
  case False
  let ?s = "ulp_shift y"
  from ulp_shift_mono [OF assms(2)] False have lt: "ulp_shift x < ?s" by simp
  then have fl: "floorlog 2 (nat \<lfloor>x\<rfloor>) \<le> ?s + (prec - 1)" by (auto simp: ulp_shift_def)
  have "nat \<lfloor>x\<rfloor> < 2 ^ floorlog 2 (nat \<lfloor>x\<rfloor>)" by (rule floorlog_upper)
  also have "\<dots> \<le> 2 ^ (?s + (prec - 1))" using fl by (intro power_increasing) auto
  finally have "x < 2 ^ (?s + (prec - 1))" using assms(1) by (rule floor_less_power [rotated])
  then have "round_grid x \<le> 2 ^ (?s + (prec - 1))"
    using assms(1) lt by (intro round_grid_upper) auto
  also have "\<dots> \<le> round_grid y" using lt by (intro round_grid_lower) auto
  finally show ?thesis .
qed

lemma round_grid_exact_less:
  assumes "0 < n" and "n < 2 ^ prec"
  shows "round_grid (of_nat n * 2 ^ j) = of_nat n * 2 ^ j"
proof -
  let ?y = "of_nat n * 2 ^ j :: rat"
  have "?y = of_int (int (n * 2 ^ j))" by simp
  then have "nat \<lfloor>?y\<rfloor> = n * 2 ^ j" by (simp only: floor_of_int nat_int)
  then have fl: "floorlog 2 (nat \<lfloor>?y\<rfloor>) = floorlog 2 n + j"
    using assms(1) by (simp add: floorlog_power)
  have "floorlog 2 n \<le> prec"
    using assms floorlog_leI [of n 2 prec] by simp
  with fl have s: "ulp_shift ?y \<le> j" by (simp add: ulp_shift_def)
  then have split: "(2::rat) ^ j = 2 ^ (j - ulp_shift ?y) * 2 ^ ulp_shift ?y"
    by (simp flip: power_add)
  have "?y / 2 ^ ulp_shift ?y = of_int (int (n * 2 ^ (j - ulp_shift ?y)))"
    by (subst split) simp
  then have "round_half_even (?y / 2 ^ ulp_shift ?y) = int (n * 2 ^ (j - ulp_shift ?y))"
    by (simp only: rhe_of_int)
  then show ?thesis unfolding round_grid_def by (subst (4) split) simp
qed


lemma round_grid_exact:
  assumes "n \<le> 2 ^ prec"
  shows "round_grid (of_nat n * 2 ^ j) = of_nat n * 2 ^ j"
proof -
  consider "n = 0" | "0 < n" "n < 2 ^ prec" | "n = 2 ^ prec"
    using assms by fastforce
  then show ?thesis
  proof cases
    case 1
    then show ?thesis by (simp add: round_grid_def round_half_even_def)
  next
    case 2
    then show ?thesis by (rule round_grid_exact_less)
  next
    case 3
    have "(of_nat n * 2 ^ j :: rat) = of_nat 1 * 2 ^ (prec + j)"
      unfolding 3 by (simp add: power_add)
    moreover have "round_grid (of_nat 1 * 2 ^ (prec + j)) = of_nat 1 * 2 ^ (prec + j)"
      by (rule round_grid_exact_less) (simp_all add: prec_def)
    ultimately show ?thesis by simp
  qed
qed

lemma round_abs_mono: "0 \<le> x \<Longrightarrow> x \<le> y \<Longrightarrow> round_abs x \<le> round_abs y"
  unfolding round_abs_def by (intro divide_right_mono round_grid_mono mult_right_mono) auto

lemma round_abs_0 [simp]: "round_abs 0 = 0"
  by (simp add: round_abs_def round_grid_def round_half_even_def)

lemma round_abs_nonneg: "0 \<le> x \<Longrightarrow> 0 \<le> round_abs x"
  using round_abs_mono [of 0 x] by simp

text \<open>A dyadic number with a significand of at most 53 bits is kept as it is.\<close>

lemma round_abs_dyadic:
  assumes "n \<le> 2 ^ prec" and "k \<le> emin_scale"
  shows "round_abs (of_nat n / 2 ^ k) = of_nat n / 2 ^ k"
proof -
  from assms(2) have split: "(2::rat) ^ emin_scale = 2 ^ (emin_scale - k) * 2 ^ k"
    by (simp flip: power_add)
  have "(of_nat n / 2 ^ k) * 2 ^ emin_scale = (of_nat n * 2 ^ (emin_scale - k) :: rat)"
    by (subst split) simp
  then show ?thesis
    unfolding round_abs_def by (simp add: round_grid_exact [OF assms(1)] split)
qed

lemma two_powers: "(2::rat) ^ prec < 2 ^ emax_pow"
  by (simp add: prec_def emax_pow_def power_strict_increasing)

lemma rnd64_dyadic:
  assumes "\<bar>n\<bar> \<le> 2 ^ prec" and "k \<le> emin_scale"
  shows "rnd64 (of_int n / 2 ^ k) = Fin (of_int n / 2 ^ k)"
proof -
  define m where "m = nat \<bar>n\<bar>"
  from assms(1) have m: "m \<le> 2 ^ prec" by (simp add: m_def nat_le_iff)
  have abs: "\<bar>of_int n / 2 ^ k\<bar> = (of_nat m / 2 ^ k :: rat)" by (simp add: m_def abs_divide)
  have "of_nat m / 2 ^ k \<le> (of_nat m :: rat)" by (simp add: divide_le_eq mult_le_cancel_left1)
  also have "\<dots> \<le> 2 ^ prec" using m by (metis of_nat_le_iff of_nat_numeral of_nat_power)
  also note two_powers
  finally have "\<not> 2 ^ emax_pow \<le> (of_nat m / 2 ^ k :: rat)" by simp
  then show ?thesis
    unfolding rnd64_def abs round_abs_dyadic [OF m assms(2)] Let_def
    by (auto simp: m_def field_simps divide_less_0_iff)
qed

lemma rnd64_exact: "\<bar>n\<bar> \<le> 2 ^ 53 \<Longrightarrow> rnd64 (of_int n) = Fin (of_int n)"
  using rnd64_dyadic [of n 0] by (simp add: prec_def)

lemma rnd64_neg: "rnd64 (- x) = f_neg (rnd64 x)"
  by (cases "x = 0") (auto simp: rnd64_def Let_def emax_pow_def)

lemma rnd64_mono:
  assumes "x \<le> y"
  shows "f_le (rnd64 x) (rnd64 y)"
proof -
  consider "0 \<le> x" | "x < 0" "0 \<le> y" | "y < 0" using assms by linarith
  then show ?thesis
  proof cases
    case 1
    with assms have "round_abs x \<le> round_abs y" by (rule round_abs_mono [rotated -1])
    with 1 assms show ?thesis by (auto simp: rnd64_def Let_def)
  next
    case 2
    then have "0 \<le> round_abs (- x)" "0 \<le> round_abs y" by (auto intro: round_abs_nonneg)
    with 2 show ?thesis by (auto simp: rnd64_def Let_def)
  next
    case 3
    with assms have "round_abs (- y) \<le> round_abs (- x)" by (intro round_abs_mono) auto
    with 3 assms show ?thesis by (auto simp: rnd64_def Let_def)
  qed
qed

section \<open>Order\<close>

lemma f_le_refl [simp]: "f_le x x \<longleftrightarrow> x \<noteq> NaN"
  by (cases x) auto

lemma f_le_trans: "f_le x y \<Longrightarrow> f_le y z \<Longrightarrow> f_le x z"
  by (cases x; cases y; cases z) auto

lemma f_le_not_NaN: "f_le x y \<Longrightarrow> x \<noteq> NaN \<and> y \<noteq> NaN"
  by (cases x; cases y) auto

lemma f_le_total: "x \<noteq> NaN \<Longrightarrow> y \<noteq> NaN \<Longrightarrow> f_le x y \<or> f_le y x"
  by (cases x; cases y) auto

lemma f_le_PInf [simp]: "f_le x PInf \<longleftrightarrow> x \<noteq> NaN"
  by (cases x) auto

lemma f_le_NInf [simp]: "f_le NInf x \<longleftrightarrow> x \<noteq> NaN"
  by (cases x) auto

lemma f_le_FinD: "f_le (Fin a) x \<Longrightarrow> f_le x (Fin b) \<Longrightarrow> \<exists>r. x = Fin r \<and> a \<le> r \<and> r \<le> b"
  by (cases x) auto

lemma f_max_ge: "f_max x y \<noteq> NaN \<Longrightarrow> x \<noteq> NaN \<Longrightarrow> f_le x (f_max x y)"
  by (cases x; cases y) (auto simp: f_max_def)

lemma f_max_Fin [simp]: "f_max (Fin a) (Fin b) = Fin (max a b)"
  by (simp add: f_max_def max_def)

lemma f_min_Fin [simp]: "f_min (Fin a) (Fin b) = Fin (min a b)"
  by (simp add: f_min_def min_def)

lemma f_lt_Fin [simp]: "f_lt (Fin a) (Fin b) \<longleftrightarrow> a < b"
  by (auto simp: f_lt_def)

section \<open>The rounding contract\<close>

locale float_round =
  fixes rnd :: "rat \<Rightarrow> f64"
  assumes rnd_mono: "a \<le> b \<Longrightarrow> f_le (rnd a) (rnd b)"
    and rnd_neg: "rnd (- a) = f_neg (rnd a)"
    and rnd_exact: "\<bar>n\<bar> \<le> 2 ^ 53 \<Longrightarrow> rnd (of_int n) = Fin (of_int n)"
begin

lemma rnd_not_NaN [simp]: "rnd a \<noteq> NaN"
  using rnd_mono [of a a] by auto

lemma rnd_0 [simp]: "rnd 0 = Fin 0"
  using rnd_exact [of 0] by simp

lemma rnd_1 [simp]: "rnd 1 = Fin 1"
  using rnd_exact [of 1] by simp

lemma rnd_numeral: "(numeral n :: int) \<le> 2 ^ 53 \<Longrightarrow> rnd (numeral n) = Fin (numeral n)"
  using rnd_exact [of "numeral n"] by simp

lemma rnd_ge_int: "\<bar>n\<bar> \<le> 2 ^ 53 \<Longrightarrow> of_int n \<le> a \<Longrightarrow> f_le (Fin (of_int n)) (rnd a)"
  using rnd_mono [of "of_int n" a] by (simp add: rnd_exact)

lemma rnd_le_int: "\<bar>n\<bar> \<le> 2 ^ 53 \<Longrightarrow> a \<le> of_int n \<Longrightarrow> f_le (rnd a) (Fin (of_int n))"
  using rnd_mono [of a "of_int n"] by (simp add: rnd_exact)

lemma rnd_nonneg: "0 \<le> a \<Longrightarrow> f_le (Fin 0) (rnd a)"
  using rnd_ge_int [of 0 a] by simp

lemma rnd_within:
  assumes "\<bar>m\<bar> \<le> 2 ^ 53" and "\<bar>n\<bar> \<le> 2 ^ 53" and "of_int m \<le> a" and "a \<le> of_int n"
  shows "\<exists>r. rnd a = Fin r \<and> of_int m \<le> r \<and> r \<le> of_int n"
  using rnd_ge_int [OF assms(1,3)] rnd_le_int [OF assms(2,4)] by (rule f_le_FinD)

end

interpretation go_round: float_round rnd64
  by unfold_locales (auto intro: rnd64_mono rnd64_neg rnd64_exact)

section \<open>Representable values\<close>

text \<open>A float that is the result of an operation is representable: rounding keeps it.\<close>

definition representable :: "f64 \<Rightarrow> bool" where
  "representable x \<longleftrightarrow> (case x of Fin r \<Rightarrow> rnd64 r = Fin r | _ \<Rightarrow> True)"

lemma round_grid_form:
  assumes "0 \<le> y"
  shows "\<exists>n s. n \<le> 2 ^ prec \<and> round_grid y = of_nat n * 2 ^ s"
proof -
  let ?s = "ulp_shift y"
  have "nat \<lfloor>y\<rfloor> < 2 ^ floorlog 2 (nat \<lfloor>y\<rfloor>)" by (rule floorlog_upper)
  also have "\<dots> \<le> 2 ^ (?s + prec)" by (intro power_increasing) (auto simp: ulp_shift_def)
  finally have "y < 2 ^ (?s + prec)" using assms by (rule floor_less_power [rotated])
  then have "y / 2 ^ ?s \<le> of_int (2 ^ prec)" by (simp add: power_add field_simps)
  then have up: "round_half_even (y / 2 ^ ?s) \<le> 2 ^ prec"
    using rhe_mono [of "y / 2 ^ ?s" "of_int (2 ^ prec)"] unfolding rhe_of_int by simp
  have "0 \<le> y / 2 ^ ?s" using assms by simp
  then have lo: "0 \<le> round_half_even (y / 2 ^ ?s)"
    using rhe_mono [of "of_int 0" "y / 2 ^ ?s"] unfolding rhe_of_int by simp
  let ?n = "nat (round_half_even (y / 2 ^ ?s))"
  have "?n \<le> 2 ^ prec" using up by (simp add: nat_le_iff)
  moreover have "round_grid y = of_nat ?n * 2 ^ ?s"
    using lo by (simp add: round_grid_def)
  ultimately show ?thesis by blast
qed

lemma round_grid_idem: "0 \<le> y \<Longrightarrow> round_grid (round_grid y) = round_grid y"
  using round_grid_form [of y] by (metis round_grid_exact)

lemma round_abs_idem: "0 \<le> x \<Longrightarrow> round_abs (round_abs x) = round_abs x"
  by (simp add: round_abs_def round_grid_idem)

lemma rnd64_idem: "rnd64 x = Fin r \<Longrightarrow> rnd64 r = Fin r"
proof -
  assume a: "rnd64 x = Fin r"
  have nn: "0 \<le> round_abs \<bar>x\<bar>" by (rule round_abs_nonneg) simp
  from a have lt: "\<not> 2 ^ emax_pow \<le> round_abs \<bar>x\<bar>"
    and r: "r = (if x < 0 then - round_abs \<bar>x\<bar> else round_abs \<bar>x\<bar>)"
    by (auto simp: rnd64_def Let_def split: if_splits)
  from r nn have "\<bar>r\<bar> = round_abs \<bar>x\<bar>" by auto
  then have "round_abs \<bar>r\<bar> = \<bar>r\<bar>" by (simp add: round_abs_idem)
  with lt \<open>\<bar>r\<bar> = round_abs \<bar>x\<bar>\<close> show ?thesis by (auto simp: rnd64_def Let_def)
qed

lemma representable_rnd [simp]: "representable (rnd64 x)"
  by (auto simp: representable_def rnd64_idem split: f64.splits)

lemma representable_int: "\<bar>n\<bar> \<le> 2 ^ 53 \<Longrightarrow> representable (Fin (of_int n))"
  by (simp add: representable_def rnd64_exact)

lemma representable_add [simp]: "representable (f_add x y)"
  by (cases x; cases y) (simp_all add: representable_def [of NaN] representable_def [of PInf] representable_def [of NInf])

text \<open>Adding a non-negative number never decreases a representable one.\<close>

lemma f_add_ge:
  assumes "representable x" and "x \<noteq> NaN" and "f_le (Fin 0) y" and "x \<noteq> NInf"
  shows "f_le x (f_add x y)"
proof (cases x)
  case x: (Fin a)
  show ?thesis
  proof (cases y)
    case (Fin b)
    with assms(3) have "a \<le> a + b" by simp
    then have "f_le (rnd64 a) (rnd64 (a + b))" by (rule rnd64_mono)
    with x Fin assms(1) show ?thesis by (simp add: representable_def)
  qed (use assms x in auto)
next
  case PInf
  with assms(3) show ?thesis by (cases y) auto
qed (use assms in auto)

section \<open>Integers and whole seconds\<close>

lemma f_of_int_exact: "\<bar>n\<bar> \<le> 2 ^ 53 \<Longrightarrow> f_of_int n = Fin (of_int n)"
  by (simp add: f_of_int_def rnd64_exact)

lemma f_of_int_not_NaN [simp]: "f_of_int n \<noteq> NaN"
  by (simp add: f_of_int_def)

lemma f_add_ints: "\<bar>m + n\<bar> \<le> 2 ^ 53 \<Longrightarrow> f_add (Fin (of_int m)) (Fin (of_int n)) = Fin (of_int (m + n))"
  using rnd64_exact [of "m + n"] by simp

lemma f_sub_ints: "\<bar>m - n\<bar> \<le> 2 ^ 53 \<Longrightarrow> f_sub (Fin (of_int m)) (Fin (of_int n)) = Fin (of_int (m - n))"
  using rnd64_exact [of "m - n"] by (simp add: f_sub_def)

lemma f_mul_ints: "\<bar>m * n\<bar> \<le> 2 ^ 53 \<Longrightarrow> f_mul (Fin (of_int m)) (Fin (of_int n)) = Fin (of_int (m * n))"
  using rnd64_exact [of "m * n"] by (simp add: f_mul_def)

lemma f_to_int_of_int: "- (2 ^ 63) \<le> n \<Longrightarrow> n < 2 ^ 63 \<Longrightarrow> f_to_int (Fin (of_int n)) = n"
  by (simp add: f_to_int_def f_trunc_def)

lemma d_Seconds_whole:
  assumes "0 \<le> k" and "k \<le> 2 ^ 53"
  shows "d_Seconds (k * Second) = Fin (of_int k)"
proof -
  have "(k * Second) sdiv Second = k" "(k * Second) smod Second = 0"
    using assms(1) by (simp_all add: signed_divide_int_def signed_modulo_int_def Second_def sgn_if abs_mult)
  with assms show ?thesis
    by (simp add: d_Seconds_def f_of_int_exact f_div_def rnd64_exact)
qed

section \<open>Decimal output\<close>

text \<open>The \<open>%.3f\<close> verb: the value in thousandths, correctly rounded, ties to even.\<close>

definition pad3 :: "nat \<Rightarrow> string" where
  "pad3 n = [digit_char (n div 100 mod 10), digit_char (n div 10 mod 10), digit_char (n mod 10)]"

definition fmt_f3 :: "f64 \<Rightarrow> string" where
  "fmt_f3 x =
     (case x of NaN \<Rightarrow> ''NaN'' | PInf \<Rightarrow> ''+Inf'' | NInf \<Rightarrow> ''-Inf''
      | Fin r \<Rightarrow>
          let n = nat (round_half_even (\<bar>r\<bar> * 1000))
          in (if r < 0 then ''-'' else []) @ itoa_nat (n div 1000) @ ''.'' @ pad3 (n mod 1000))"

end
