(* ===== verification/Extern.thy ===== *)
theory Extern
  imports Go_Float
begin

text \<open>
  The libraries the program calls and whose source is not in the repository, as parameters.
  Each library object is a record of operations over an abstract state type; what its
  documentation promises is a named predicate (\<open>shared_map_laws\<close>, \<open>chann_laws\<close>, \<dots>) that a
  theorem takes as a hypothesis where it relies on it. For every predicate there is one
  concrete instance that satisfies it, used by the witnesses.

  \<^item> \<open>shared_map\<close>: \<open>kdutil.SharedMap[T]\<close>, a lock-protected map from strings.
  \<^item> \<open>chann\<close>: \<open>golang.design/x/chann\<close>, an unbounded FIFO channel; a non-blocking receive may
    miss an element that is still in transit, a blocking one may not.
  \<^item> \<open>poll\<close>: \<open>wait.PollUntilContextCancel\<close>, run on the finite list of situations the loop meets.
  \<^item> \<open>buckets\<close>, \<open>window\<close>: knative's \<open>TimedFloat64Buckets\<close> and \<open>max.TimeWindow\<close>.

  The API objects (pods, nodes, deployments) are records of the fields the program reads or
  writes.
\<close>

section \<open>kdutil.SharedMap\<close>

record ('m, 'v) shared_map =
  sm_New :: 'm
  sm_Get :: "'m \<Rightarrow> string \<Rightarrow> 'v option"
  sm_Set :: "'m \<Rightarrow> string \<Rightarrow> 'v \<Rightarrow> 'm"
  sm_Del :: "'m \<Rightarrow> string \<Rightarrow> 'v option \<times> 'm"
  sm_GetOrCreate :: "'m \<Rightarrow> string \<Rightarrow> 'v \<Rightarrow> ('v \<times> bool) \<times> 'm"
  sm_Inner :: "'m \<Rightarrow> 'v smap"

definition shared_map_laws :: "('m, 'v) shared_map \<Rightarrow> bool" where
  "shared_map_laws S \<longleftrightarrow>
     sm_Inner S (sm_New S) = Map.empty \<and>
     (\<forall>m k. sm_Get S m k = sm_Inner S m k) \<and>
     (\<forall>m k v. sm_Inner S (sm_Set S m k v) = (sm_Inner S m)(k \<mapsto> v)) \<and>
     (\<forall>m k. fst (sm_Del S m k) = sm_Inner S m k \<and>
            sm_Inner S (snd (sm_Del S m k)) = (sm_Inner S m)(k := None)) \<and>
     (\<forall>m k v. fst (sm_GetOrCreate S m k v) =
                 (case sm_Inner S m k of None \<Rightarrow> (v, True) | Some w \<Rightarrow> (w, False)) \<and>
              sm_Inner S (snd (sm_GetOrCreate S m k v)) =
                 (case sm_Inner S m k of None \<Rightarrow> (sm_Inner S m)(k \<mapsto> v) | Some w \<Rightarrow> sm_Inner S m))"

lemma shared_map_simps:
  assumes "shared_map_laws S"
  shows "sm_Inner S (sm_New S) = Map.empty"
    and "sm_Get S m k = sm_Inner S m k"
    and "sm_Inner S (sm_Set S m k v) = (sm_Inner S m)(k \<mapsto> v)"
    and "fst (sm_Del S m k) = sm_Inner S m k"
    and "sm_Inner S (snd (sm_Del S m k)) = (sm_Inner S m)(k := None)"
    and "fst (sm_GetOrCreate S m k v) =
           (case sm_Inner S m k of None \<Rightarrow> (v, True) | Some w \<Rightarrow> (w, False))"
    and "sm_Inner S (snd (sm_GetOrCreate S m k v)) =
           (case sm_Inner S m k of None \<Rightarrow> (sm_Inner S m)(k \<mapsto> v) | Some w \<Rightarrow> sm_Inner S m)"
  using assms unfolding shared_map_laws_def by blast+

definition go_map :: "('v smap, 'v) shared_map" where
  "go_map =
     \<lparr> sm_New = Map.empty, sm_Get = (\<lambda>m k. m k), sm_Set = (\<lambda>m k v. m(k \<mapsto> v)),
       sm_Del = (\<lambda>m k. (m k, m(k := None))),
       sm_GetOrCreate = (\<lambda>m k v. case m k of None \<Rightarrow> ((v, True), m(k \<mapsto> v)) | Some w \<Rightarrow> ((w, False), m)),
       sm_Inner = (\<lambda>m. m) \<rparr>"

lemma go_map_laws: "shared_map_laws go_map"
  by (auto simp: shared_map_laws_def go_map_def split: option.splits)

lemma go_map_sel:
  "sm_New go_map = Map.empty" "sm_Get go_map m k = m k" "sm_Set go_map m k v = m(k \<mapsto> v)"
  "sm_Del go_map m k = (m k, m(k := None))" "sm_Inner go_map m = m"
  "sm_GetOrCreate go_map m k v = (case m k of None \<Rightarrow> ((v, True), m(k \<mapsto> v)) | Some w \<Rightarrow> ((w, False), m))"
  by (simp_all add: go_map_def)

section \<open>golang.design/x/chann\<close>

record ('q, 'a) chann =
  ch_New :: 'q
  ch_Send :: "'q \<Rightarrow> 'a \<Rightarrow> 'q"
  ch_Recv :: "'q \<Rightarrow> ('a \<times> 'q) option"
  ch_TryRecv :: "'q \<Rightarrow> ('a \<times> 'q) option"
  ch_Items :: "'q \<Rightarrow> 'a list"

definition chann_laws :: "('q, 'a) chann \<Rightarrow> bool" where
  "chann_laws C \<longleftrightarrow>
     ch_Items C (ch_New C) = [] \<and>
     (\<forall>q x. ch_Items C (ch_Send C q x) = ch_Items C q @ [x]) \<and>
     (\<forall>q. case ch_Recv C q of None \<Rightarrow> ch_Items C q = []
        | Some (x, q') \<Rightarrow> ch_Items C q = x # ch_Items C q') \<and>
     (\<forall>q. case ch_TryRecv C q of None \<Rightarrow> True
        | Some (x, q') \<Rightarrow> ch_Items C q = x # ch_Items C q')"

lemma chann_New: "chann_laws C \<Longrightarrow> ch_Items C (ch_New C) = []"
  by (simp add: chann_laws_def)

lemma chann_Send: "chann_laws C \<Longrightarrow> ch_Items C (ch_Send C q x) = ch_Items C q @ [x]"
  by (simp add: chann_laws_def)

lemma chann_Recv_None: "chann_laws C \<Longrightarrow> ch_Recv C q = None \<longleftrightarrow> ch_Items C q = []"
proof -
  assume "chann_laws C"
  then have "case ch_Recv C q of None \<Rightarrow> ch_Items C q = [] | Some (x, q') \<Rightarrow> ch_Items C q = x # ch_Items C q'"
    unfolding chann_laws_def by blast
  then show ?thesis by (auto split: option.splits)
qed

lemma chann_Recv_Some: "chann_laws C \<Longrightarrow> ch_Recv C q = Some (x, q') \<Longrightarrow> ch_Items C q = x # ch_Items C q'"
proof -
  assume "chann_laws C" and r: "ch_Recv C q = Some (x, q')"
  then have "case ch_Recv C q of None \<Rightarrow> ch_Items C q = [] | Some (x, q') \<Rightarrow> ch_Items C q = x # ch_Items C q'"
    unfolding chann_laws_def by blast
  with r show ?thesis by simp
qed

lemma chann_TryRecv_Some: "chann_laws C \<Longrightarrow> ch_TryRecv C q = Some (x, q') \<Longrightarrow> ch_Items C q = x # ch_Items C q'"
proof -
  assume "chann_laws C" and r: "ch_TryRecv C q = Some (x, q')"
  then have "case ch_TryRecv C q of None \<Rightarrow> True | Some (x, q') \<Rightarrow> ch_Items C q = x # ch_Items C q'"
    unfolding chann_laws_def by blast
  with r show ?thesis by simp
qed

definition fifo :: "('a list, 'a) chann" where
  "fifo =
     \<lparr> ch_New = [], ch_Send = (\<lambda>q x. q @ [x]),
       ch_Recv = (\<lambda>q. case q of [] \<Rightarrow> None | x # xs \<Rightarrow> Some (x, xs)),
       ch_TryRecv = (\<lambda>q. case q of [] \<Rightarrow> None | x # xs \<Rightarrow> Some (x, xs)),
       ch_Items = (\<lambda>q. q) \<rparr>"

lemma fifo_laws: "chann_laws fifo"
  by (auto simp: chann_laws_def fifo_def split: list.splits)

section \<open>knative aggregation\<close>

record 'b buckets =
  bk_New :: "duration \<Rightarrow> duration \<Rightarrow> 'b"
  bk_Record :: "'b \<Rightarrow> time \<Rightarrow> f64 \<Rightarrow> 'b"
  bk_WindowAverage :: "'b \<Rightarrow> time \<Rightarrow> f64"

text \<open>\<open>max.TimeWindow\<close>: \<open>Record\<close> notes a value, \<open>Current\<close> is the largest value of the window,
  so right after a \<open>Record\<close> it is at least the value recorded; it is one of the values
  recorded so far.\<close>

record 'w window =
  tw_New :: "duration \<Rightarrow> duration \<Rightarrow> 'w"
  tw_Record :: "'w \<Rightarrow> time \<Rightarrow> int \<Rightarrow> 'w"
  tw_Current :: "'w \<Rightarrow> int"

definition window_laws :: "'w window \<Rightarrow> bool" where
  "window_laws W \<longleftrightarrow> (\<forall>w t v. v \<le> tw_Current W (tw_Record W w t v))"

definition max_window :: "int window" where
  "max_window = \<lparr> tw_New = (\<lambda>_ _. 0), tw_Record = (\<lambda>w _ v. max w v), tw_Current = (\<lambda>w. w) \<rparr>"

lemma max_window_laws: "window_laws max_window"
  by (simp add: window_laws_def max_window_def)

text \<open>Recording a value gives nothing larger than it and what the window reported before.\<close>

definition window_max_laws :: "'w window \<Rightarrow> bool" where
  "window_max_laws W \<longleftrightarrow> (\<forall>w t v. tw_Current W (tw_Record W w t v) \<le> max (tw_Current W w) v)"

lemma max_window_max_laws: "window_max_laws max_window"
  by (simp add: window_max_laws_def max_window_def)

section \<open>Errors\<close>

text \<open>Errors of the API machinery, as far as the program tells them apart; the string is the
  rendered message.\<close>

datatype apierr = NotFound string | AlreadyExists string | OtherErr string

fun IsNotFound :: "apierr \<Rightarrow> bool" where
  "IsNotFound (NotFound _) = True" | "IsNotFound _ = False"

fun IsAlreadyExists :: "apierr \<Rightarrow> bool" where
  "IsAlreadyExists (AlreadyExists _) = True" | "IsAlreadyExists _ = False"

fun err_Error :: "apierr \<Rightarrow> string" where
  "err_Error (NotFound m) = m" | "err_Error (AlreadyExists m) = m" | "err_Error (OtherErr m) = m"

section \<open>wait.PollUntilContextCancel\<close>

text \<open>An immediate poll: the condition is run on the successive situations \<open>es\<close> the loop meets
  until it is true or fails; \<open>es\<close> ends where the context is cancelled, which is an error too.\<close>

type_synonym ('e, 's) poll =
  "('e \<Rightarrow> 's \<Rightarrow> ((apierr + bool) \<times> 's) go) \<Rightarrow> 'e list \<Rightarrow> 's \<Rightarrow> (apierr option \<times> 's) go"

definition poll_laws :: "('e, 's) poll \<Rightarrow> bool" where
  "poll_laws P \<longleftrightarrow>
     (\<forall>c s. \<exists>err. P c [] s = Ret (Some err, s)) \<and>
     (\<forall>c e es s. P c (e # es) s =
        go_bind (c e s) (\<lambda>(r, s'). case r of Inl err \<Rightarrow> Ret (Some err, s')
          | Inr done \<Rightarrow> if done then Ret (None, s') else P c es s'))"

fun go_poll :: "('e \<Rightarrow> 's \<Rightarrow> ((apierr + bool) \<times> 's) go) \<Rightarrow> 'e list \<Rightarrow> 's \<Rightarrow> (apierr option \<times> 's) go" where
  "go_poll c [] s = Ret (Some (OtherErr ''context canceled''), s)"
| "go_poll c (e # es) s =
     go_bind (c e s) (\<lambda>(r, s'). case r of Inl err \<Rightarrow> Ret (Some err, s')
          | Inr done \<Rightarrow> if done then Ret (None, s') else go_poll c es s')"

lemma go_poll_laws: "poll_laws go_poll"
  by (simp add: poll_laws_def)

lemma poll_nil: "poll_laws P \<Longrightarrow> \<exists>err. P c [] s = Ret (Some err, s)"
  by (simp add: poll_laws_def)

lemma poll_cons:
  "poll_laws P \<Longrightarrow> P c (e # es) s =
     go_bind (c e s) (\<lambda>(r, s'). case r of Inl err \<Rightarrow> Ret (Some err, s')
          | Inr done \<Rightarrow> if done then Ret (None, s') else P c es s')"
  unfolding poll_laws_def by blast

section \<open>API objects\<close>

record objmeta =
  om_Namespace :: string
  om_Name :: string
  om_UID :: string
  om_ResourceVersion :: string
  om_Labels :: "string smap"
  om_Annotations :: "string smap"
  om_DeletionTimestamp :: "time option"

record condition =
  cond_Type :: string
  cond_Status :: string
  cond_LastTransitionTime :: time

text \<open>A container's state: at most one of the three pointers is set in practice; the program
  looks at \<open>Running\<close> and \<open>Terminated\<close> separately.\<close>

record terminated =
  term_ExitCode :: int
  term_Reason :: string
  term_StartedAt :: time
  term_FinishedAt :: time

record container_status =
  cs_Name :: string
  cs_Image :: string
  cs_Started :: "bool option"
  cs_Ready :: bool
  cs_Running :: "time option"
  cs_Terminated :: "terminated option"

record pod_status =
  st_Phase :: string
  st_Conditions :: "condition list"
  st_HostIP :: string
  st_PodIP :: string
  st_StartTime :: "time option"
  st_ContainerStatuses :: "container_status list"
  st_InitContainerStatuses :: "container_status list"

record container =
  c_Name :: string
  c_Image :: string

record pod =
  pod_Meta :: objmeta
  pod_NodeName :: string
  pod_ReadinessGates :: "string list"
  pod_Containers :: "container list"
  pod_InitContainers :: "container list"
  pod_Status :: pod_status

record node_addr =
  addr_Type :: string
  addr_Address :: string

record node =
  node_Meta :: objmeta
  node_Addresses :: "node_addr list"

record deployment =
  dep_Meta :: objmeta
  dep_Replicas :: "int option"
  dep_TemplateLabels :: "string smap"

end
