(* ===== verification/Ctrl.thy ===== *)
theory Ctrl
  imports Extern
begin

text \<open>
  \<open>src/pkg/util/ctrl.go\<close>: how the programs make their clients and managers, with the limits of the
  benchmark on the request rate. A constructor that fails ends the process.
\<close>

text \<open>The configuration and the manager of controller-runtime are parameters; a manager has the
  configuration it was made from, a scheme and a mapper.\<close>

record rest_config =
  rc_Host :: string
  rc_QPS :: int
  rc_Burst :: int

record mgr_options =
  mo_HealthProbeBindAddress :: string
  mo_LeaderElection :: bool
  mo_MetricsBindAddress :: string

record ('sc, 'mp) manager =
  mg_Config :: rest_config
  mg_Scheme :: 'sc
  mg_RESTMapper :: 'mp

definition defaultQPS :: int where "defaultQPS = 10000"
definition defaultBurst :: int where "defaultBurst = 20000"

definition NewUncachedClientOrDie ::
  "(rest_config \<Rightarrow> 'sc \<Rightarrow> 'mp \<Rightarrow> apierr + 'cl) \<Rightarrow> ('sc, 'mp) manager \<Rightarrow> 'cl go" where
  "NewUncachedClientOrDie new mgr =
     (case new (mg_Config mgr) (mg_Scheme mgr) (mg_RESTMapper mgr) of
        Inl err \<Rightarrow> Fatal (''Error creating uncached client: '' @ err_Error err)
      | Inr c \<Rightarrow> Ret c)"

definition NewManagerOrDie ::
  "rest_config go \<Rightarrow> (rest_config \<Rightarrow> mgr_options \<Rightarrow> apierr + ('sc, 'mp) manager) \<Rightarrow> ('sc, 'mp) manager go" where
  "NewManagerOrDie GetConfigOrDie new =
     go_bind GetConfigOrDie (\<lambda>cfg.
       case new (cfg\<lparr>rc_QPS := defaultQPS, rc_Burst := defaultBurst\<rparr>)
              \<lparr> mo_HealthProbeBindAddress = ''0'', mo_LeaderElection = False, mo_MetricsBindAddress = ''0'' \<rparr> of
         Inl err \<Rightarrow> Fatal (''Error creating manager: '' @ err_Error err)
       | Inr mgr \<Rightarrow> Ret mgr)"

definition NewClientsetOrDie :: "rest_config go \<Rightarrow> (rest_config \<Rightarrow> apierr + 'k) \<Rightarrow> 'k go" where
  "NewClientsetOrDie GetConfigOrDie new =
     go_bind GetConfigOrDie (\<lambda>cfg.
       case new (cfg\<lparr>rc_QPS := defaultQPS, rc_Burst := defaultBurst\<rparr>) of
         Inl err \<Rightarrow> Fatal (''Error building kubernetes clientset: '' @ err_Error err)
       | Inr k \<Rightarrow> Ret k)"

text \<open>Whatever configuration is found, a clientset or a manager is made with the limits of the benchmark,
  and nothing else of the configuration changes.\<close>

lemma NewClientsetOrDie_limits:
  assumes "NewClientsetOrDie (Ret cfg) new = Ret k"
  shows "new \<lparr> rc_Host = rc_Host cfg, rc_QPS = 10000, rc_Burst = 20000 \<rparr> = Inr k"
  using assms by (cases cfg) (auto simp: NewClientsetOrDie_def defaultQPS_def defaultBurst_def split: sum.split_asm)

end
