(* ===== verification/Kubelet.thy ===== *)
theory Kubelet
  imports Ctrl
begin

text \<open>
  \<open>src/cmd/kubelet\<close>: the custom kubelet. It watches pods through informers, accepts pods bound by
  the scheduler over RPC before they exist in the API server (the in-memory cache), waits a
  ready delay per pod, and then reports the pod ready.

  \<open>KubedirectServer\<close> is the state of \<open>kubelet.go\<close>. Its shared maps and the epoch hub are
  parameters of the record \<open>kd_libs\<close>, with the rest of the libraries it calls; the answers of the
  listers, of the API server, of the clock and of the random generator during one call are the
  record \<open>kenv\<close>. Calls that leave the process or hand work to another goroutine (queue, API
  writes, \<open>go\<close> statements) are appended to \<open>ks_out\<close> in the order the code makes them.

  A worker holds a queue item exclusively while \<open>SyncPod\<close> runs on it, and other items touch other
  timers, so a call of \<open>SyncPod\<close> is one step of the model.
\<close>

section \<open>Libraries and inputs\<close>

type_synonym client = nat

record PodInfo =
  pi_Namespace :: string
  pi_Name :: string
  pi_OwnerName :: string
  pi_NodeName :: string

record PodBindingRequest =
  br_Source :: string
  br_Epoch :: string
  br_OwnerNamespace :: string
  br_OwnerName :: string
  br_PodName :: string
  br_NodeName :: string

record HandshakeRequest =
  hr_Source :: string
  hr_Destination :: string
  hr_Epoch :: string

record ('t, 'i, 'c, 'h) kd_libs =
  kl_timers :: "('t, time) shared_map"
  kl_cache :: "('i, PodInfo) shared_map"
  kl_pool :: "('c, client) shared_map"
  kl_NewHub :: 'h
  kl_Lock :: "'h \<Rightarrow> string \<Rightarrow> string \<Rightarrow> 'h"
  kl_RLock :: "'h \<Rightarrow> string \<Rightarrow> string \<Rightarrow> apierr option"
  kl_AsPodInfosProtoOnNode :: "'i \<Rightarrow> string \<Rightarrow> PodInfo list"
  kl_NewPodInfoFromBindingRequest :: "PodBindingRequest \<Rightarrow> PodInfo"
  kl_AsPersistentPod :: "PodInfo \<Rightarrow> pod \<Rightarrow> pod"
  kl_IsManaged :: "pod \<Rightarrow> bool"
  kl_IsPersistent :: "pod \<Rightarrow> bool"
  kl_IsPodActive :: "pod \<Rightarrow> bool"
  kl_IsPodReady :: "pod \<Rightarrow> bool"
  kl_PodLifecycleManagerLabel :: string
  kl_KubeletServiceAddrAnnotation :: string
  kl_EpochMismatchError :: string
  kl_NewAggregate :: "apierr list \<Rightarrow> string"
  kl_Marshal :: "string \<Rightarrow> pod_status \<Rightarrow> apierr + string"

record kenv =
  ke_getPod :: "string \<Rightarrow> string \<Rightarrow> apierr + pod"
  ke_listPods :: "string \<Rightarrow> string \<Rightarrow> string \<Rightarrow> apierr + pod list"
  ke_getNode :: "string \<Rightarrow> apierr + node"
  ke_GetUnnamedTemplateFor :: "string \<Rightarrow> string \<Rightarrow> bool \<Rightarrow> apierr + pod"
  ke_Delete :: "string \<Rightarrow> string \<Rightarrow> apierr option"
  ke_Create :: "client \<Rightarrow> pod \<Rightarrow> apierr option"
  ke_UpdateStatus :: "client \<Rightarrow> pod \<Rightarrow> apierr + pod"
  ke_Patch :: "client \<Rightarrow> string \<Rightarrow> string \<Rightarrow> string \<Rightarrow> apierr + pod"
  ke_UpdateNode :: "node \<Rightarrow> apierr option"
  ke_NewClientsetOrDie :: client
  ke_now_timer :: time
  ke_now_until :: time
  ke_now_status :: time
  ke_Intn :: "nat \<Rightarrow> nat"

section \<open>Server state (kubelet.go)\<close>

definition CustomKubeletServicePort :: string where "CustomKubeletServicePort = '':25010''"
definition PodLifecycleManagerCustom :: string where "PodLifecycleManagerCustom = ''custom''"
definition nWorkers :: nat where "nWorkers = 64"
definition WorkloadPoolLabel :: string where "WorkloadPoolLabel = ''kubedirect/workload-pool''"

record PendingPod =
  pp_Namespace :: string
  pp_Name :: string

definition NewPendingPodFromAPIServer :: "pod \<Rightarrow> PendingPod" where
  "NewPendingPodFromAPIServer p =
     \<lparr> pp_Namespace = om_Namespace (pod_Meta p), pp_Name = om_Name (pod_Meta p) \<rparr>"

definition NewPendingPodFromInMemCache :: "PodInfo \<Rightarrow> PendingPod" where
  "NewPendingPodFromInMemCache i = \<lparr> pp_Namespace = pi_Namespace i, pp_Name = pi_Name i \<rparr>"

definition PendingPod_String :: "PendingPod \<Rightarrow> string" where
  "PendingPod_String p = pp_Namespace p @ ''/'' @ pp_Name p"

datatype kout =
    QAdd PendingPod
  | QAddAfter PendingPod duration
  | QAddRateLimited PendingPod
  | QForget PendingPod
  | QDone PendingPod
  | QShutDown
  | GoExpose pod
  | GoWorkerLoop
  | ApiDelete string string
  | ApiCreate client pod
  | ApiUpdateStatus client pod
  | ApiPatchStatus client string string string
  | ApiUpdateNode node

record ('t, 'i, 'c, 'h) KubedirectServer =
  ks_initClient :: client
  ks_serverHub :: 'h
  ks_clientPool :: 'c
  ks_inMemCache :: 'i
  ks_nodeName :: string
  ks_readyDelay :: duration
  ks_readyTimers :: 't
  ks_simulate :: bool
  ks_patch :: bool
  ks_out :: "kout list"

definition emit :: "kout \<Rightarrow> ('t, 'i, 'c, 'h) KubedirectServer \<Rightarrow> ('t, 'i, 'c, 'h) KubedirectServer" where
  "emit e s = s\<lparr>ks_out := ks_out s @ [e]\<rparr>"

text \<open>\<open>NewKubedirectServer\<close>: nil when registering one of the two event handlers fails.\<close>

definition NewKubedirectServer ::
  "('t, 'i, 'c, 'h) kd_libs \<Rightarrow> apierr option \<Rightarrow> apierr option \<Rightarrow> client \<Rightarrow> string \<Rightarrow>
   ('t, 'i, 'c, 'h) KubedirectServer option" where
  "NewKubedirectServer L podErr nodeErr c nodeName =
     (let kdServer = \<lparr> ks_initClient = c, ks_serverHub = kl_NewHub L, ks_clientPool = sm_New (kl_pool L),
                       ks_inMemCache = sm_New (kl_cache L), ks_nodeName = nodeName, ks_readyDelay = 0,
                       ks_readyTimers = sm_New (kl_timers L), ks_simulate = False, ks_patch = False, ks_out = [] \<rparr>
      in if podErr \<noteq> None then None else if nodeErr \<noteq> None then None else Some kdServer)"

definition WithReadyDelay :: "duration \<Rightarrow> ('t, 'i, 'c, 'h) KubedirectServer \<Rightarrow> ('t, 'i, 'c, 'h) KubedirectServer" where
  "WithReadyDelay delay s = s\<lparr>ks_readyDelay := delay\<rparr>"

definition Simulate :: "('t, 'i, 'c, 'h) KubedirectServer \<Rightarrow> ('t, 'i, 'c, 'h) KubedirectServer" where
  "Simulate s = s\<lparr>ks_simulate := True\<rparr>"

definition UsePatch :: "('t, 'i, 'c, 'h) KubedirectServer \<Rightarrow> ('t, 'i, 'c, 'h) KubedirectServer" where
  "UsePatch s = s\<lparr>ks_patch := True\<rparr>"

definition enqueueFilter :: "('t, 'i, 'c, 'h) kd_libs \<Rightarrow> pod \<Rightarrow> bool" where
  "enqueueFilter L p \<longleftrightarrow>
     pod_NodeName p \<noteq> [] \<and>
     mget (om_Labels (pod_Meta p)) (kl_PodLifecycleManagerLabel L) = PodLifecycleManagerCustom"

fun err_list :: "(apierr + 'a) \<Rightarrow> apierr list" where
  "err_list (Inl e) = [e]" | "err_list (Inr _) = []"

definition isResponsibleFor ::
  "('t, 'i, 'c, 'h) kd_libs \<Rightarrow> kenv \<Rightarrow> ('t, 'i, 'c, 'h) KubedirectServer \<Rightarrow> pod \<Rightarrow> apierr + bool" where
  "isResponsibleFor L env s p =
     (if pod_NodeName p = [] then Inr False
      else if pod_NodeName p = ks_nodeName s then Inr True
      else
        (let this = ke_getNode env (ks_nodeName s); that = ke_getNode env (pod_NodeName p)
         in case (this, that) of
              (Inr thisNode, Inr thatNode) \<Rightarrow>
                Inr (mget (om_Annotations (node_Meta thisNode)) (kl_KubeletServiceAddrAnnotation L) =
                     mget (om_Annotations (node_Meta thatNode)) (kl_KubeletServiceAddrAnnotation L))
            | _ \<Rightarrow> Inl (OtherErr (''failed to get node object: '' @ kl_NewAggregate L (err_list this @ err_list that)))))"

section \<open>Informer events\<close>

datatype kobj = ObjPod pod | ObjNode node | Tombstone kobj | ObjOther

definition unwrapPodObj :: "('t, 'i, 'c, 'h) kd_libs \<Rightarrow> kobj \<Rightarrow> pod option" where
  "unwrapPodObj L obj =
     (let r = (case obj of ObjPod p \<Rightarrow> Some p | Tombstone (ObjPod p) \<Rightarrow> Some p | _ \<Rightarrow> None)
      in case r of None \<Rightarrow> None | Some p \<Rightarrow> if \<not> enqueueFilter L p then None else Some p)"

definition unwrapNodeObj :: "kobj \<Rightarrow> node option" where
  "unwrapNodeObj obj = (case obj of ObjNode n \<Rightarrow> Some n | Tombstone (ObjNode n) \<Rightarrow> Some n | _ \<Rightarrow> None)"

text \<open>The filter that the pod informer applies before it calls a handler.\<close>

definition FilterFunc :: "('t, 'i, 'c, 'h) kd_libs \<Rightarrow> kobj \<Rightarrow> bool" where
  "FilterFunc L obj =
     (case obj of ObjPod p \<Rightarrow> enqueueFilter L p
      | Tombstone t \<Rightarrow> (case t of ObjPod p \<Rightarrow> enqueueFilter L p | _ \<Rightarrow> False)
      | _ \<Rightarrow> False)"

definition del_timer ::
  "('t, 'i, 'c, 'h) kd_libs \<Rightarrow> PendingPod \<Rightarrow> ('t, 'i, 'c, 'h) KubedirectServer \<Rightarrow> ('t, 'i, 'c, 'h) KubedirectServer" where
  "del_timer L pending s = s\<lparr>ks_readyTimers := snd (sm_Del (kl_timers L) (ks_readyTimers s) (PendingPod_String pending))\<rparr>"

definition handlePodEvent ::
  "('t, 'i, 'c, 'h) kd_libs \<Rightarrow> kobj \<Rightarrow> bool \<Rightarrow> ('t, 'i, 'c, 'h) KubedirectServer \<Rightarrow> ('t, 'i, 'c, 'h) KubedirectServer" where
  "handlePodEvent L obj isDelete s =
     (case unwrapPodObj L obj of
        None \<Rightarrow> s
      | Some p \<Rightarrow>
          (let pending = NewPendingPodFromAPIServer p;
               s1 = (if \<not> isDelete then emit (QAdd pending) s else del_timer L pending s)
           in if kl_IsManaged L p \<and> kl_IsPersistent L p
              then s1\<lparr>ks_inMemCache := snd (sm_Del (kl_cache L) (ks_inMemCache s1) (om_Name (pod_Meta p)))\<rparr>
              else s1))"

definition GetClient :: "('t, 'i, 'c, 'h) kd_libs \<Rightarrow> ('t, 'i, 'c, 'h) KubedirectServer \<Rightarrow> string \<Rightarrow> client option" where
  "GetClient L s nodeName = sm_Get (kl_pool L) (ks_clientPool s) nodeName"

definition DelClient ::
  "('t, 'i, 'c, 'h) kd_libs \<Rightarrow> string \<Rightarrow> ('t, 'i, 'c, 'h) KubedirectServer \<Rightarrow> ('t, 'i, 'c, 'h) KubedirectServer" where
  "DelClient L nodeName s = s\<lparr>ks_clientPool := snd (sm_Del (kl_pool L) (ks_clientPool s) nodeName)\<rparr>"

definition handleNodeDelete ::
  "('t, 'i, 'c, 'h) kd_libs \<Rightarrow> kobj \<Rightarrow> ('t, 'i, 'c, 'h) KubedirectServer \<Rightarrow> ('t, 'i, 'c, 'h) KubedirectServer" where
  "handleNodeDelete L obj s =
     (case unwrapNodeObj obj of None \<Rightarrow> s | Some n \<Rightarrow> DelClient L (om_Name (node_Meta n)) s)"

section \<open>Pod status (kubedirect.go)\<close>

definition ConditionTrue :: string where "ConditionTrue = ''True''"
definition PodRunning :: string where "PodRunning = ''Running''"
definition PodReady :: string where "PodReady = ''Ready''"
definition ContainersReady :: string where "ContainersReady = ''ContainersReady''"
definition PodScheduled :: string where "PodScheduled = ''PodScheduled''"
definition PodInitialized :: string where "PodInitialized = ''Initialized''"
definition NodeInternalIP :: string where "NodeInternalIP = ''InternalIP''"

definition tweakRunning :: "time \<Rightarrow> container_status \<Rightarrow> container_status" where
  "tweakRunning now status =
     (case cs_Running status of None \<Rightarrow> status | Some _ \<Rightarrow> status\<lparr>cs_Running := Some now\<rparr>)"

definition tweakTerminated :: "time \<Rightarrow> container_status \<Rightarrow> container_status" where
  "tweakTerminated now status =
     (case cs_Terminated status of None \<Rightarrow> status
      | Some t \<Rightarrow> status\<lparr>cs_Terminated := Some (t\<lparr>term_StartedAt := now, term_FinishedAt := now\<rparr>)\<rparr>)"

definition tweakRefPodStatus :: "time \<Rightarrow> pod_status \<Rightarrow> pod_status" where
  "tweakRefPodStatus now refStatus =
     refStatus\<lparr>st_StartTime := Some now,
       st_Conditions := map (\<lambda>c. c\<lparr>cond_LastTransitionTime := now\<rparr>) (st_Conditions refStatus),
       st_ContainerStatuses := map (tweakRunning now) (st_ContainerStatuses refStatus),
       st_InitContainerStatuses := map (tweakTerminated now \<circ> tweakRunning now) (st_InitContainerStatuses refStatus)\<rparr>"

definition true_condition :: "string \<Rightarrow> condition" where
  "true_condition t = \<lparr> cond_Type = t, cond_Status = ConditionTrue, cond_LastTransitionTime = 0 \<rparr>"

definition simulateRefPodStatus :: "kenv \<Rightarrow> pod \<Rightarrow> pod_status" where
  "simulateRefPodStatus env p =
     tweakRefPodStatus (ke_now_status env)
       \<lparr> st_Phase = PodRunning,
         st_Conditions =
           map true_condition [PodReady, ContainersReady, PodScheduled, PodInitialized] @
           map true_condition (pod_ReadinessGates p),
         st_HostIP = ''127.0.0.1'', st_PodIP = ''127.0.0.1'', st_StartTime = None,
         st_ContainerStatuses =
           map (\<lambda>c. \<lparr> cs_Name = c_Name c, cs_Image = c_Image c, cs_Started = Some True, cs_Ready = True,
                      cs_Running = Some 0, cs_Terminated = None \<rparr>) (pod_Containers p),
         st_InitContainerStatuses =
           map (\<lambda>c. \<lparr> cs_Name = c_Name c, cs_Image = c_Image c, cs_Started = Some True, cs_Ready = True,
                      cs_Running = None,
                      cs_Terminated = Some \<lparr> term_ExitCode = 0, term_Reason = ''Completed'',
                                             term_StartedAt = 0, term_FinishedAt = 0 \<rparr> \<rparr>) (pod_InitContainers p) \<rparr>"

definition getRefPodStatus :: "('t, 'i, 'c, 'h) kd_libs \<Rightarrow> kenv \<Rightarrow> pod \<Rightarrow> (apierr + pod_status) go" where
  "getRefPodStatus L env p =
     (case ke_listPods env (om_Namespace (pod_Meta p)) WorkloadPoolLabel (mget (om_Labels (pod_Meta p)) ''workload'') of
        Inl err \<Rightarrow> Ret (Inl (OtherErr (''failed to list pods from workload pool: '' @ err_Error err)))
      | Inr workloadPool \<Rightarrow>
          (let readyPods = filter (kl_IsPodReady L) workloadPool
           in if length readyPods = 0 then Ret (Inl (OtherErr ''no ready pod matches the workload''))
              else go_bind (go_index readyPods (int (ke_Intn env (length readyPods)))) (\<lambda>refPod.
                     Ret (Inr (tweakRefPodStatus (ke_now_status env) (pod_Status refPod))))))"

definition markPodReadyByUpdate ::
  "('t, 'i, 'c, 'h) kd_libs \<Rightarrow> kenv \<Rightarrow> pod \<Rightarrow> pod_status \<Rightarrow> ('t, 'i, 'c, 'h) KubedirectServer \<Rightarrow>
   ((apierr + pod) \<times> ('t, 'i, 'c, 'h) KubedirectServer) go" where
  "markPodReadyByUpdate L env p refStatus s =
     (let p' = p\<lparr>pod_Status := refStatus\<rparr>
      in case GetClient L s (pod_NodeName p') of
           None \<Rightarrow> Panic NilDeref
         | Some c \<Rightarrow>
             Ret (case ke_UpdateStatus env c p' of
                    Inl err \<Rightarrow> Inl (OtherErr (''failed to update status: '' @ err_Error err))
                  | Inr updatedPod \<Rightarrow> Inr updatedPod,
                  emit (ApiUpdateStatus c p') s))"

text \<open>\<open>prepareMergePatchBytesForPodStatus\<close> encodes a pod that has only the uid and the status.
  \<open>%q\<close> of the encoded bytes, which hold no control character.\<close>

definition fmt_q :: "string \<Rightarrow> string" where
  "fmt_q s = CHR 0x22 # concat (map (\<lambda>c. if c = CHR 0x22 \<or> c = CHR 0x5C then [CHR 0x5C, c] else [c]) s) @ [CHR 0x22]"

definition prepareMergePatchBytesForPodStatus ::
  "('t, 'i, 'c, 'h) kd_libs \<Rightarrow> string \<Rightarrow> string \<Rightarrow> string \<Rightarrow> pod_status \<Rightarrow> apierr + string" where
  "prepareMergePatchBytesForPodStatus L namespace name uid newPodStatus =
     (case kl_Marshal L uid newPodStatus of
        Inl err \<Rightarrow> Inl (OtherErr (''failed to Marshal newData for pod '' @ fmt_q namespace @ ''/'' @ fmt_q name @ '': '' @ err_Error err))
      | Inr patchBytes \<Rightarrow> Inr patchBytes)"

definition markPodReadyByPatch ::
  "('t, 'i, 'c, 'h) kd_libs \<Rightarrow> kenv \<Rightarrow> pod \<Rightarrow> pod_status \<Rightarrow> ('t, 'i, 'c, 'h) KubedirectServer \<Rightarrow>
   ((apierr + pod) \<times> ('t, 'i, 'c, 'h) KubedirectServer) go" where
  "markPodReadyByPatch L env p refStatus s =
     (let ns = om_Namespace (pod_Meta p); name = om_Name (pod_Meta p)
      in case prepareMergePatchBytesForPodStatus L ns name (om_UID (pod_Meta p)) refStatus of
           Inl err \<Rightarrow> Ret (Inl err, s)
         | Inr patchBytes \<Rightarrow>
             (case GetClient L s (pod_NodeName p) of
                None \<Rightarrow> Panic NilDeref
              | Some c \<Rightarrow>
                  Ret (case ke_Patch env c ns name patchBytes of
                         Inl err \<Rightarrow> Inl (OtherErr (''failed to patch status '' @ fmt_q patchBytes @ '': '' @ err_Error err))
                       | Inr updatedPod \<Rightarrow> Inr updatedPod,
                       emit (ApiPatchStatus c ns name patchBytes) s)))"

definition markPodReady ::
  "('t, 'i, 'c, 'h) kd_libs \<Rightarrow> kenv \<Rightarrow> pod \<Rightarrow> pod_status \<Rightarrow> ('t, 'i, 'c, 'h) KubedirectServer \<Rightarrow>
   ((apierr + pod) \<times> ('t, 'i, 'c, 'h) KubedirectServer) go" where
  "markPodReady L env p refStatus s =
     (if ks_patch s then markPodReadyByPatch L env p refStatus s else markPodReadyByUpdate L env p refStatus s)"

section \<open>Synchronising a pod (kubelet.go)\<close>

text \<open>Which pod an item stands for: \<open>Inl\<close> is an early return of \<open>SyncPod\<close> with its error, \<open>Inr\<close>
  the pod and whether it comes from the in-memory cache.\<close>

definition resolvePod ::
  "('t, 'i, 'c, 'h) kd_libs \<Rightarrow> kenv \<Rightarrow> ('t, 'i, 'c, 'h) KubedirectServer \<Rightarrow> PendingPod \<Rightarrow> apierr option + (pod \<times> bool)" where
  "resolvePod L env s pending =
     (case ke_getPod env (pp_Namespace pending) (pp_Name pending) of
        Inr apiPod \<Rightarrow> Inr (apiPod, False)
      | Inl err \<Rightarrow>
          if IsNotFound err then
            (case sm_Get (kl_cache L) (ks_inMemCache s) (pp_Name pending) of
               None \<Rightarrow> Inl None
             | Some podInfo \<Rightarrow>
                 (case ke_GetUnnamedTemplateFor env (pi_Namespace podInfo) (pi_OwnerName podInfo) True of
                    Inl err \<Rightarrow> if IsNotFound err then Inl None else Inl (Some err)
                  | Inr template \<Rightarrow> Inr (kl_AsPersistentPod L podInfo template, True)))
          else Inl (Some err))"

text \<open>The last part: the reference status and the status write.\<close>

definition refStatusFor :: "('t, 'i, 'c, 'h) kd_libs \<Rightarrow> kenv \<Rightarrow> ('t, 'i, 'c, 'h) KubedirectServer \<Rightarrow> pod \<Rightarrow> (apierr + pod_status) go" where
  "refStatusFor L env s p = (if ks_simulate s then Ret (Inr (simulateRefPodStatus env p)) else getRefPodStatus L env p)"

definition reportReady ::
  "('t, 'i, 'c, 'h) kd_libs \<Rightarrow> kenv \<Rightarrow> pod \<Rightarrow> ('t, 'i, 'c, 'h) KubedirectServer \<Rightarrow>
   (apierr option \<times> ('t, 'i, 'c, 'h) KubedirectServer) go" where
  "reportReady L env p s =
     go_bind (refStatusFor L env s p) (\<lambda>r.
       case r of
         Inl err \<Rightarrow> Ret (Some err, s)
       | Inr refStatus \<Rightarrow>
           go_bind (markPodReady L env p refStatus s) (\<lambda>(m, s').
             Ret (case m of Inl err \<Rightarrow> Some err | Inr _ \<Rightarrow> None, s')))"

text \<open>From the ready timer on.\<close>

definition syncReady ::
  "('t, 'i, 'c, 'h) kd_libs \<Rightarrow> kenv \<Rightarrow> PendingPod \<Rightarrow> pod \<Rightarrow> bool \<Rightarrow> ('t, 'i, 'c, 'h) KubedirectServer \<Rightarrow>
   (apierr option \<times> ('t, 'i, 'c, 'h) KubedirectServer) go" where
  "syncReady L env pending p isInMem s =
     (let ((readyTime, fresh), timers) =
            sm_GetOrCreate (kl_timers L) (ks_readyTimers s) (PendingPod_String pending)
              (t_Add (ke_now_timer env) (ks_readyDelay s));
          s1 = s\<lparr>ks_readyTimers := timers\<rparr>;
          s2 = (if fresh \<and> isInMem then emit (GoExpose p) s1 else s1);
          waitTime = t_Until (ke_now_until env) readyTime
      in if waitTime > 0 then Ret (None, emit (QAddAfter pending waitTime) s2)
         else if isInMem then Ret (None, s2)
         else reportReady L env p s2)"

definition SyncPod ::
  "('t, 'i, 'c, 'h) kd_libs \<Rightarrow> kenv \<Rightarrow> PendingPod \<Rightarrow> ('t, 'i, 'c, 'h) KubedirectServer \<Rightarrow>
   (apierr option \<times> ('t, 'i, 'c, 'h) KubedirectServer) go" where
  "SyncPod L env pending s =
     (case resolvePod L env s pending of
        Inl ret \<Rightarrow> Ret (ret, s)
      | Inr (p, isInMem) \<Rightarrow>
          (case isResponsibleFor L env s p of
             Inl err \<Rightarrow> Ret (Some err, s)
           | Inr ok \<Rightarrow>
               if \<not> ok then Ret (None, s)
               else if om_DeletionTimestamp (pod_Meta p) \<noteq> None then
                 (let ns = om_Namespace (pod_Meta p); name = om_Name (pod_Meta p); s1 = emit (ApiDelete ns name) s
                  in case ke_Delete env ns name of
                       None \<Rightarrow> Ret (None, del_timer L pending s1)
                     | Some err \<Rightarrow>
                         if \<not> IsNotFound err then Ret (Some err, s1) else Ret (None, del_timer L pending s1))
               else if \<not> kl_IsPodActive L p then Ret (None, del_timer L pending s)
               else if kl_IsPodReady L p then Ret (None, del_timer L pending s)
               else syncReady L env pending p isInMem s))"

text \<open>\<open>processNextItem\<close> on what \<open>queue.Get\<close> returns; \<open>None\<close> is the shutdown.\<close>

definition processNextItem ::
  "('t, 'i, 'c, 'h) kd_libs \<Rightarrow> kenv \<Rightarrow> PendingPod option \<Rightarrow> ('t, 'i, 'c, 'h) KubedirectServer \<Rightarrow>
   (bool \<times> ('t, 'i, 'c, 'h) KubedirectServer) go" where
  "processNextItem L env item s =
     (case item of
        None \<Rightarrow> Ret (False, s)
      | Some pending \<Rightarrow>
          go_bind (SyncPod L env pending s) (\<lambda>(err, s1).
            case err of
              None \<Rightarrow> Ret (True, emit (QDone pending) (emit (QForget pending) s1))
            | Some e \<Rightarrow> Ret (True, emit (QDone pending) (emit (QAddRateLimited pending) s1))))"

text \<open>The worker loop over the items a worker is given; it ends with the shutdown.\<close>

fun workerLoop ::
  "('t, 'i, 'c, 'h) kd_libs \<Rightarrow> (kenv \<times> PendingPod) list \<Rightarrow> ('t, 'i, 'c, 'h) KubedirectServer \<Rightarrow>
   ('t, 'i, 'c, 'h) KubedirectServer go" where
  "workerLoop L [] s = Ret s"
| "workerLoop L ((env, item) # rest) s =
     go_bind (processNextItem L env (Some item) s) (\<lambda>(more, s1). if more then workerLoop L rest s1 else Ret s1)"

section \<open>RPC handlers (kubedirect.go)\<close>

record KubeletHandshakeResponse =
  hs_Epoch :: string
  hs_Name :: string
  hs_Pods :: "PodInfo list"

text \<open>The exclusive epoch lock is held until the response is built, then released.\<close>

definition Handshake ::
  "('t, 'i, 'c, 'h) kd_libs \<Rightarrow> kenv \<Rightarrow> HandshakeRequest \<Rightarrow> ('t, 'i, 'c, 'h) KubedirectServer \<Rightarrow>
   KubeletHandshakeResponse \<times> ('t, 'i, 'c, 'h) KubedirectServer" where
  "Handshake L env req s =
     (let s1 = s\<lparr>ks_clientPool := snd (sm_GetOrCreate (kl_pool L) (ks_clientPool s) (hr_Destination req)
                                    (ke_NewClientsetOrDie env))\<rparr>;
          s2 = s1\<lparr>ks_serverHub := kl_Lock L (ks_serverHub s1) (hr_Source req) (hr_Epoch req)\<rparr>
      in (\<lparr> hs_Epoch = hr_Epoch req, hs_Name = hr_Destination req,
            hs_Pods = kl_AsPodInfosProtoOnNode L (ks_inMemCache s2) (hr_Destination req) \<rparr>, s2))"

datatype grpc_error = GrpcNotFound string | GrpcInvalidArgument string

definition BindPod ::
  "('t, 'i, 'c, 'h) kd_libs \<Rightarrow> kenv \<Rightarrow> PodBindingRequest \<Rightarrow> ('t, 'i, 'c, 'h) KubedirectServer \<Rightarrow>
   grpc_error option \<times> ('t, 'i, 'c, 'h) KubedirectServer" where
  "BindPod L env req s =
     (case ke_GetUnnamedTemplateFor env (br_OwnerNamespace req) (br_OwnerName req) False of
        Inl err \<Rightarrow>
          (Some (GrpcNotFound (''error getting template pod for '' @ br_OwnerNamespace req @ ''/'' @ br_OwnerName req @
                               '': '' @ err_Error err)), s)
      | Inr _ \<Rightarrow>
          (let podInfo = kl_NewPodInfoFromBindingRequest L req
           in case kl_RLock L (ks_serverHub s) (br_Source req) (br_Epoch req) of
                Some err \<Rightarrow> (Some (GrpcInvalidArgument (kl_EpochMismatchError L @ '': '' @ err_Error err)), s)
              | None \<Rightarrow>
                  (let ((_, fresh), cache) = sm_GetOrCreate (kl_cache L) (ks_inMemCache s) (pi_Name podInfo) podInfo;
                       s1 = s\<lparr>ks_inMemCache := cache\<rparr>
                   in if \<not> fresh then (None, s1)
                      else (None, emit (QAdd (NewPendingPodFromInMemCache podInfo)) s1))))"

definition tryCreate ::
  "('t, 'i, 'c, 'h) kd_libs \<Rightarrow> pod \<Rightarrow> kenv \<Rightarrow> ('t, 'i, 'c, 'h) KubedirectServer \<Rightarrow>
   ((apierr + bool) \<times> ('t, 'i, 'c, 'h) KubedirectServer) go" where
  "tryCreate L p env s =
     (case GetClient L s (pod_NodeName p) of
        None \<Rightarrow> Panic NilDeref
      | Some c \<Rightarrow>
          Ret (case ke_Create env c p of
                 None \<Rightarrow> Inr True
               | Some err \<Rightarrow> if IsAlreadyExists err then Inr True else Inr False,
               emit (ApiCreate c p) s))"

definition ExposeManagedPod ::
  "(kenv, ('t, 'i, 'c, 'h) KubedirectServer) poll \<Rightarrow> ('t, 'i, 'c, 'h) kd_libs \<Rightarrow> kenv list \<Rightarrow> pod \<Rightarrow>
   ('t, 'i, 'c, 'h) KubedirectServer \<Rightarrow> ('t, 'i, 'c, 'h) KubedirectServer go" where
  "ExposeManagedPod P L envs p s =
     (if om_ResourceVersion (pod_Meta p) \<noteq> [] then Ret s
      else go_bind (P (tryCreate L p) envs s) (\<lambda>(_, s'). Ret s'))"

section \<open>Start-up\<close>

fun internalIP :: "node_addr list \<Rightarrow> string" where
  "internalIP [] = []"
| "internalIP (a # as) = (if addr_Type a = NodeInternalIP then addr_Address a else internalIP as)"

definition publishServiceAddr ::
  "('t, 'i, 'c, 'h) kd_libs \<Rightarrow> kenv \<Rightarrow> ('t, 'i, 'c, 'h) KubedirectServer \<Rightarrow>
   ((apierr + bool) \<times> ('t, 'i, 'c, 'h) KubedirectServer) go" where
  "publishServiceAddr L env s =
     (case ke_getNode env (ks_nodeName s) of
        Inl err \<Rightarrow>
          if IsNotFound err then Ret (Inl (OtherErr (''node '' @ ks_nodeName s @ '' not found'')), s)
          else Panic NilDeref
      | Inr n \<Rightarrow>
          (let hostIP = internalIP (node_Addresses n)
           in if hostIP = [] then Ret (Inl (OtherErr (''node '' @ ks_nodeName s @ '' has no internal IP'')), s)
              else
                (let n' = n\<lparr>node_Meta := (node_Meta n)\<lparr>om_Annotations :=
                             (om_Annotations (node_Meta n))(kl_KubeletServiceAddrAnnotation L \<mapsto> hostIP @ CustomKubeletServicePort)\<rparr>\<rparr>
                 in Ret (case ke_UpdateNode env n' of Some _ \<Rightarrow> Inr False | None \<Rightarrow> Inr True,
                         emit (ApiUpdateNode n') s))))"

fun emit_n :: "nat \<Rightarrow> kout \<Rightarrow> ('t, 'i, 'c, 'h) KubedirectServer \<Rightarrow> ('t, 'i, 'c, 'h) KubedirectServer" where
  "emit_n 0 e s = s"
| "emit_n (Suc n) e s = emit_n n e (emit e s)"

text \<open>\<open>unsynced\<close>: the informers that did not sync; \<open>served\<close>: what the RPC server returns at the end.
  The deferred \<open>ShutDown\<close> runs on every return.\<close>

definition ListenAndServe ::
  "(kenv, ('t, 'i, 'c, 'h) KubedirectServer) poll \<Rightarrow> ('t, 'i, 'c, 'h) kd_libs \<Rightarrow> kenv list \<Rightarrow> string list \<Rightarrow>
   apierr option \<Rightarrow> ('t, 'i, 'c, 'h) KubedirectServer \<Rightarrow> (apierr option \<times> ('t, 'i, 'c, 'h) KubedirectServer) go" where
  "ListenAndServe P L envs unsynced served s =
     (case unsynced of
        k # _ \<Rightarrow> Ret (Some (OtherErr (''error syncing '' @ k)), emit QShutDown s)
      | [] \<Rightarrow>
          go_bind (P (publishServiceAddr L) envs s) (\<lambda>(r, s1).
            case r of
              Some err \<Rightarrow>
                Ret (Some (OtherErr (''failed to publish custom kubelet service address: '' @ err_Error err)), emit QShutDown s1)
            | None \<Rightarrow> Ret (served, emit QShutDown (emit_n nWorkers GoWorkerLoop s1))))"

section \<open>main.go\<close>

record kubelet_flags =
  kf_node :: string
  kf_simulate :: bool
  kf_patch :: bool
  kf_readyAfter :: int

definition default_kubelet_flags :: kubelet_flags where
  "default_kubelet_flags = \<lparr> kf_node = [], kf_simulate = False, kf_patch = True, kf_readyAfter = 100 \<rparr>"

text \<open>The server that \<open>main\<close> builds from its flags: the node name, the delay and the two switches. A
  server that could not be built is a nil pointer on which \<open>WithReadyDelay\<close> is called.\<close>

definition kubelet_server ::
  "('t, 'i, 'c, 'h) kd_libs \<Rightarrow> apierr option \<Rightarrow> apierr option \<Rightarrow> apierr + string \<Rightarrow> client go \<Rightarrow> kubelet_flags \<Rightarrow>
   ('t, 'i, 'c, 'h) KubedirectServer go" where
  "kubelet_server L podErr nodeErr hostname kubeClient f =
     go_bind (if kf_node f = [] then
                (case hostname of
                   Inl err \<Rightarrow> Fatal (''Failed to get hostname: '' @ err_Error err)
                 | Inr hostName \<Rightarrow> Ret hostName)
              else Ret (kf_node f)) (\<lambda>node.
       go_bind kubeClient (\<lambda>c.
         case NewKubedirectServer L podErr nodeErr c node of
           None \<Rightarrow> Panic NilDeref
         | Some s \<Rightarrow>
             (let s1 = WithReadyDelay (int64 (kf_readyAfter f * Millisecond)) s;
                  s2 = (if kf_simulate f then Simulate s1 else s1)
              in Ret (if kf_patch f then UsePatch s2 else s2))))"

text \<open>\<open>cfg\<close> and \<open>new\<close> are what \<open>NewClientsetOrDie\<close> asks of the client library; the last arguments are those
  of \<open>ListenAndServe\<close>.\<close>

definition kubelet_main ::
  "(kenv, ('t, 'i, 'c, 'h) KubedirectServer) poll \<Rightarrow> ('t, 'i, 'c, 'h) kd_libs \<Rightarrow> apierr option \<Rightarrow> apierr option \<Rightarrow> apierr + string \<Rightarrow>
   rest_config go \<Rightarrow> (rest_config \<Rightarrow> apierr + client) \<Rightarrow> kubelet_flags \<Rightarrow> kenv list \<Rightarrow> string list \<Rightarrow> apierr option \<Rightarrow>
   ('t, 'i, 'c, 'h) KubedirectServer go" where
  "kubelet_main P L podErr nodeErr hostname cfg new f envs unsynced served =
     go_bind (kubelet_server L podErr nodeErr hostname (NewClientsetOrDie cfg new) f) (\<lambda>kdServer.
       go_bind (ListenAndServe P L envs unsynced served kdServer) (\<lambda>(err, s).
         case err of
           Some e \<Rightarrow> Fatal (''Failed to listen & serve: '' @ err_Error e)
         | None \<Rightarrow> Ret s))"

end
