(* ===== verification/Kubelet_Sync.thy ===== *)
theory Kubelet_Sync
  imports Kubelet
begin

text \<open>
  What the custom kubelet guarantees. The first sections read the shared maps of the server as
  plain maps and describe each operation on them; \<open>SyncPod_cases\<close> is the case analysis of
  \<open>SyncPod\<close> that the properties share. \<open>kl_step\<close> interleaves informer events, RPCs, exposures
  and synchronisations of the running kubelet, with a history of when items were
  synchronised and of the status writes; \<open>kl_inv\<close> is its invariant.
\<close>

section \<open>The state as plain maps\<close>

definition kd_maps :: "('t, 'i, 'c, 'h) kd_libs \<Rightarrow> bool" where
  "kd_maps L \<longleftrightarrow> shared_map_laws (kl_timers L) \<and> shared_map_laws (kl_cache L) \<and> shared_map_laws (kl_pool L)"

definition timers :: "('t, 'i, 'c, 'h) kd_libs \<Rightarrow> ('t, 'i, 'c, 'h) KubedirectServer \<Rightarrow> time smap" where
  "timers L s = sm_Inner (kl_timers L) (ks_readyTimers s)"

definition cache :: "('t, 'i, 'c, 'h) kd_libs \<Rightarrow> ('t, 'i, 'c, 'h) KubedirectServer \<Rightarrow> PodInfo smap" where
  "cache L s = sm_Inner (kl_cache L) (ks_inMemCache s)"

definition pool :: "('t, 'i, 'c, 'h) kd_libs \<Rightarrow> ('t, 'i, 'c, 'h) KubedirectServer \<Rightarrow> client smap" where
  "pool L s = sm_Inner (kl_pool L) (ks_clientPool s)"

text \<open>The epoch hub: an exclusive lock sets the epoch of a source, a shared lock is granted
  exactly when the epoch is the current one.\<close>

definition hub_laws :: "('t, 'i, 'c, 'h) kd_libs \<Rightarrow> bool" where
  "hub_laws L \<longleftrightarrow>
     (\<forall>h src e e'. kl_RLock L (kl_Lock L h src e) src e' = None \<longleftrightarrow> e' = e) \<and>
     (\<forall>h src src' e e'. src' \<noteq> src \<longrightarrow> kl_RLock L (kl_Lock L h src e) src' e' = kl_RLock L h src' e')"

text \<open>A pod instantiated from the cache has no resource version, no deletion timestamp and is
  neither ready nor finished; its name, namespace and node are those of the entry.\<close>

definition persistent_laws :: "('t, 'i, 'c, 'h) kd_libs \<Rightarrow> bool" where
  "persistent_laws L \<longleftrightarrow>
     (\<forall>i t. let p = kl_AsPersistentPod L i t in
        om_Name (pod_Meta p) = pi_Name i \<and> om_Namespace (pod_Meta p) = pi_Namespace i \<and>
        pod_NodeName p = pi_NodeName i \<and> om_ResourceVersion (pod_Meta p) = [] \<and>
        om_DeletionTimestamp (pod_Meta p) = None \<and> kl_IsPodActive L p \<and> \<not> kl_IsPodReady L p)"

text \<open>A lister answers with the object that was asked for.\<close>

definition lister_ok :: "kenv \<Rightarrow> bool" where
  "lister_ok env \<longleftrightarrow> (\<forall>ns n p. ke_getPod env ns n = Inr p \<longrightarrow> om_Namespace (pod_Meta p) = ns \<and> om_Name (pod_Meta p) = n)"

lemma emit_sel [simp]:
  "ks_out (emit e s) = ks_out s @ [e]" "ks_readyTimers (emit e s) = ks_readyTimers s"
  "ks_inMemCache (emit e s) = ks_inMemCache s" "ks_clientPool (emit e s) = ks_clientPool s"
  "ks_serverHub (emit e s) = ks_serverHub s" "ks_readyDelay (emit e s) = ks_readyDelay s"
  "ks_simulate (emit e s) = ks_simulate s" "ks_patch (emit e s) = ks_patch s" "ks_nodeName (emit e s) = ks_nodeName s"
  by (simp_all add: emit_def)

lemma emit_inject [simp]: "emit e s = emit e' s \<longleftrightarrow> e = e'"
  by (metis append1_eq_conv emit_sel(1))

lemma emit_maps [simp]:
  "timers L (emit e s) = timers L s" "cache L (emit e s) = cache L s" "pool L (emit e s) = pool L s"
  by (simp_all add: timers_def cache_def pool_def)

lemma del_timer_sel [simp]:
  "ks_out (del_timer L pending s) = ks_out s" "ks_inMemCache (del_timer L pending s) = ks_inMemCache s"
  "ks_clientPool (del_timer L pending s) = ks_clientPool s" "ks_readyDelay (del_timer L pending s) = ks_readyDelay s"
  "cache L (del_timer L pending s) = cache L s" "pool L (del_timer L pending s) = pool L s"
  by (simp_all add: del_timer_def cache_def pool_def)

lemma del_timer_timers [simp]:
  "kd_maps L \<Longrightarrow> timers L (del_timer L pending s) = (timers L s)(PendingPod_String pending := None)"
  by (simp add: timers_def del_timer_def kd_maps_def shared_map_simps)

lemma GetClient_pool [simp]: "kd_maps L \<Longrightarrow> GetClient L s n = pool L s n"
  by (simp add: GetClient_def pool_def kd_maps_def shared_map_simps)

section \<open>Status writes\<close>

text \<open>The item a status write is about, in the spelling of the timer keys.\<close>

fun write_key :: "kout \<Rightarrow> string option" where
  "write_key (ApiUpdateStatus c p) = Some (om_Namespace (pod_Meta p) @ ''/'' @ om_Name (pod_Meta p))"
| "write_key (ApiPatchStatus c ns name b) = Some (ns @ ''/'' @ name)"
| "write_key _ = None"

lemma markPodReady_Ret:
  assumes "markPodReady L env p st s = Ret (r, s')"
  shows "s' = s \<or> (\<exists>e. s' = emit e s \<and> write_key e = Some (om_Namespace (pod_Meta p) @ ''/'' @ om_Name (pod_Meta p)))"
  using assms
  by (auto simp: markPodReady_def markPodReadyByPatch_def markPodReadyByUpdate_def Let_def
      split: if_splits sum.splits option.splits)

lemma reportReady_Ret:
  assumes "reportReady L env p s = Ret (err, s')"
  shows "s' = s \<or> (\<exists>e. s' = emit e s \<and> write_key e = Some (om_Namespace (pod_Meta p) @ ''/'' @ om_Name (pod_Meta p)))"
proof -
  from assms obtain r where r: "refStatusFor L env s p = Ret r" by (auto simp: reportReady_def)
  show ?thesis
  proof (cases r)
    case (Inl e)
    with assms r show ?thesis by (simp add: reportReady_def)
  next
    case (Inr st)
    with assms r obtain m where "markPodReady L env p st s = Ret (m, s')"
      by (auto simp: reportReady_def)
    then show ?thesis by (rule markPodReady_Ret)
  qed
qed

text \<open>The status write of a pod in the mode of the server, and what the API server answers to it.\<close>

definition status_write :: "('t, 'i, 'c, 'h) kd_libs \<Rightarrow> bool \<Rightarrow> client \<Rightarrow> pod \<Rightarrow> pod_status \<Rightarrow> apierr + kout" where
  "status_write L patch c p st =
     (if patch
      then (case prepareMergePatchBytesForPodStatus L (om_Namespace (pod_Meta p)) (om_Name (pod_Meta p)) (om_UID (pod_Meta p)) st of
              Inl err \<Rightarrow> Inl err
            | Inr b \<Rightarrow> Inr (ApiPatchStatus c (om_Namespace (pod_Meta p)) (om_Name (pod_Meta p)) b))
      else Inr (ApiUpdateStatus c (p\<lparr>pod_Status := st\<rparr>)))"

fun write_answer :: "kenv \<Rightarrow> kout \<Rightarrow> (apierr + pod) option" where
  "write_answer env (ApiUpdateStatus c p) = Some (ke_UpdateStatus env c p)"
| "write_answer env (ApiPatchStatus c ns name b) = Some (ke_Patch env c ns name b)"
| "write_answer env _ = None"

lemma status_write_key:
  "status_write L patch c p st = Inr w \<Longrightarrow> write_key w = Some (om_Namespace (pod_Meta p) @ ''/'' @ om_Name (pod_Meta p))"
  by (auto simp: status_write_def split: if_splits sum.splits)

lemma markPodReady_writes:
  assumes "kd_maps L" and "pool L s (pod_NodeName p) = Some c" and "status_write L (ks_patch s) c p st = Inr w"
  shows "\<exists>r. markPodReady L env p st s = Ret (r, emit w s) \<and> (isl r \<longleftrightarrow> (\<exists>err. write_answer env w = Some (Inl err)))"
  using assms
  by (auto simp: markPodReady_def markPodReadyByPatch_def markPodReadyByUpdate_def status_write_def Let_def
      split: if_splits sum.splits)

lemma markPodReady_written:
  assumes "kd_maps L" and "markPodReady L env p st s = Ret (r, s')" and "ks_out s' = ks_out s @ [w]"
  shows "\<exists>c. status_write L (ks_patch s) c p st = Inr w"
  using assms
  by (auto simp: markPodReady_def markPodReadyByPatch_def markPodReadyByUpdate_def status_write_def Let_def
      split: if_splits sum.splits option.splits)

section \<open>The ready timer\<close>

text \<open>When the item becomes ready: the running timer, or a fresh one.\<close>

definition readyTime :: "('t, 'i, 'c, 'h) kd_libs \<Rightarrow> kenv \<Rightarrow> PendingPod \<Rightarrow> ('t, 'i, 'c, 'h) KubedirectServer \<Rightarrow> time" where
  "readyTime L env pending s =
     (case timers L s (PendingPod_String pending) of None \<Rightarrow> ke_now_timer env + ks_readyDelay s | Some t \<Rightarrow> t)"

definition set_timer ::
  "('t, 'i, 'c, 'h) kd_libs \<Rightarrow> kenv \<Rightarrow> PendingPod \<Rightarrow> ('t, 'i, 'c, 'h) KubedirectServer \<Rightarrow> ('t, 'i, 'c, 'h) KubedirectServer" where
  "set_timer L env pending s =
     s\<lparr>ks_readyTimers := snd (sm_GetOrCreate (kl_timers L) (ks_readyTimers s) (PendingPod_String pending)
          (t_Add (ke_now_timer env) (ks_readyDelay s)))\<rparr>"

lemma set_timer_sel [simp]:
  "ks_out (set_timer L env pending s) = ks_out s" "ks_inMemCache (set_timer L env pending s) = ks_inMemCache s"
  "ks_clientPool (set_timer L env pending s) = ks_clientPool s" "ks_readyDelay (set_timer L env pending s) = ks_readyDelay s"
  "ks_simulate (set_timer L env pending s) = ks_simulate s" "ks_patch (set_timer L env pending s) = ks_patch s"
  "cache L (set_timer L env pending s) = cache L s" "pool L (set_timer L env pending s) = pool L s"
  by (simp_all add: set_timer_def cache_def pool_def)

lemma set_timer_timers [simp]:
  "kd_maps L \<Longrightarrow> timers L (set_timer L env pending s) = (timers L s)(PendingPod_String pending \<mapsto> readyTime L env pending s)"
  by (auto simp: timers_def set_timer_def kd_maps_def shared_map_simps readyTime_def t_Add_def split: option.splits)

lemma syncReady_eq:
  assumes "kd_maps L"
  shows "syncReady L env pending p isInMem s =
    (let s1 = set_timer L env pending s;
         s2 = (if timers L s (PendingPod_String pending) = None \<and> isInMem then emit (GoExpose p) s1 else s1);
         wait = t_Until (ke_now_until env) (readyTime L env pending s)
     in if wait > 0 then Ret (None, emit (QAddAfter pending wait) s2)
        else if isInMem then Ret (None, s2) else reportReady L env p s2)"
proof -
  let ?g = "sm_GetOrCreate (kl_timers L) (ks_readyTimers s) (PendingPod_String pending) (t_Add (ke_now_timer env) (ks_readyDelay s))"
  have "fst ?g = (readyTime L env pending s, timers L s (PendingPod_String pending) = None)"
    using assms by (auto simp: kd_maps_def shared_map_simps readyTime_def timers_def t_Add_def split: option.splits)
  then have g: "?g = ((readyTime L env pending s, timers L s (PendingPod_String pending) = None), snd ?g)"
    by (metis prod.collapse)
  show ?thesis unfolding syncReady_def by (subst g) (simp add: set_timer_def Let_def)
qed

section \<open>The cases of SyncPod\<close>

text \<open>A pod the kubelet acts on: it resolves, and this kubelet is responsible for it.\<close>

definition handles ::
  "('t, 'i, 'c, 'h) kd_libs \<Rightarrow> kenv \<Rightarrow> PendingPod \<Rightarrow> ('t, 'i, 'c, 'h) KubedirectServer \<Rightarrow> pod \<Rightarrow> bool \<Rightarrow> bool" where
  "handles L env pending s p isInMem \<longleftrightarrow>
     resolvePod L env s pending = Inr (p, isInMem) \<and> isResponsibleFor L env s p = Inr True"

text \<open>It waits to become ready: not deleted, active, not ready yet.\<close>

definition awaiting :: "('t, 'i, 'c, 'h) kd_libs \<Rightarrow> pod \<Rightarrow> bool" where
  "awaiting L p \<longleftrightarrow> om_DeletionTimestamp (pod_Meta p) = None \<and> kl_IsPodActive L p \<and> \<not> kl_IsPodReady L p"

lemma SyncPod_awaiting:
  "handles L env pending s p isInMem \<Longrightarrow> awaiting L p \<Longrightarrow>
   SyncPod L env pending s = syncReady L env pending p isInMem s"
  by (simp add: SyncPod_def handles_def awaiting_def)

text \<open>A pod that is due: the write is made, and the synchronisation fails exactly when the API server
  refuses it.\<close>

lemma SyncPod_due:
  assumes "kd_maps L" and "handles L env pending s p False" and "awaiting L p"
    and "readyTime L env pending s \<le> ke_now_until env" and "refStatusFor L env s p = Ret (Inr st)"
  shows "SyncPod L env pending s = go_bind (markPodReady L env p st (set_timer L env pending s))
     (\<lambda>(m, s'). Ret (case m of Inl err \<Rightarrow> Some err | Inr _ \<Rightarrow> None, s'))"
proof -
  have "refStatusFor L env (set_timer L env pending s) p = Ret (Inr st)" using assms(5) by (simp add: refStatusFor_def)
  then show ?thesis
    using assms(1,4)
    by (simp add: SyncPod_awaiting [OF assms(2,3)] syncReady_eq t_Until_def t_Sub_pos_iff Let_def reportReady_def)
qed

lemma SyncPod_due_writes:
  assumes "kd_maps L" and "handles L env pending s p False" and "awaiting L p"
    and "readyTime L env pending s \<le> ke_now_until env" and "refStatusFor L env s p = Ret (Inr st)"
    and "pool L s (pod_NodeName p) = Some c" and "status_write L (ks_patch s) c p st = Inr w"
  shows "\<exists>err. SyncPod L env pending s = Ret (err, emit w (set_timer L env pending s)) \<and>
     (err = None \<longleftrightarrow> (\<exists>p'. write_answer env w = Some (Inr p')))"
proof -
  have "write_answer env w \<noteq> None" using assms(7) by (auto simp: status_write_def split: if_splits sum.splits)
  then have a: "(\<exists>p'. write_answer env w = Some (Inr p')) \<longleftrightarrow> \<not> (\<exists>err. write_answer env w = Some (Inl err))"
    by (metis isl_def option.exhaust option.inject sum.collapse(2) sum.disc(2))
  from markPodReady_writes [OF assms(1), of "set_timer L env pending s" p c st w env] assms(6,7) obtain r where
    "markPodReady L env p st (set_timer L env pending s) = Ret (r, emit w (set_timer L env pending s))"
    "isl r \<longleftrightarrow> (\<exists>err. write_answer env w = Some (Inl err))" by auto
  then show ?thesis unfolding SyncPod_due [OF assms(1-5)] a by (cases r) auto
qed

lemma SyncPod_skip:
  "handles L env pending s p isInMem \<Longrightarrow> om_DeletionTimestamp (pod_Meta p) = None \<Longrightarrow>
   \<not> kl_IsPodActive L p \<or> kl_IsPodReady L p \<Longrightarrow> SyncPod L env pending s = Ret (None, del_timer L pending s)"
  by (auto simp: SyncPod_def handles_def)

lemma SyncPod_deleting:
  "handles L env pending s p isInMem \<Longrightarrow> om_DeletionTimestamp (pod_Meta p) \<noteq> None \<Longrightarrow>
   SyncPod L env pending s =
     (let s1 = emit (ApiDelete (om_Namespace (pod_Meta p)) (om_Name (pod_Meta p))) s in
      case ke_Delete env (om_Namespace (pod_Meta p)) (om_Name (pod_Meta p)) of
        None \<Rightarrow> Ret (None, del_timer L pending s1)
      | Some err \<Rightarrow> if IsNotFound err then Ret (None, del_timer L pending s1) else Ret (Some err, s1))"
  by (auto simp: SyncPod_def handles_def Let_def split: option.splits)

lemma SyncPod_ignored:
  "(\<nexists>p isInMem. handles L env pending s p isInMem) \<Longrightarrow> \<exists>err. SyncPod L env pending s = Ret (err, s)"
  by (auto simp: SyncPod_def handles_def split: sum.splits prod.splits)

lemma SyncPod_cases:
  assumes "kd_maps L" and "SyncPod L env pending s = Ret (err, s')"
  obtains (ignored) "s' = s" and "\<nexists>p isInMem. handles L env pending s p isInMem"
    | (deleting) p isInMem where "handles L env pending s p isInMem" "om_DeletionTimestamp (pod_Meta p) \<noteq> None"
        "s' = emit (ApiDelete (om_Namespace (pod_Meta p)) (om_Name (pod_Meta p))) s \<or>
         s' = del_timer L pending (emit (ApiDelete (om_Namespace (pod_Meta p)) (om_Name (pod_Meta p))) s)"
    | (skip) p isInMem where "handles L env pending s p isInMem" "s' = del_timer L pending s"
    | (wait) p isInMem s2 where "handles L env pending s p isInMem" "awaiting L p"
        "ke_now_until env < readyTime L env pending s"
        "s2 = set_timer L env pending s \<or>
         (isInMem \<and> timers L s (PendingPod_String pending) = None \<and> s2 = emit (GoExpose p) (set_timer L env pending s))"
        "s' = emit (QAddAfter pending (t_Until (ke_now_until env) (readyTime L env pending s))) s2"
    | (unexposed) p where "handles L env pending s p True" "awaiting L p" "readyTime L env pending s \<le> ke_now_until env"
        "s' = set_timer L env pending s \<or>
         (timers L s (PendingPod_String pending) = None \<and> s' = emit (GoExpose p) (set_timer L env pending s))"
    | (report) p where "handles L env pending s p False" "awaiting L p" "readyTime L env pending s \<le> ke_now_until env"
        "reportReady L env p (set_timer L env pending s) = Ret (err, s')"
proof (cases "\<exists>p isInMem. handles L env pending s p isInMem")
  case False
  with SyncPod_ignored [OF False] assms(2) ignored show thesis by auto
next
  case True
  then obtain p isInMem where h: "handles L env pending s p isInMem" by blast
  show thesis
  proof (cases "om_DeletionTimestamp (pod_Meta p) = None")
    case False
    with SyncPod_deleting [OF h] assms(2) have
      "s' = emit (ApiDelete (om_Namespace (pod_Meta p)) (om_Name (pod_Meta p))) s \<or>
       s' = del_timer L pending (emit (ApiDelete (om_Namespace (pod_Meta p)) (om_Name (pod_Meta p))) s)"
      by (auto simp: Let_def split: option.splits if_splits)
    with h False deleting show thesis by blast
  next
    case del: True
    show thesis
    proof (cases "awaiting L p")
      case False
      with SyncPod_skip [OF h del] del assms(2) have "s' = del_timer L pending s" by (auto simp: awaiting_def)
      with h skip show thesis by blast
    next
      case aw: True
      note eq = SyncPod_awaiting [OF h aw] syncReady_eq [OF assms(1)]
      have pos: "t_Until (ke_now_until env) (readyTime L env pending s) > 0 \<longleftrightarrow> ke_now_until env < readyTime L env pending s"
        by (simp add: t_Until_def t_Sub_pos_iff)
      show thesis
      proof (cases "ke_now_until env < readyTime L env pending s")
        case True
        with eq assms(2) pos show thesis
          by (intro wait [OF h aw True]) (auto simp: Let_def split: if_splits)
      next
        case le: False
        with eq assms(2) pos h aw show thesis
          by (cases isInMem) (auto simp: Let_def split: if_splits intro: unexposed report)
      qed
    qed
  qed
qed

lemma resolve_api: "resolvePod L env s pending = Inr (p, False) \<longleftrightarrow>
    ke_getPod env (pp_Namespace pending) (pp_Name pending) = Inr p"
  by (auto simp: resolvePod_def split: sum.splits option.splits)

lemma handles_api_cong:
  "ks_nodeName s' = ks_nodeName s \<Longrightarrow> handles L env pending s' p False \<longleftrightarrow> handles L env pending s p False"
  by (simp add: handles_def resolve_api isResponsibleFor_def)

lemma resolve_inmem:
  assumes "kd_maps L" and "resolvePod L env s pending = Inr (p, True)"
  obtains i t where "cache L s (pp_Name pending) = Some i" and "p = kl_AsPersistentPod L i t"
  using assms by (auto simp: resolvePod_def kd_maps_def cache_def shared_map_simps split: sum.splits option.splits if_splits)

lemma handles_key:
  "handles L env pending s p False \<Longrightarrow> lister_ok env \<Longrightarrow>
   om_Namespace (pod_Meta p) @ ''/'' @ om_Name (pod_Meta p) = PendingPod_String pending"
  by (auto simp: handles_def resolve_api lister_ok_def PendingPod_String_def)

text \<open>What a synchronisation may write, and what it does to the timers.\<close>

lemma SyncPod_effect:
  assumes "kd_maps L" and "lister_ok env" and "SyncPod L env pending s = Ret (err, s')"
  shows "ks_readyDelay s' = ks_readyDelay s"
    and "timers L s' = timers L s \<or> timers L s' = (timers L s)(PendingPod_String pending := None) \<or>
         timers L s' = (timers L s)(PendingPod_String pending \<mapsto> readyTime L env pending s)"
    and "\<exists>new. ks_out s' = ks_out s @ new \<and>
         (\<forall>e \<in> set new. \<forall>k. write_key e = Some k \<longrightarrow>
            k = PendingPod_String pending \<and> readyTime L env pending s \<le> ke_now_until env)"
    and "cache L s' = cache L s" and "pool L s' = pool L s"
proof -
  have "ks_readyDelay s' = ks_readyDelay s \<and> cache L s' = cache L s \<and> pool L s' = pool L s \<and>
    (timers L s' = timers L s \<or> timers L s' = (timers L s)(PendingPod_String pending := None) \<or>
         timers L s' = (timers L s)(PendingPod_String pending \<mapsto> readyTime L env pending s)) \<and>
    (\<exists>new. ks_out s' = ks_out s @ new \<and>
         (\<forall>e \<in> set new. \<forall>k. write_key e = Some k \<longrightarrow>
            k = PendingPod_String pending \<and> readyTime L env pending s \<le> ke_now_until env))"
    using assms(1,3)
  proof (cases rule: SyncPod_cases)
    case (report p)
    from reportReady_Ret [OF report(4)] handles_key [OF report(1) assms(2)] report(3) assms(1)
    show ?thesis by auto
  qed (use assms(1) in auto)
  then show "ks_readyDelay s' = ks_readyDelay s"
    "timers L s' = timers L s \<or> timers L s' = (timers L s)(PendingPod_String pending := None) \<or>
         timers L s' = (timers L s)(PendingPod_String pending \<mapsto> readyTime L env pending s)"
    "\<exists>new. ks_out s' = ks_out s @ new \<and>
         (\<forall>e \<in> set new. \<forall>k. write_key e = Some k \<longrightarrow>
            k = PendingPod_String pending \<and> readyTime L env pending s \<le> ke_now_until env)"
    "cache L s' = cache L s" "pool L s' = pool L s" by blast+
qed

section \<open>The other operations\<close>

lemma handlePodEvent_sel [simp]:
  "ks_readyDelay (handlePodEvent L obj d s) = ks_readyDelay s" "pool L (handlePodEvent L obj d s) = pool L s"
  "ks_serverHub (handlePodEvent L obj d s) = ks_serverHub s"
  by (simp_all add: handlePodEvent_def pool_def del_timer_def emit_def Let_def split: option.splits)

lemma handlePodEvent_timers:
  "kd_maps L \<Longrightarrow> timers L (handlePodEvent L obj d s) =
     (case unwrapPodObj L obj of None \<Rightarrow> timers L s
      | Some p \<Rightarrow> if d then (timers L s)(PendingPod_String (NewPendingPodFromAPIServer p) := None) else timers L s)"
  by (auto simp: handlePodEvent_def timers_def del_timer_def emit_def kd_maps_def shared_map_simps Let_def split: option.splits)

lemma handlePodEvent_cache:
  "kd_maps L \<Longrightarrow> cache L (handlePodEvent L obj d s) =
     (case unwrapPodObj L obj of None \<Rightarrow> cache L s
      | Some p \<Rightarrow> if kl_IsManaged L p \<and> kl_IsPersistent L p then (cache L s)(om_Name (pod_Meta p) := None) else cache L s)"
  by (auto simp: handlePodEvent_def cache_def del_timer_def emit_def kd_maps_def shared_map_simps Let_def split: option.splits)

lemma handlePodEvent_out:
  "ks_out (handlePodEvent L obj d s) =
     (case unwrapPodObj L obj of None \<Rightarrow> ks_out s
      | Some p \<Rightarrow> if d then ks_out s else ks_out s @ [QAdd (NewPendingPodFromAPIServer p)])"
  by (auto simp: handlePodEvent_def del_timer_def emit_def Let_def split: option.splits)

lemma Handshake_maps:
  assumes "kd_maps L"
  shows "timers L (snd (Handshake L env req s)) = timers L s" "cache L (snd (Handshake L env req s)) = cache L s"
    "pool L (snd (Handshake L env req s)) =
       (case pool L s (hr_Destination req) of None \<Rightarrow> (pool L s)(hr_Destination req \<mapsto> ke_NewClientsetOrDie env)
        | Some c \<Rightarrow> pool L s)"
    "ks_readyDelay (snd (Handshake L env req s)) = ks_readyDelay s" "ks_out (snd (Handshake L env req s)) = ks_out s"
  using assms by (simp_all add: Handshake_def Let_def timers_def cache_def pool_def kd_maps_def shared_map_simps split: option.splits)

lemma BindPod_granted:
  assumes "kd_maps L" and "ke_GetUnnamedTemplateFor env (br_OwnerNamespace req) (br_OwnerName req) False = Inr t"
    and "kl_RLock L (ks_serverHub s) (br_Source req) (br_Epoch req) = None"
    and "i = kl_NewPodInfoFromBindingRequest L req"
  shows "fst (BindPod L env req s) = None"
    and "cache L (snd (BindPod L env req s)) =
           (case cache L s (pi_Name i) of None \<Rightarrow> (cache L s)(pi_Name i \<mapsto> i) | Some _ \<Rightarrow> cache L s)"
    and "ks_out (snd (BindPod L env req s)) =
           (case cache L s (pi_Name i) of None \<Rightarrow> ks_out s @ [QAdd (NewPendingPodFromInMemCache i)] | Some _ \<Rightarrow> ks_out s)"
    and "ks_serverHub (snd (BindPod L env req s)) = ks_serverHub s"
proof -
  let ?g = "sm_GetOrCreate (kl_cache L) (ks_inMemCache s) (pi_Name i) i"
  obtain v fresh m where g: "?g = ((v, fresh), m)" by (metis prod.collapse)
  have "fst ?g = (case cache L s (pi_Name i) of None \<Rightarrow> (i, True) | Some w \<Rightarrow> (w, False))"
    "sm_Inner (kl_cache L) (snd ?g) =
       (case cache L s (pi_Name i) of None \<Rightarrow> (cache L s)(pi_Name i \<mapsto> i) | Some _ \<Rightarrow> cache L s)"
    using assms(1) by (simp_all add: kd_maps_def shared_map_simps cache_def split: option.splits)
  then have "fresh = (cache L s (pi_Name i) = None)" "sm_Inner (kl_cache L) m =
       (case cache L s (pi_Name i) of None \<Rightarrow> (cache L s)(pi_Name i \<mapsto> i) | Some _ \<Rightarrow> cache L s)"
    using g by (auto split: option.splits)
  then show "fst (BindPod L env req s) = None"
    "cache L (snd (BindPod L env req s)) =
           (case cache L s (pi_Name i) of None \<Rightarrow> (cache L s)(pi_Name i \<mapsto> i) | Some _ \<Rightarrow> cache L s)"
    "ks_out (snd (BindPod L env req s)) =
           (case cache L s (pi_Name i) of None \<Rightarrow> ks_out s @ [QAdd (NewPendingPodFromInMemCache i)] | Some _ \<Rightarrow> ks_out s)"
    "ks_serverHub (snd (BindPod L env req s)) = ks_serverHub s"
    using g assms(2,3) by (auto simp: BindPod_def assms(4) [symmetric] cache_def emit_def split: option.splits)
qed

lemma BindPod_frame:
  "timers L (snd (BindPod L env req s)) = timers L s" "pool L (snd (BindPod L env req s)) = pool L s"
  "ks_readyDelay (snd (BindPod L env req s)) = ks_readyDelay s"
  by (auto simp: BindPod_def timers_def pool_def emit_def Let_def split: sum.splits option.splits prod.splits)

lemma BindPod_out: "\<exists>new. ks_out (snd (BindPod L env req s)) = ks_out s @ new \<and> (\<forall>e \<in> set new. write_key e = None)"
  by (auto simp: BindPod_def emit_def Let_def split: sum.splits option.splits prod.splits)

lemma DelClient_sel [simp]:
  "timers L (DelClient L n s) = timers L s" "cache L (DelClient L n s) = cache L s"
  "ks_readyDelay (DelClient L n s) = ks_readyDelay s" "ks_out (DelClient L n s) = ks_out s"
  by (simp_all add: DelClient_def timers_def cache_def)

lemma tryCreate_Ret:
  assumes "kd_maps L" and "tryCreate L p env s = Ret (r, s')"
  shows "\<exists>c. pool L s (pod_NodeName p) = Some c \<and> s' = emit (ApiCreate c p) s"
  using assms by (auto simp: tryCreate_def split: option.splits)

lemma Expose_creates:
  assumes "kd_maps L" and "poll_laws P" and "P (tryCreate L p) envs s = Ret (r, s')"
  shows "\<exists>n c. s' = s\<lparr>ks_out := ks_out s @ replicate n (ApiCreate c p)\<rparr> \<and>
         (n \<noteq> 0 \<longrightarrow> pool L s (pod_NodeName p) = Some c)"
  using assms(3)
proof (induction envs arbitrary: s)
  case Nil
  then show ?case using poll_nil [OF assms(2), of "tryCreate L p" s] by (auto intro!: exI [of _ 0])
next
  case (Cons env envs)
  then obtain x s1 where t: "tryCreate L p env s = Ret (x, s1)" by (auto simp: poll_cons [OF assms(2)])
  then obtain c where c: "pool L s (pod_NodeName p) = Some c" "s1 = emit (ApiCreate c p) s"
    using tryCreate_Ret [OF assms(1)] by blast
  consider "s' = s1" | "P (tryCreate L p) envs s1 = Ret (r, s')"
    using Cons.prems t by (auto simp: poll_cons [OF assms(2)] split: sum.splits if_splits)
  then show ?case
  proof cases
    case 1
    with c show ?thesis by (intro exI [of _ "Suc 0"] exI [of _ c]) (simp add: emit_def)
  next
    case 2
    from Cons.IH [OF this] c obtain n c' where
      "s' = s1\<lparr>ks_out := ks_out s1 @ replicate n (ApiCreate c' p)\<rparr>" "n \<noteq> 0 \<longrightarrow> c' = c"
      by auto
    with c show ?thesis
      by (intro exI [of _ "Suc n"] exI [of _ c]) (cases n, auto simp: emit_def)
  qed
qed

section \<open>The running kubelet\<close>

record ('t, 'i, 'c, 'h) kl_sys =
  sys_srv :: "('t, 'i, 'c, 'h) KubedirectServer"
  sys_seen :: "(string \<times> time) list"
  sys_writes :: "(kout \<times> time) list"

text \<open>\<open>sys_seen\<close>: the keys synchronised so far with the clock of the synchronisation.
  \<open>sys_writes\<close>: every output of a synchronisation with the clock at which it was made.\<close>

definition kl_init :: "('t, 'i, 'c, 'h) kd_libs \<Rightarrow> duration \<Rightarrow> ('t, 'i, 'c, 'h) kl_sys \<Rightarrow> bool" where
  "kl_init L delay s \<longleftrightarrow>
     (\<exists>c n srv. NewKubedirectServer L None None c n = Some srv \<and> sys_seen s = [] \<and> sys_writes s = [] \<and>
        sys_srv s \<in> {WithReadyDelay delay srv, Simulate (WithReadyDelay delay srv), UsePatch (WithReadyDelay delay srv),
                     UsePatch (Simulate (WithReadyDelay delay srv))})"

inductive kl_step :: "('t, 'i, 'c, 'h) kd_libs \<Rightarrow> ('t, 'i, 'c, 'h) kl_sys \<Rightarrow> ('t, 'i, 'c, 'h) kl_sys \<Rightarrow> bool" for L where
  pod_event: "FilterFunc L obj \<Longrightarrow> kl_step L s (s\<lparr>sys_srv := handlePodEvent L obj d (sys_srv s)\<rparr>)"
| node_event: "kl_step L s (s\<lparr>sys_srv := handleNodeDelete L obj (sys_srv s)\<rparr>)"
| handshake: "kl_step L s (s\<lparr>sys_srv := snd (Handshake L env hreq (sys_srv s))\<rparr>)"
| bind: "kl_step L s (s\<lparr>sys_srv := snd (BindPod L env breq (sys_srv s))\<rparr>)"
| expose: "GoExpose p \<in> set (ks_out (sys_srv s)) \<Longrightarrow> poll_laws P \<Longrightarrow> ExposeManagedPod P L envs p (sys_srv s) = Ret srv' \<Longrightarrow>
     kl_step L s (s\<lparr>sys_srv := srv'\<rparr>)"
| work: "lister_ok env \<Longrightarrow> SyncPod L env pending (sys_srv s) = Ret (err, srv') \<Longrightarrow>
     processNextItem L env (Some pending) (sys_srv s) = Ret (True, srv'') \<Longrightarrow>
     kl_step L s
       (s\<lparr>sys_srv := srv'', sys_seen := (PendingPod_String pending, ke_now_timer env) # sys_seen s,
          sys_writes := map (\<lambda>e. (e, ke_now_until env)) (drop (length (ks_out (sys_srv s))) (ks_out srv')) @ sys_writes s\<rparr>)"

inductive_cases kl_stepE: "kl_step L s t"

definition kl_inv :: "('t, 'i, 'c, 'h) kd_libs \<Rightarrow> duration \<Rightarrow> ('t, 'i, 'c, 'h) kl_sys \<Rightarrow> bool" where
  "kl_inv L delay s \<longleftrightarrow>
     ks_readyDelay (sys_srv s) = delay \<and>
     (\<forall>k t. timers L (sys_srv s) k = Some t \<longrightarrow> (\<exists>t0. (k, t0) \<in> set (sys_seen s) \<and> t0 + delay = t)) \<and>
     (\<forall>e now k. (e, now) \<in> set (sys_writes s) \<longrightarrow> write_key e = Some k \<longrightarrow>
        (\<exists>t0. (k, t0) \<in> set (sys_seen s) \<and> t0 + delay \<le> now))"

lemma kl_inv_init: "kd_maps L \<Longrightarrow> kl_init L delay s \<Longrightarrow> kl_inv L delay s"
  by (auto simp: kl_init_def kl_inv_def NewKubedirectServer_def WithReadyDelay_def Simulate_def UsePatch_def
      timers_def kd_maps_def shared_map_simps Let_def)

text \<open>A step that starts no timer and logs no write keeps the invariant.\<close>

lemma kl_inv_quiet:
  assumes "kl_inv L delay s" and "ks_readyDelay srv = ks_readyDelay (sys_srv s)"
    and "\<And>k t. timers L srv k = Some t \<Longrightarrow> timers L (sys_srv s) k = Some t"
  shows "kl_inv L delay (s\<lparr>sys_srv := srv\<rparr>)"
  using assms by (simp add: kl_inv_def)

lemma processNextItem_Some:
  assumes "processNextItem L env (Some pending) s = Ret (b, s'')" and "SyncPod L env pending s = Ret (err, s')"
  shows "s'' = emit (QDone pending) (emit (if err = None then QForget pending else QAddRateLimited pending) s') \<and> b"
  using assms by (auto simp: processNextItem_def split: option.splits)

lemma kl_inv_work:
  assumes L: "kd_maps L" and inv: "kl_inv L delay s" and env: "lister_ok env"
    and sync: "SyncPod L env pending (sys_srv s) = Ret (err, srv')"
    and srv'': "ks_readyDelay srv'' = ks_readyDelay srv'" "timers L srv'' = timers L srv'"
  shows "kl_inv L delay
       (s\<lparr>sys_srv := srv'', sys_seen := (PendingPod_String pending, ke_now_timer env) # sys_seen s,
          sys_writes := map (\<lambda>e. (e, ke_now_until env)) (drop (length (ks_out (sys_srv s))) (ks_out srv')) @ sys_writes s\<rparr>)"
    (is "kl_inv L delay ?t")
proof -
  note eff = SyncPod_effect [OF L env sync]
  let ?k = "PendingPod_String pending"
  have delay: "ks_readyDelay (sys_srv s) = delay" using inv by (simp add: kl_inv_def)
  have rt: "\<exists>t0. (?k, t0) \<in> set (sys_seen ?t) \<and> t0 + delay = readyTime L env pending (sys_srv s)"
    using inv delay by (cases "timers L (sys_srv s) ?k") (auto simp: readyTime_def kl_inv_def)
  from eff(3) obtain new where new: "ks_out srv' = ks_out (sys_srv s) @ new"
    "\<And>e k. e \<in> set new \<Longrightarrow> write_key e = Some k \<Longrightarrow> k = ?k \<and> readyTime L env pending (sys_srv s) \<le> ke_now_until env"
    by blast
  have old: "timers L (sys_srv s) k = Some t \<Longrightarrow> \<exists>t0. (k, t0) \<in> set (sys_seen ?t) \<and> t0 + delay = t" for k t
    using inv by (auto simp: kl_inv_def)
  have tm: "\<exists>t0. (k, t0) \<in> set (sys_seen ?t) \<and> t0 + delay = t" if "timers L srv' k = Some t" for k t
    using eff(2) that rt old [of k t] by (auto split: if_splits)
  have wr: "\<exists>t0. (k, t0) \<in> set (sys_seen ?t) \<and> t0 + delay \<le> now"
    if w: "(e, now) \<in> set (sys_writes ?t)" "write_key e = Some k" for e now k
  proof (cases "(e, now) \<in> set (sys_writes s)")
    case True
    then obtain t0 where "(k, t0) \<in> set (sys_seen s)" "t0 + delay \<le> now"
      using inv w(2) unfolding kl_inv_def by blast
    then show ?thesis by auto
  next
    case False
    with w(1) new(1) have "e \<in> set new" "now = ke_now_until env" by auto
    with new(2) [OF _ w(2)] rt show ?thesis by fastforce
  qed
  from tm wr delay eff(1) srv'' show ?thesis unfolding kl_inv_def by auto
qed

lemma kl_inv_step:
  assumes "kl_step L s t" and "kd_maps L" and inv: "kl_inv L delay s"
  shows "kl_inv L delay t"
  using assms(1)
proof cases
  case (pod_event obj d)
  then show ?thesis using assms(2)
    by (auto intro!: kl_inv_quiet [OF inv] simp: handlePodEvent_timers split: option.splits if_splits)
next
  case (node_event obj)
  then show ?thesis using inv by (auto intro!: kl_inv_quiet [OF inv] simp: handleNodeDelete_def split: option.splits)
next
  case (handshake env hreq)
  then show ?thesis using assms(2) by (auto intro!: kl_inv_quiet [OF inv] simp: Handshake_maps)
next
  case (bind env breq)
  then show ?thesis by (auto intro!: kl_inv_quiet [OF inv] simp: BindPod_frame)
next
  case (expose p P envs srv')
  then have "srv' = sys_srv s \<or> (\<exists>r. P (tryCreate L p) envs (sys_srv s) = Ret (r, srv'))"
    by (auto simp: ExposeManagedPod_def split: if_splits)
  then obtain o' where "srv' = (sys_srv s)\<lparr>ks_out := o'\<rparr>"
    using Expose_creates [OF assms(2) expose(3)] by (metis KubedirectServer.surjective KubedirectServer.update_convs(10))
  then show ?thesis unfolding expose(1) by (intro kl_inv_quiet [OF inv]) (auto simp: timers_def)
next
  case (work env pending err srv' srv'')
  have "srv'' = emit (QDone pending) (emit (if err = None then QForget pending else QAddRateLimited pending) srv')"
    using processNextItem_Some [OF work(4) work(3)] by blast
  then show ?thesis unfolding work(1) by (intro kl_inv_work [OF assms(2) inv work(2,3)]) simp_all
qed

interpretation kl_system: inductive_invariant "kl_init L delay" "kl_step L" "\<lambda>s. kd_maps L \<longrightarrow> kl_inv L delay s" for L delay
  by unfold_locales (auto intro: kl_inv_init kl_inv_step)

end
