(* ===== verification/Kubelet_Props.thy ===== *)
theory Kubelet_Props
  imports Kubelet_Sync
begin

text \<open>
  The properties of the custom kubelet, each with a run of the model on a concrete library
  instance \<open>sample_libs\<close> (maps as association maps, the hub as the map of current epochs).
\<close>

section \<open>A concrete instance\<close>

definition cond_true :: "string \<Rightarrow> pod \<Rightarrow> bool" where
  "cond_true t p \<longleftrightarrow> list_ex (\<lambda>c. cond_Type c = t \<and> cond_Status c = ConditionTrue) (st_Conditions (pod_Status p))"

definition pending_status :: pod_status where
  "pending_status =
     \<lparr> st_Phase = ''Pending'', st_Conditions = [], st_HostIP = [], st_PodIP = [], st_StartTime = None,
       st_ContainerStatuses = [], st_InitContainerStatuses = [] \<rparr>"

text \<open>The encoding of a status for a merge patch: the types of its true conditions, each character
  announced by a one and each type ended by a zero.\<close>

definition true_types :: "pod_status \<Rightarrow> string list" where
  "true_types st = map cond_Type (filter (\<lambda>c. cond_Status c = ConditionTrue) (st_Conditions st))"

definition enc_words :: "string list \<Rightarrow> string" where
  "enc_words ws = concat (map (\<lambda>w. concat (map (\<lambda>c. [CHR ''1'', c]) w) @ ''0'') ws)"

fun dec_words :: "string \<Rightarrow> string \<Rightarrow> string list" where
  "dec_words cur (x # y) =
     (if x = CHR ''1'' then (case y of [] \<Rightarrow> [] | c # r \<Rightarrow> dec_words (cur @ [c]) r) else cur # dec_words [] y)"
| "dec_words cur [] = []"

lemma dec_enc_words: "dec_words [] (enc_words ws) = ws"
proof -
  have w: "dec_words cur (concat (map (\<lambda>c. [CHR ''1'', c]) w) @ CHR ''0'' # r) = (cur @ w) # dec_words [] r" for cur w r
    by (induction w arbitrary: cur) simp_all
  show ?thesis by (induction ws) (simp_all add: enc_words_def w)
qed

definition sample_libs :: "(time smap, PodInfo smap, client smap, string smap) kd_libs" where
  "sample_libs =
     \<lparr> kl_timers = go_map, kl_cache = go_map, kl_pool = go_map, kl_NewHub = Map.empty,
       kl_Lock = (\<lambda>h src e. h(src \<mapsto> e)),
       kl_RLock = (\<lambda>h src e. if h src = Some e then None else Some (OtherErr ''stale'')),
       kl_AsPodInfosProtoOnNode = (\<lambda>m n. []),
       kl_NewPodInfoFromBindingRequest =
         (\<lambda>r. \<lparr> pi_Namespace = br_OwnerNamespace r, pi_Name = br_PodName r, pi_OwnerName = br_OwnerName r,
                pi_NodeName = br_NodeName r \<rparr>),
       kl_AsPersistentPod =
         (\<lambda>i t. t\<lparr>pod_Meta := (pod_Meta t)\<lparr>om_Name := pi_Name i, om_Namespace := pi_Namespace i, om_ResourceVersion := [],
                                          om_DeletionTimestamp := None\<rparr>,
                  pod_NodeName := pi_NodeName i, pod_Status := pending_status\<rparr>),
       kl_IsManaged = (\<lambda>p. True), kl_IsPersistent = (\<lambda>p. True),
       kl_IsPodActive = (\<lambda>p. st_Phase (pod_Status p) \<noteq> ''Failed'' \<and> om_DeletionTimestamp (pod_Meta p) = None),
       kl_IsPodReady = cond_true PodReady,
       kl_PodLifecycleManagerLabel = ''lifecycle'', kl_KubeletServiceAddrAnnotation = ''addr'',
       kl_EpochMismatchError = ''epoch mismatch'', kl_NewAggregate = (\<lambda>es. concat (map err_Error es)),
       kl_Marshal = (\<lambda>uid st. Inr (enc_words (true_types st))) \<rparr>"

lemma sample_maps: "kd_maps sample_libs"
  by (simp add: kd_maps_def sample_libs_def go_map_laws)

lemma sample_sel:
  "kl_timers sample_libs = go_map" "kl_cache sample_libs = go_map" "kl_pool sample_libs = go_map"
  "timers sample_libs s = ks_readyTimers s" "cache sample_libs s = ks_inMemCache s" "pool sample_libs s = ks_clientPool s"
  by (simp_all add: sample_libs_def timers_def cache_def pool_def go_map_sel)

lemma sample_hub: "hub_laws sample_libs"
  by (simp add: hub_laws_def sample_libs_def)

lemma sample_persistent: "persistent_laws sample_libs"
  by (simp add: persistent_laws_def sample_libs_def Let_def cond_true_def pending_status_def)

definition api_pod :: pod where
  "api_pod =
     \<lparr> pod_Meta = \<lparr> om_Namespace = ''d'', om_Name = ''p'', om_UID = ''u1'', om_ResourceVersion = ''7'',
                    om_Labels = [''lifecycle'' \<mapsto> ''custom''], om_Annotations = Map.empty, om_DeletionTimestamp = None \<rparr>,
       pod_NodeName = ''n1'', pod_ReadinessGates = [''gate''], pod_Containers = [\<lparr> c_Name = ''c'', c_Image = ''img'' \<rparr>],
       pod_InitContainers = [], pod_Status = pending_status \<rparr>"

text \<open>The situation at clock \<open>t\<close>: the lister knows \<open>pods\<close> and every API call succeeds.\<close>

definition env_at :: "time \<Rightarrow> pod list \<Rightarrow> kenv" where
  "env_at t pods =
     \<lparr> ke_getPod = (\<lambda>ns n. case find (\<lambda>p. om_Namespace (pod_Meta p) = ns \<and> om_Name (pod_Meta p) = n) pods of
                      None \<Rightarrow> Inl (NotFound n) | Some p \<Rightarrow> Inr p),
       ke_listPods = (\<lambda>ns l v. Inr (filter (\<lambda>p. mget (om_Labels (pod_Meta p)) l = v) pods)),
       ke_getNode = (\<lambda>n. Inl (NotFound n)), ke_GetUnnamedTemplateFor = (\<lambda>ns n b. Inr api_pod),
       ke_Delete = (\<lambda>ns n. None), ke_Create = (\<lambda>c p. None), ke_UpdateStatus = (\<lambda>c p. Inr p),
       ke_Patch = (\<lambda>c ns n b. Inr (api_pod\<lparr>pod_Status := pending_status\<lparr>st_Conditions := map true_condition (dec_words [] b)\<rparr>\<rparr>)), ke_UpdateNode = (\<lambda>n. None), ke_NewClientsetOrDie = 9,
       ke_now_timer = t, ke_now_until = t, ke_now_status = t, ke_Intn = (\<lambda>n. 0) \<rparr>"

lemma lister_env_at: "lister_ok (env_at t pods)"
  by (auto simp: lister_ok_def env_at_def find_Some_iff split: option.splits)

lemma env_at_now [simp]:
  "ke_now_timer (env_at t ps) = t" "ke_now_until (env_at t ps) = t" "ke_now_status (env_at t ps) = t"
  by (simp_all add: env_at_def)

definition item :: PendingPod where "item = \<lparr> pp_Namespace = ''d'', pp_Name = ''p'' \<rparr>"

definition srv0 :: "(time smap, PodInfo smap, client smap, string smap) KubedirectServer" where
  "srv0 =
     \<lparr> ks_initClient = 1, ks_serverHub = Map.empty, ks_clientPool = [''n1'' \<mapsto> 9], ks_inMemCache = Map.empty,
       ks_nodeName = ''n1'', ks_readyDelay = 100, ks_readyTimers = Map.empty, ks_simulate = True, ks_patch = False,
       ks_out = [] \<rparr>"

lemma sample_handles: "handles sample_libs (env_at t [api_pod]) item s api_pod False"
  if "ks_nodeName s = ''n1''"
  using that by (simp add: handles_def resolvePod_def isResponsibleFor_def env_at_def item_def api_pod_def)

lemma sample_awaiting: "awaiting sample_libs api_pod"
  by (simp add: awaiting_def sample_libs_def api_pod_def pending_status_def cond_true_def)

section \<open>The ready delay\<close>

text \<open>C1: no pod is reported ready early. In every run of the kubelet, whatever the order of
  informer events, RPCs, exposures and worker steps, a status write for a pod at clock \<open>now\<close>
  is preceded by a synchronisation of the same pod at least the ready delay earlier.\<close>

theorem never_ready_early:
  assumes "kd_maps L" and "reachable (kl_init L delay) (kl_step L) s"
    and "(e, now) \<in> set (sys_writes s)" and "write_key e = Some k"
  shows "\<exists>t0. (k, t0) \<in> set (sys_seen s) \<and> t0 + delay \<le> now"
  using kl_system.inv_reachable [OF assms(2)] assms(1,3,4) by (auto simp: kl_inv_def)

lemma sample_client: "pool sample_libs srv0 (pod_NodeName api_pod) = Some 9"
  by (simp add: pool_def sample_libs_def go_map_def srv0_def api_pod_def)

text \<open>C2: progress of one pod. An API pod that this kubelet handles and that has no timer yet, in a
  server with a ready delay that is not over when the clock is read for the second time, is
  first put back into the queue, with no API call, for the rest of the delay, so that it comes
  back exactly the ready delay after the first reading. When it is synchronised after that time,
  its node has a client and a reference status is at hand (and can be encoded when the server
  patches), it gets exactly one status write with that status, a merge patch or an update
  depending on the mode of the server; the synchronisation succeeds exactly when the API server
  accepts the write, and the timer is still there.\<close>

theorem sync_marks_ready:
  assumes "kd_maps L" and "awaiting L p"
    and "handles L env1 pending s p False" and "timers L s (PendingPod_String pending) = None"
    and "ke_now_timer env1 \<le> ke_now_until env1" and "ke_now_until env1 < ke_now_timer env1 + ks_readyDelay s"
    and "ks_readyDelay s \<le> max_duration"
    and "handles L env2 pending s p False" and "ke_now_timer env1 + ks_readyDelay s \<le> ke_now_until env2"
    and "pool L s (pod_NodeName p) = Some c" and "refStatusFor L env2 s p = Ret (Inr st)"
    and "ks_patch s \<Longrightarrow> kl_Marshal L (om_UID (pod_Meta p)) st = Inr b"
  shows "\<exists>wait s1 err s2 w. SyncPod L env1 pending s = Ret (None, s1) \<and>
     ks_out s1 = ks_out s @ [QAddAfter pending wait] \<and>
     0 < wait \<and> ke_now_until env1 + wait = ke_now_timer env1 + ks_readyDelay s \<and>
     SyncPod L env2 pending s1 = Ret (err, s2) \<and> ks_out s2 = ks_out s1 @ [w] \<and>
     w = (if ks_patch s then ApiPatchStatus c (om_Namespace (pod_Meta p)) (om_Name (pod_Meta p)) b
          else ApiUpdateStatus c (p\<lparr>pod_Status := st\<rparr>)) \<and>
     (err = None \<longleftrightarrow> (\<exists>p'. write_answer env2 w = Some (Inr p'))) \<and>
     timers L s2 = (timers L s)(PendingPod_String pending \<mapsto> ke_now_timer env1 + ks_readyDelay s)"
proof -
  define wait where "wait = ke_now_timer env1 + ks_readyDelay s - ke_now_until env1"
  define s1 where "s1 = emit (QAddAfter pending wait) (set_timer L env1 pending s)"
  have rt: "readyTime L env1 pending s = ke_now_timer env1 + ks_readyDelay s" using assms(4) by (simp add: readyTime_def)
  have w: "t_Until (ke_now_until env1) (readyTime L env1 pending s) = wait" "0 < wait"
    using assms(5-7) by (simp_all add: rt wait_def t_Until_def t_Sub_def min_duration_def max_duration_def)
  then have one: "SyncPod L env1 pending s = Ret (None, s1)"
    by (simp add: SyncPod_awaiting [OF assms(3,2)] syncReady_eq [OF assms(1)] s1_def)
  have t1: "timers L s1 = (timers L s)(PendingPod_String pending \<mapsto> ke_now_timer env1 + ks_readyDelay s)"
    using assms(1) by (simp add: s1_def rt)
  then have rt2: "readyTime L env2 pending s1 = ke_now_timer env1 + ks_readyDelay s" by (simp add: readyTime_def)
  have h2: "handles L env2 pending s1 p False"
    using assms(8) handles_api_cong [of s1 s] by (simp add: s1_def set_timer_def)
  have s1: "pool L s1 (pod_NodeName p) = Some c" "refStatusFor L env2 s1 p = Ret (Inr st)" "ks_patch s1 = ks_patch s"
    using assms(10,11) by (simp_all add: s1_def refStatusFor_def)
  let ?w = "if ks_patch s then ApiPatchStatus c (om_Namespace (pod_Meta p)) (om_Name (pod_Meta p)) b
            else ApiUpdateStatus c (p\<lparr>pod_Status := st\<rparr>)"
  have "status_write L (ks_patch s1) c p st = Inr ?w"
    using assms(12) by (simp add: status_write_def s1(3) prepareMergePatchBytesForPodStatus_def)
  from SyncPod_due_writes [OF assms(1) h2 assms(2) _ s1(2,1) this] rt2 assms(9) obtain err where
    two: "SyncPod L env2 pending s1 = Ret (err, emit ?w (set_timer L env2 pending s1))"
      "err = None \<longleftrightarrow> (\<exists>p'. write_answer env2 ?w = Some (Inr p'))" by auto
  have "timers L (set_timer L env2 pending s1) = timers L s1" using assms(1) t1 by (simp add: rt2)
  then show ?thesis
    using one two t1 w(2)
    by (intro exI [of _ wait] exI [of _ s1] exI [of _ err] exI [of _ "emit ?w (set_timer L env2 pending s1)"] exI [of _ ?w])
      (simp add: s1_def wait_def)
qed

text \<open>Both modes, with five nanoseconds between the two readings of the clock.\<close>

lemma sample_handles_later:
  "handles sample_libs (env_at t [api_pod]\<lparr>ke_now_until := u\<rparr>) item s api_pod False" if "ks_nodeName s = ''n1''"
  using that by (simp add: handles_def resolvePod_def isResponsibleFor_def env_at_def item_def api_pod_def)

theorem sync_marks_ready_witness:
  "\<forall>patch. \<exists>s1 s2. SyncPod sample_libs (env_at 1000 [api_pod]\<lparr>ke_now_until := 1005\<rparr>) item (srv0\<lparr>ks_patch := patch\<rparr>) = Ret (None, s1) \<and>
     SyncPod sample_libs (env_at 1100 [api_pod]) item s1 = Ret (None, s2) \<and>
     ks_out s2 = [QAddAfter item 95,
       if patch then ApiPatchStatus 9 ''d'' ''p'' (enc_words (true_types (simulateRefPodStatus (env_at 1100 [api_pod]) api_pod)))
       else ApiUpdateStatus 9 (api_pod\<lparr>pod_Status := simulateRefPodStatus (env_at 1100 [api_pod]) api_pod\<rparr>)]"
proof
  fix patch
  let ?s = "srv0\<lparr>ks_patch := patch\<rparr>" and ?env = "env_at 1000 [api_pod]\<lparr>ke_now_until := 1005\<rparr>"
  have n: "ks_nodeName ?s = ''n1''" by (simp add: srv0_def)
  have s: "pool sample_libs ?s (pod_NodeName api_pod) = Some 9" "timers sample_libs ?s (PendingPod_String item) = None"
    "refStatusFor sample_libs (env_at 1100 [api_pod]) ?s api_pod = Ret (Inr (simulateRefPodStatus (env_at 1100 [api_pod]) api_pod))"
    "ks_readyDelay ?s = 100" "ks_out ?s = []" "ks_patch ?s = patch"
    by (simp_all add: sample_sel srv0_def api_pod_def refStatusFor_def)
  have t: "ke_now_timer ?env \<le> ke_now_until ?env" "ke_now_until ?env < ke_now_timer ?env + ks_readyDelay ?s"
    "ks_readyDelay ?s \<le> max_duration" "ke_now_timer ?env + ks_readyDelay ?s \<le> ke_now_until (env_at 1100 [api_pod])"
    by (simp_all add: s max_duration_def)
  have enc: "kl_Marshal sample_libs u st = Inr (enc_words (true_types st))" for u st by (simp add: sample_libs_def)
  have ok: "\<exists>p'. write_answer (env_at t pods) (if patch then ApiPatchStatus c ns n b else ApiUpdateStatus c q) = Some (Inr p')" for t pods c ns n b q
    by (simp add: env_at_def)
  have name: "om_Namespace (pod_Meta api_pod) = ''d''" "om_Name (pod_Meta api_pod) = ''p''" by (simp_all add: api_pod_def)
  from sync_marks_ready [OF sample_maps sample_awaiting sample_handles_later [OF n] s(2) t(1-3) sample_handles [OF n] t(4) s(1,3) enc]
  show "\<exists>s1 s2. SyncPod sample_libs ?env item ?s = Ret (None, s1) \<and>
     SyncPod sample_libs (env_at 1100 [api_pod]) item s1 = Ret (None, s2) \<and>
     ks_out s2 = [QAddAfter item 95,
       if patch then ApiPatchStatus 9 ''d'' ''p'' (enc_words (true_types (simulateRefPodStatus (env_at 1100 [api_pod]) api_pod)))
       else ApiUpdateStatus 9 (api_pod\<lparr>pod_Status := simulateRefPodStatus (env_at 1100 [api_pod]) api_pod\<rparr>)]"
    unfolding s(4-6) name using ok by fastforce
qed

text \<open>A run: start, handshake of the node, two worker steps 100 nanoseconds apart.\<close>

definition ready_pod :: "time \<Rightarrow> pod" where
  "ready_pod t = api_pod\<lparr>pod_Status := simulateRefPodStatus (env_at t [api_pod]) api_pod\<rparr>"

abbreviation sample_run where "sample_run \<equiv> reachable (kl_init sample_libs 100) (kl_step sample_libs)"

definition srv_at :: "time smap \<Rightarrow> kout list \<Rightarrow> (time smap, PodInfo smap, client smap, string smap) KubedirectServer" where
  "srv_at tm outs = srv0\<lparr>ks_serverHub := [''sched'' \<mapsto> ''e1''], ks_readyTimers := tm, ks_out := outs\<rparr>"

definition item_key :: string where "item_key = ''d/p''"

lemma sample_run0: "sample_run \<lparr> sys_srv = srv_at Map.empty [], sys_seen = [], sys_writes = [] \<rparr>"
proof -
  let ?s = "\<lparr> sys_srv = srv0\<lparr>ks_clientPool := Map.empty\<rparr>, sys_seen = [], sys_writes = [] \<rparr>"
  let ?h = "\<lparr> hr_Source = ''sched'', hr_Destination = ''n1'', hr_Epoch = ''e1'' \<rparr>"
  have "kl_init sample_libs 100 ?s"
    unfolding kl_init_def
    by (intro exI [of _ 1] exI [of _ "''n1''"])
      (simp add: NewKubedirectServer_def WithReadyDelay_def Simulate_def UsePatch_def sample_libs_def go_map_def srv0_def)
  then have "sample_run ?s" by (rule reach_init)
  then have "sample_run (?s\<lparr>sys_srv := snd (Handshake sample_libs (env_at 0 []) ?h (sys_srv ?s))\<rparr>)"
    by (rule reach_step) (rule kl_step.handshake)
  then show ?thesis by (simp add: Handshake_def sample_libs_def go_map_def env_at_def srv_at_def srv0_def)
qed

lemma sample_sync1:
  "SyncPod sample_libs (env_at 1000 [api_pod]) item (srv_at Map.empty []) =
     Ret (None, srv_at [item_key \<mapsto> 1100] [QAddAfter item 100])"
proof -
  have h: "handles sample_libs (env_at 1000 [api_pod]) item (srv_at Map.empty []) api_pod False"
    by (rule sample_handles) (simp add: srv_at_def srv0_def)
  show ?thesis
    unfolding SyncPod_awaiting [OF h sample_awaiting] syncReady_def
    by (simp add: sample_libs_def go_map_def srv_at_def srv0_def emit_def
        item_def item_key_def PendingPod_String_def env_at_def t_Until_def t_Sub_def t_Add_def max_duration_def min_duration_def)
qed

lemma sample_sync2:
  "SyncPod sample_libs (env_at 1100 [api_pod]) item (srv_at [item_key \<mapsto> 1100] outs) =
     Ret (None, srv_at [item_key \<mapsto> 1100] (outs @ [ApiUpdateStatus 9 (ready_pod 1100)]))"
proof -
  have h: "handles sample_libs (env_at 1100 [api_pod]) item (srv_at [item_key \<mapsto> 1100] outs) api_pod False"
    by (rule sample_handles) (simp add: srv_at_def srv0_def)
  have "GetClient sample_libs (srv_at [item_key \<mapsto> 1100] outs) (pod_NodeName api_pod) = Some 9"
    by (simp add: GetClient_def sample_libs_def go_map_def srv_at_def srv0_def api_pod_def)
  moreover have "ke_UpdateStatus (env_at 1100 [api_pod]) 9 (ready_pod 1100) = Inr (ready_pod 1100)"
    by (simp add: env_at_def)
  moreover have "ks_simulate (srv_at m o')" "\<not> ks_patch (srv_at m o')" for m o' by (simp_all add: srv_at_def srv0_def)
  ultimately have "reportReady sample_libs (env_at 1100 [api_pod]) api_pod (srv_at [item_key \<mapsto> 1100] outs) =
      Ret (None, emit (ApiUpdateStatus 9 (ready_pod 1100)) (srv_at [item_key \<mapsto> 1100] outs))"
    by (simp add: reportReady_def refStatusFor_def markPodReady_def markPodReadyByUpdate_def ready_pod_def Let_def)
  moreover have "syncReady sample_libs (env_at 1100 [api_pod]) item api_pod False (srv_at [item_key \<mapsto> 1100] outs) =
      reportReady sample_libs (env_at 1100 [api_pod]) api_pod (srv_at [item_key \<mapsto> 1100] outs)"
    by (simp add: syncReady_def sample_sel go_map_sel item_def item_key_def PendingPod_String_def srv_at_def srv0_def t_Until_def
        t_Sub_def max_duration_def min_duration_def)
  ultimately show ?thesis
    unfolding SyncPod_awaiting [OF h sample_awaiting] by (simp add: srv_at_def emit_def)
qed

lemma sample_work:
  assumes "sample_run \<lparr> sys_srv = srv_at m o1, sys_seen = seen, sys_writes = wr \<rparr>"
    and "SyncPod sample_libs (env_at t [api_pod]) item (srv_at m o1) = Ret (None, srv_at m' o2)"
  shows "sample_run \<lparr> sys_srv = srv_at m' (o2 @ [QForget item, QDone item]), sys_seen = (item_key, t) # seen,
           sys_writes = map (\<lambda>e. (e, t)) (drop (length o1) o2) @ wr \<rparr>"
proof -
  have k: "PendingPod_String item = item_key" by (simp add: PendingPod_String_def item_def item_key_def)
  have out: "ks_out (srv_at m o') = o'" "emit e (srv_at m o') = srv_at m (o' @ [e])" for m o' e
    by (simp_all add: srv_at_def emit_def)
  let ?s = "\<lparr> sys_srv = srv_at m o1, sys_seen = seen, sys_writes = wr \<rparr>"
  have sync: "SyncPod sample_libs (env_at t [api_pod]) item (sys_srv ?s) = Ret (None, srv_at m' o2)" using assms(2) by simp
  have "processNextItem sample_libs (env_at t [api_pod]) (Some item) (sys_srv ?s) =
      Ret (True, srv_at m' (o2 @ [QForget item, QDone item]))"
    using sync by (simp add: processNextItem_def out)
  from reach_step [OF assms(1) kl_step.work [OF lister_env_at sync this]]
  show ?thesis by (simp add: k out)
qed

lemma sample_run2:
  "\<exists>s. sample_run s \<and> (ApiUpdateStatus 9 (ready_pod 1100), 1100) \<in> set (sys_writes s)"
  by (intro exI conjI, rule sample_work [OF sample_work [OF sample_run0 sample_sync1] sample_sync2]) simp

theorem never_ready_early_witness:
  "\<exists>s t0. sample_run s \<and> (item_key, t0) \<in> set (sys_seen s) \<and> t0 + 100 \<le> 1100"
proof -
  obtain s where s: "sample_run s" "(ApiUpdateStatus 9 (ready_pod 1100), 1100) \<in> set (sys_writes s)"
    using sample_run2 by blast
  have "write_key (ApiUpdateStatus 9 (ready_pod 1100)) = Some item_key"
    by (simp add: ready_pod_def api_pod_def item_key_def)
  from never_ready_early [OF sample_maps s this] s(1) show ?thesis by blast
qed

section \<open>In-memory pods\<close>

text \<open>C3: a pod that is only in the in-memory cache is never given a status. The first
  synchronisation that this kubelet handles starts its timer and one exposure goroutine;
  later ones start none. While the delay runs the item is put back for the rest of it;
  afterwards the kubelet waits for the pod to appear in the API server and does nothing.\<close>

theorem inmem_exposed_once:
  assumes "kd_maps L" and "persistent_laws L" and "handles L env pending s p True"
  shows "\<exists>s'. SyncPod L env pending s = Ret (None, s') \<and>
     ks_out s' = ks_out s @
       (if timers L s (PendingPod_String pending) = None then [GoExpose p] else []) @
       (if ke_now_until env < readyTime L env pending s
        then [QAddAfter pending (t_Until (ke_now_until env) (readyTime L env pending s))] else []) \<and>
     timers L s' = (timers L s)(PendingPod_String pending \<mapsto> readyTime L env pending s) \<and>
     om_ResourceVersion (pod_Meta p) = [] \<and> cache L s' = cache L s"
proof -
  from assms(3) have "resolvePod L env s pending = Inr (p, True)" by (simp add: handles_def)
  then obtain i t where "p = kl_AsPersistentPod L i t" by (rule resolve_inmem [OF assms(1)])
  then have "awaiting L p" and rv: "om_ResourceVersion (pod_Meta p) = []"
    using assms(2) by (auto simp: persistent_laws_def awaiting_def Let_def)
  then show ?thesis
    using assms(1)
    by (auto simp: SyncPod_awaiting [OF assms(3)] syncReady_eq [OF assms(1)] Let_def t_Until_def t_Sub_pos_iff)
qed

definition inmem_srv :: "(time smap, PodInfo smap, client smap, string smap) KubedirectServer" where
  "inmem_srv = srv0\<lparr>ks_inMemCache := [''p'' \<mapsto> \<lparr> pi_Namespace = ''d'', pi_Name = ''p'', pi_OwnerName = ''rs'', pi_NodeName = ''n1'' \<rparr>]\<rparr>"

definition inmem_pod :: pod where
  "inmem_pod = kl_AsPersistentPod sample_libs \<lparr> pi_Namespace = ''d'', pi_Name = ''p'', pi_OwnerName = ''rs'', pi_NodeName = ''n1'' \<rparr> api_pod"

lemma inmem_handles: "handles sample_libs (env_at t []) item inmem_srv inmem_pod True"
  by (simp add: handles_def resolvePod_def isResponsibleFor_def env_at_def item_def inmem_srv_def sample_sel go_map_sel
      inmem_pod_def) (simp add: sample_libs_def srv0_def)

theorem inmem_exposed_once_witness:
  "\<exists>s'. SyncPod sample_libs (env_at 1000 []) item inmem_srv = Ret (None, s') \<and>
     ks_out s' = [GoExpose inmem_pod, QAddAfter item 100]"
  using inmem_exposed_once [OF sample_maps sample_persistent inmem_handles [of 1000]]
  by (auto simp: readyTime_def sample_sel inmem_srv_def srv0_def t_Until_def t_Sub_def max_duration_def min_duration_def)

text \<open>C11: binding is idempotent. When the pod template of the owner is found, a pod bound under the
  current epoch whose name is not in the cache is stored and queued once; binding a pod of the
  same name again, even with other contents, succeeds and changes nothing, so a repeated delivery is never queued twice.\<close>

theorem bind_idempotent:
  assumes "kd_maps L"
    and "ke_GetUnnamedTemplateFor env1 (br_OwnerNamespace req1) (br_OwnerName req1) False = Inr t1"
    and "ke_GetUnnamedTemplateFor env2 (br_OwnerNamespace req2) (br_OwnerName req2) False = Inr t2"
    and "kl_RLock L (ks_serverHub s) (br_Source req1) (br_Epoch req1) = None"
    and "kl_RLock L (ks_serverHub s) (br_Source req2) (br_Epoch req2) = None"
    and "i = kl_NewPodInfoFromBindingRequest L req1"
    and "pi_Name (kl_NewPodInfoFromBindingRequest L req2) = pi_Name i" and "cache L s (pi_Name i) = None"
    and "s1 = snd (BindPod L env1 req1 s)" and "s2 = snd (BindPod L env2 req2 s1)"
  shows "fst (BindPod L env1 req1 s) = None \<and> fst (BindPod L env2 req2 s1) = None \<and>
     cache L s1 = (cache L s)(pi_Name i \<mapsto> i) \<and> cache L s2 = cache L s1 \<and>
     ks_out s1 = ks_out s @ [QAdd (NewPendingPodFromInMemCache i)] \<and> ks_out s2 = ks_out s1"
proof -
  note b1 = BindPod_granted [OF assms(1,2,4,6)]
  have c1: "cache L s1 = (cache L s)(pi_Name i \<mapsto> i)" using b1(2) assms(8,9) by simp
  have "kl_RLock L (ks_serverHub s1) (br_Source req2) (br_Epoch req2) = None" using b1(4) assms(5,9) by simp
  note b2 = BindPod_granted [OF assms(1,3) this refl]
  show ?thesis using b1 b2 c1 assms(7-10) by auto
qed

definition bind_req :: "string \<Rightarrow> PodBindingRequest" where
  "bind_req e =
     \<lparr> br_Source = ''sched'', br_Epoch = e, br_OwnerNamespace = ''d'', br_OwnerName = ''rs'', br_PodName = ''p'', br_NodeName = ''n1'' \<rparr>"

theorem bind_idempotent_witness:
  "ks_out (snd (BindPod sample_libs (env_at 2 []) (bind_req ''e1'') (snd (BindPod sample_libs (env_at 1 []) (bind_req ''e1'')
     (srv_at Map.empty []))))) = [QAdd item]"
  using bind_idempotent [OF sample_maps, of "env_at 1 []" "bind_req ''e1''" api_pod "env_at 2 []" "bind_req ''e1''" api_pod
      "srv_at Map.empty []" _ _ _, OF _ _ _ _ refl refl _ refl refl]
  by (simp add: env_at_def bind_req_def sample_sel srv_at_def srv0_def NewPendingPodFromInMemCache_def item_def)
    (simp add: sample_libs_def)

text \<open>C12: a new epoch fences the old one. After a handshake of a source with epoch \<open>e\<close>, a binding
  (of a pod whose template is found) of the same source with another epoch is refused as a mismatch and leaves the kubelet as it
  was; the source's bindings with \<open>e\<close> pass the epoch check, other sources are not affected, and
  the node of the handshake has an API client.\<close>

theorem handshake_fences:
  assumes "kd_maps L" and "hub_laws L" and "s1 = snd (Handshake L env hreq s)"
    and "ke_GetUnnamedTemplateFor env' (br_OwnerNamespace req) (br_OwnerName req) False = Inr t"
    and "br_Source req = hr_Source hreq"
  shows "(br_Epoch req \<noteq> hr_Epoch hreq \<longrightarrow>
            (\<exists>m. fst (BindPod L env' req s1) = Some (GrpcInvalidArgument (kl_EpochMismatchError L @ '': '' @ m))) \<and>
            snd (BindPod L env' req s1) = s1) \<and>
         (br_Epoch req = hr_Epoch hreq \<longrightarrow> fst (BindPod L env' req s1) = None) \<and>
         (src \<noteq> hr_Source hreq \<longrightarrow> kl_RLock L (ks_serverHub s1) src e = kl_RLock L (ks_serverHub s) src e) \<and>
         pool L s1 (hr_Destination hreq) \<noteq> None"
proof -
  have hub: "ks_serverHub s1 = kl_Lock L (ks_serverHub s) (hr_Source hreq) (hr_Epoch hreq)"
    by (simp add: assms(3) Handshake_def Let_def)
  have ok: "kl_RLock L (ks_serverHub s1) (br_Source req) (br_Epoch req) = None \<longleftrightarrow> br_Epoch req = hr_Epoch hreq"
    using assms(2,5) by (simp add: hub hub_laws_def)
  have "br_Epoch req \<noteq> hr_Epoch hreq \<Longrightarrow>
      (\<exists>m. fst (BindPod L env' req s1) = Some (GrpcInvalidArgument (kl_EpochMismatchError L @ '': '' @ m))) \<and>
      snd (BindPod L env' req s1) = s1"
    using ok assms(4) by (auto simp: BindPod_def)
  moreover have "br_Epoch req = hr_Epoch hreq \<Longrightarrow> fst (BindPod L env' req s1) = None"
    using BindPod_granted(1) [OF assms(1,4) _ refl] ok by blast
  moreover have "src \<noteq> hr_Source hreq \<Longrightarrow> kl_RLock L (ks_serverHub s1) src e = kl_RLock L (ks_serverHub s) src e"
    using assms(2) by (simp add: hub hub_laws_def)
  moreover have "pool L s1 (hr_Destination hreq) \<noteq> None"
    using Handshake_maps(3) [OF assms(1), of env hreq s] assms(3) by (auto split: option.splits)
  ultimately show ?thesis by blast
qed

theorem handshake_fences_witness:
  "snd (BindPod sample_libs (env_at 2 []) (bind_req ''e0'')
        (snd (Handshake sample_libs (env_at 1 []) \<lparr> hr_Source = ''sched'', hr_Destination = ''n1'', hr_Epoch = ''e1'' \<rparr> srv0)))
   = snd (Handshake sample_libs (env_at 1 []) \<lparr> hr_Source = ''sched'', hr_Destination = ''n1'', hr_Epoch = ''e1'' \<rparr> srv0)"
  using handshake_fences [OF sample_maps sample_hub refl, of "env_at 2 []" "bind_req ''e0''" api_pod
      "\<lparr> hr_Source = ''sched'', hr_Destination = ''n1'', hr_Epoch = ''e1'' \<rparr>" "env_at 1 []" srv0 "[]" "[]"]
  by (simp add: bind_req_def env_at_def)

section \<open>Exposure\<close>

text \<open>C17: exposing retries until the pod exists. With a client for the node, and \<open>Create\<close> failing
  with other errors before an attempt that succeeds or finds the pod, the exposure ends after
  that attempt: one \<open>Create\<close> per attempt on the same client and nothing else. A pod that has a
  resource version is never created.\<close>

theorem expose_until_exists:
  assumes "kd_maps L" and "poll_laws P" and "pool L s (pod_NodeName p) = Some c"
    and "\<And>env. env \<in> set failing \<Longrightarrow> \<exists>err. ke_Create env c p = Some err \<and> \<not> IsAlreadyExists err"
    and "ke_Create env c p = None \<or> (\<exists>err. ke_Create env c p = Some err \<and> IsAlreadyExists err)"
  shows "ExposeManagedPod P L (failing @ env # rest) p s =
     Ret (if om_ResourceVersion (pod_Meta p) \<noteq> [] then s
          else s\<lparr>ks_out := ks_out s @ replicate (Suc (length failing)) (ApiCreate c p)\<rparr>)"
proof -
  have "P (tryCreate L p) (failing @ env # rest) s =
      Ret (None, s\<lparr>ks_out := ks_out s @ replicate (Suc (length failing)) (ApiCreate c p)\<rparr>)"
    using assms(3,4)
  proof (induction failing arbitrary: s)
    case Nil
    then have "tryCreate L p env s = Ret (Inr True, emit (ApiCreate c p) s)"
      using assms(1,5) by (auto simp: tryCreate_def)
    then show ?case by (simp add: poll_cons [OF assms(2)] emit_def)
  next
    case (Cons e es)
    then have "tryCreate L p e s = Ret (Inr False, emit (ApiCreate c p) s)"
      using assms(1) by (fastforce simp: tryCreate_def)
    moreover have "pool L (emit (ApiCreate c p) s) (pod_NodeName p) = Some c" using Cons.prems(1) by simp
    note Cons.IH [OF this Cons.prems(2)]
    ultimately show ?case by (simp add: poll_cons [OF assms(2)] emit_def)
  qed
  then show ?thesis by (simp add: ExposeManagedPod_def)
qed

theorem expose_until_exists_witness:
  "\<exists>s'. ExposeManagedPod go_poll sample_libs ([(env_at 1 [])\<lparr>ke_Create := (\<lambda>c p. Some (OtherErr ''busy''))\<rparr>] @ env_at 2 [] # [])
     inmem_pod srv0 = Ret s' \<and> ks_out s' = [ApiCreate 9 inmem_pod, ApiCreate 9 inmem_pod]"
proof -
  have p: "pool sample_libs srv0 (pod_NodeName inmem_pod) = Some 9" "om_ResourceVersion (pod_Meta inmem_pod) = []"
    by (simp_all add: sample_sel srv0_def inmem_pod_def) (simp_all add: sample_libs_def)
  show ?thesis
    using expose_until_exists [OF sample_maps go_poll_laws p(1),
        of "[(env_at 1 [])\<lparr>ke_Create := (\<lambda>c p. Some (OtherErr ''busy''))\<rparr>]" "env_at 2 []" "[]"] p(2)
    by (simp add: env_at_def srv0_def)
qed

section \<open>What is left alone, and what is removed\<close>

text \<open>Pods of other kubelets are left alone. If the pod of an item runs on a node that is not
  this kubelet's and whose published service address differs, synchronising the item succeeds
  without any effect; if a node object cannot be read it fails without any effect.\<close>

theorem not_responsible_untouched:
  assumes "resolvePod L env s pending = Inr (p, isInMem)" and "pod_NodeName p \<noteq> ks_nodeName s"
    and "\<And>n1 n2. ke_getNode env (ks_nodeName s) = Inr n1 \<Longrightarrow> ke_getNode env (pod_NodeName p) = Inr n2 \<Longrightarrow>
       mget (om_Annotations (node_Meta n1)) (kl_KubeletServiceAddrAnnotation L) \<noteq>
       mget (om_Annotations (node_Meta n2)) (kl_KubeletServiceAddrAnnotation L)"
  shows "\<exists>err. SyncPod L env pending s = Ret (err, s) \<and>
     (err = None \<longleftrightarrow> pod_NodeName p = [] \<or>
        (\<exists>n1 n2. ke_getNode env (ks_nodeName s) = Inr n1 \<and> ke_getNode env (pod_NodeName p) = Inr n2))"
  using assms by (auto simp: SyncPod_def isResponsibleFor_def Let_def split: sum.splits)

definition node_env :: "string smap \<Rightarrow> kenv" where
  "node_env a = (env_at 5 [api_pod])\<lparr>ke_getNode := (\<lambda>n. case a n of None \<Rightarrow> Inl (NotFound n) | Some v \<Rightarrow>
     Inr \<lparr> node_Meta = (pod_Meta api_pod)\<lparr>om_Name := n, om_Annotations := (if v = [] then Map.empty else [''addr'' \<mapsto> v])\<rparr>, node_Addresses = [] \<rparr>)\<rparr>"

theorem not_responsible_untouched_witness:
  "SyncPod sample_libs (node_env [''n1'' \<mapsto> ''a1'', ''n2'' \<mapsto> ''a2'']) item (srv0\<lparr>ks_nodeName := ''n2''\<rparr>)
     = Ret (None, srv0\<lparr>ks_nodeName := ''n2''\<rparr>)"
proof -
  let ?e = "node_env [''n1'' \<mapsto> ''a1'', ''n2'' \<mapsto> ''a2'']" and ?s = "srv0\<lparr>ks_nodeName := ''n2''\<rparr>"
  have r: "resolvePod sample_libs ?e ?s item = Inr (api_pod, False)"
    by (simp add: resolvePod_def node_env_def env_at_def item_def api_pod_def)
  have n: "pod_NodeName api_pod = ''n1''" "ks_nodeName ?s = ''n2''" "kl_KubeletServiceAddrAnnotation sample_libs = ''addr''"
    by (simp_all add: api_pod_def srv0_def sample_libs_def)
  have diff: "mget (om_Annotations (node_Meta n1)) (kl_KubeletServiceAddrAnnotation sample_libs) \<noteq>
      mget (om_Annotations (node_Meta n2)) (kl_KubeletServiceAddrAnnotation sample_libs)"
    if "ke_getNode ?e (ks_nodeName ?s) = Inr n1" "ke_getNode ?e (pod_NodeName api_pod) = Inr n2" for n1 n2
    using that unfolding n by (auto simp: node_env_def)
  moreover have "\<exists>n1 n2. ke_getNode ?e (ks_nodeName ?s) = Inr n1 \<and> ke_getNode ?e (pod_NodeName api_pod) = Inr n2"
    unfolding n by (simp add: node_env_def)
  moreover have "pod_NodeName api_pod \<noteq> ks_nodeName ?s" unfolding n by simp
  ultimately show ?thesis using not_responsible_untouched [OF r _ diff] by blast
qed

text \<open>A kubelet whose node carries no published address takes pods of foreign nodes. The
  responsibility check compares two annotations and a missing one reads as the empty string,
  so two nodes without the annotation count as the same kubelet.\<close>

theorem unpublished_nodes_alias:
  "isResponsibleFor sample_libs (node_env [''n1'' \<mapsto> [], ''n2'' \<mapsto> []]) (srv0\<lparr>ks_nodeName := ''n2''\<rparr>) api_pod = Inr True \<and>
   pod_NodeName api_pod \<noteq> ''n2''"
  by (simp add: isResponsibleFor_def node_env_def api_pod_def sample_libs_def)

text \<open>Deletion. A handled pod with a deletion timestamp gets exactly one forced delete; if it
  succeeds or the pod is already gone the timer of the item is dropped and the item is done,
  with any other error the item fails, so that it is retried, and the timer is kept. It is
  never reported ready.\<close>

theorem deletion_forced:
  assumes "kd_maps L" and "handles L env pending s p isInMem" and "om_DeletionTimestamp (pod_Meta p) \<noteq> None"
  shows "\<exists>err s'. SyncPod L env pending s = Ret (err, s') \<and>
     ks_out s' = ks_out s @ [ApiDelete (om_Namespace (pod_Meta p)) (om_Name (pod_Meta p))] \<and>
     (err = None \<longleftrightarrow> (\<forall>e. ke_Delete env (om_Namespace (pod_Meta p)) (om_Name (pod_Meta p)) = Some e \<longrightarrow> IsNotFound e)) \<and>
     timers L s' = (if err = None then (timers L s)(PendingPod_String pending := None) else timers L s) \<and>
     cache L s' = cache L s"
  using assms(1) by (auto simp: SyncPod_deleting [OF assms(2,3)] Let_def split: option.splits)

definition dying_pod :: pod where
  "dying_pod = api_pod\<lparr>pod_Meta := (pod_Meta api_pod)\<lparr>om_DeletionTimestamp := Some 3\<rparr>\<rparr>"

theorem deletion_forced_witness:
  "\<exists>s'. SyncPod sample_libs (env_at 5 [dying_pod]) item (srv_at [item_key \<mapsto> 4] []) = Ret (None, s') \<and>
     ks_out s' = [ApiDelete ''d'' ''p''] \<and> timers sample_libs s' = Map.empty"
proof -
  have "handles sample_libs (env_at 5 [dying_pod]) item (srv_at [item_key \<mapsto> 4] []) dying_pod False"
    by (simp add: handles_def resolvePod_def isResponsibleFor_def env_at_def item_def dying_pod_def api_pod_def srv_at_def srv0_def)
  from deletion_forced [OF sample_maps this]
  show ?thesis
    by (auto simp: dying_pod_def api_pod_def env_at_def sample_sel srv_at_def item_def item_key_def PendingPod_String_def fun_eq_iff)
qed

section \<open>Reported status\<close>

text \<open>The simulated status is a complete ready status. It is Running, each of the four
  standard conditions and each readiness gate of the pod has the status True and every
  condition changed at the time of the report; containers and init containers are listed in
  order with their image, ready, the former running since the report, the latter completed
  with exit code 0.\<close>

theorem simulated_status_complete:
  "let st = simulateRefPodStatus env p; now = ke_now_status env in
     st_Phase st = PodRunning \<and> st_StartTime st = Some now \<and>
     map cond_Type (st_Conditions st) = [PodReady, ContainersReady, PodScheduled, PodInitialized] @ pod_ReadinessGates p \<and>
     list_all (\<lambda>c. cond_Status c = ConditionTrue \<and> cond_LastTransitionTime c = now) (st_Conditions st) \<and>
     map (\<lambda>c. (cs_Name c, cs_Image c, cs_Started c, cs_Ready c, cs_Running c, cs_Terminated c)) (st_ContainerStatuses st) =
       map (\<lambda>c. (c_Name c, c_Image c, Some True, True, Some now, None)) (pod_Containers p) \<and>
     map (\<lambda>c. (cs_Name c, cs_Image c, cs_Ready c, cs_Running c, map_option term_ExitCode (cs_Terminated c),
                map_option term_FinishedAt (cs_Terminated c))) (st_InitContainerStatuses st) =
       map (\<lambda>c. (c_Name c, c_Image c, True, None, Some 0, Some now)) (pod_InitContainers p)"
  by (simp add: simulateRefPodStatus_def tweakRefPodStatus_def tweakRunning_def tweakTerminated_def true_condition_def
      list_all_iff Let_def comp_def ball_Un)

text \<open>A reference status comes from a ready pod of the workload pool. \<open>getRefPodStatus\<close> fails
  without a panic when the listing fails or no ready pod matches; otherwise it yields the
  status of one of the ready pods of the pool with the phase, addresses, condition types and
  condition states unchanged and every transition time set to now.\<close>

theorem reference_status_from_pool:
  assumes "\<And>n. 0 < n \<Longrightarrow> ke_Intn env n < n"
  shows "\<exists>r. getRefPodStatus L env p = Ret r \<and>
     (case r of
        Inl err \<Rightarrow> (\<forall>ps. ke_listPods env (om_Namespace (pod_Meta p)) WorkloadPoolLabel (mget (om_Labels (pod_Meta p)) ''workload'') = Inr ps
                      \<longrightarrow> (\<forall>q \<in> set ps. \<not> kl_IsPodReady L q))
      | Inr st \<Rightarrow> (\<exists>ps q. ke_listPods env (om_Namespace (pod_Meta p)) WorkloadPoolLabel (mget (om_Labels (pod_Meta p)) ''workload'') = Inr ps \<and>
           q \<in> set ps \<and> kl_IsPodReady L q \<and>
           st_Phase st = st_Phase (pod_Status q) \<and> st_PodIP st = st_PodIP (pod_Status q) \<and> st_StartTime st = Some (ke_now_status env) \<and>
           map (\<lambda>c. (cond_Type c, cond_Status c)) (st_Conditions st) =
             map (\<lambda>c. (cond_Type c, cond_Status c)) (st_Conditions (pod_Status q)) \<and>
           list_all (\<lambda>c. cond_LastTransitionTime c = ke_now_status env) (st_Conditions st)))"
proof (cases "ke_listPods env (om_Namespace (pod_Meta p)) WorkloadPoolLabel (mget (om_Labels (pod_Meta p)) ''workload'')")
  case (Inl err)
  then show ?thesis by (simp add: getRefPodStatus_def)
next
  case (Inr ps)
  let ?ready = "filter (kl_IsPodReady L) ps"
  show ?thesis
  proof (cases "?ready = []")
    case True
    with Inr show ?thesis by (auto simp: getRefPodStatus_def filter_empty_conv)
  next
    case False
    then have i: "ke_Intn env (length ?ready) < length ?ready" by (intro assms) simp
    define q where "q = ?ready ! ke_Intn env (length ?ready)"
    have "q \<in> set ps" "kl_IsPodReady L q" using nth_mem [OF i] by (auto simp: q_def)
    moreover have "getRefPodStatus L env p = Ret (Inr (tweakRefPodStatus (ke_now_status env) (pod_Status q)))"
      using Inr False i by (simp add: getRefPodStatus_def Let_def q_def)
    ultimately show ?thesis using Inr
      by (auto simp: tweakRefPodStatus_def list_all_iff comp_def)
  qed
qed

definition pool_pod :: pod where
  "pool_pod = api_pod\<lparr>pod_Status := pending_status\<lparr>st_Phase := PodRunning, st_PodIP := ''10.0.0.3'',
     st_Conditions := [true_condition PodReady]\<rparr>\<rparr>"

theorem reference_status_from_pool_witness:
  "\<exists>st. getRefPodStatus sample_libs ((env_at 8 [])\<lparr>ke_listPods := (\<lambda>_ _ _. Inr [api_pod, pool_pod])\<rparr>) api_pod = Ret (Inr st) \<and>
     st_PodIP st = ''10.0.0.3''"
proof -
  let ?e = "(env_at 8 [])\<lparr>ke_listPods := (\<lambda>_ _ _. Inr [api_pod, pool_pod])\<rparr>"
  have i: "0 < n \<Longrightarrow> ke_Intn ?e n < n" for n by (simp add: env_at_def)
  have r: "\<not> kl_IsPodReady sample_libs api_pod" "kl_IsPodReady sample_libs pool_pod" "st_PodIP (pod_Status pool_pod) = ''10.0.0.3''"
    by (simp_all add: sample_libs_def cond_true_def api_pod_def pool_pod_def pending_status_def true_condition_def)
  from reference_status_from_pool [of ?e sample_libs api_pod, OF i] r
  obtain x where "getRefPodStatus sample_libs ?e api_pod = Ret x" "\<exists>st. x = Inr st \<and> st_PodIP st = ''10.0.0.3''"
    by (cases "getRefPodStatus sample_libs ?e api_pod") (fastforce split: sum.splits)+
  then show ?thesis by auto
qed

section \<open>Workers\<close>

text \<open>A worker never loses an item. Whatever \<open>SyncPod\<close> returns, the worker goes on, marks the
  item done as its last queue call, forgets its retry history exactly when the synchronisation
  succeeded and puts it back rate-limited exactly when it failed.\<close>

theorem worker_keeps_item:
  assumes "SyncPod L env pending s = Ret (err, s')"
  shows "\<exists>s''. processNextItem L env (Some pending) s = Ret (True, s'') \<and>
     ks_out s'' = ks_out s' @ [if err = None then QForget pending else QAddRateLimited pending, QDone pending] \<and>
     timers L s'' = timers L s' \<and> cache L s'' = cache L s' \<and> pool L s'' = pool L s'"
  using assms by (cases err) (simp_all add: processNextItem_def)

theorem worker_keeps_item_witness:
  "\<exists>s''. processNextItem sample_libs (env_at 1000 [api_pod]) (Some item) (srv_at Map.empty []) = Ret (True, s'') \<and>
     ks_out s'' = [QAddAfter item 100, QForget item, QDone item]"
  using worker_keeps_item [OF sample_sync1] by (auto simp: srv_at_def)

text \<open>C16: a worker survives exactly when the node has a client. For a handled API pod whose delay
  has passed, with the merge patch encodable and a reference status at hand, \<open>SyncPod\<close> returns
  after exactly one status write if the node of the pod has a client in the pool, and dereferences nil if it has none, which
  is so until the scheduler has done a handshake for that node.\<close>

theorem missing_client_panics:
  assumes "kd_maps L" and "handles L env pending s p False" and "awaiting L p"
    and "readyTime L env pending s \<le> ke_now_until env"
    and "refStatusFor L env s p = Ret (Inr st)"
    and "ks_patch s \<Longrightarrow> \<exists>b. kl_Marshal L (om_UID (pod_Meta p)) st = Inr b"
  shows "(pool L s (pod_NodeName p) = None \<longrightarrow> SyncPod L env pending s = Panic NilDeref) \<and>
         (pool L s (pod_NodeName p) \<noteq> None \<longrightarrow>
            (\<exists>err s' e. SyncPod L env pending s = Ret (err, s') \<and> ks_out s' = ks_out s @ [e] \<and> write_key e \<noteq> None))"
proof -
  let ?s1 = "set_timer L env pending s"
  have "(pool L s (pod_NodeName p) = None \<longrightarrow> markPodReady L env p st ?s1 = Panic NilDeref) \<and>
      (pool L s (pod_NodeName p) \<noteq> None \<longrightarrow> (\<exists>r e. markPodReady L env p st ?s1 = Ret (r, emit e ?s1) \<and> write_key e \<noteq> None))"
    using assms(1,6)
    by (cases "ks_patch s") (auto simp: markPodReady_def markPodReadyByPatch_def markPodReadyByUpdate_def
        prepareMergePatchBytesForPodStatus_def Let_def)
  then show ?thesis by (auto simp: SyncPod_due [OF assms(1-5)])
qed

theorem missing_client_panics_witness:
  "SyncPod sample_libs (env_at 1100 [api_pod]) item (srv_at [item_key \<mapsto> 1100] []\<lparr>ks_clientPool := Map.empty\<rparr>) = Panic NilDeref"
proof -
  let ?s = "srv_at [item_key \<mapsto> 1100] []\<lparr>ks_clientPool := Map.empty\<rparr>"
  have h: "handles sample_libs (env_at 1100 [api_pod]) item ?s api_pod False"
    by (rule sample_handles) (simp add: srv_at_def srv0_def)
  have "readyTime sample_libs (env_at 1100 [api_pod]) item ?s \<le> ke_now_until (env_at 1100 [api_pod])"
    by (simp add: readyTime_def sample_sel srv_at_def item_def item_key_def PendingPod_String_def)
  moreover have "refStatusFor sample_libs (env_at 1100 [api_pod]) ?s api_pod =
      Ret (Inr (simulateRefPodStatus (env_at 1100 [api_pod]) api_pod))"
    by (simp add: refStatusFor_def srv_at_def srv0_def)
  moreover have "\<not> ks_patch ?s" by (simp add: srv_at_def srv0_def)
  ultimately show ?thesis
    using missing_client_panics [OF sample_maps h sample_awaiting] by (auto simp: sample_sel)
qed

text \<open>Informer events. The filter and the handler agree on which objects count. An accepted
  event drops a managed, persistent pod from the in-memory cache; an add or update queues the
  pod once, a delete clears its timer and queues nothing. Any other object changes nothing.\<close>

theorem pod_event_effect:
  assumes "kd_maps L"
  shows "(FilterFunc L obj \<longleftrightarrow> unwrapPodObj L obj \<noteq> None) \<and>
    (\<not> FilterFunc L obj \<longrightarrow> handlePodEvent L obj isDelete s = s) \<and>
    (\<forall>p. unwrapPodObj L obj = Some p \<longrightarrow>
       (kl_IsManaged L p \<longrightarrow> kl_IsPersistent L p \<longrightarrow> cache L (handlePodEvent L obj isDelete s) (om_Name (pod_Meta p)) = None) \<and>
       (\<forall>n. n \<noteq> om_Name (pod_Meta p) \<longrightarrow> cache L (handlePodEvent L obj isDelete s) n = cache L s n) \<and>
       (\<not> isDelete \<longrightarrow> ks_out (handlePodEvent L obj isDelete s) = ks_out s @ [QAdd (NewPendingPodFromAPIServer p)] \<and>
                     timers L (handlePodEvent L obj isDelete s) = timers L s) \<and>
       (isDelete \<longrightarrow> ks_out (handlePodEvent L obj isDelete s) = ks_out s \<and>
                     timers L (handlePodEvent L obj isDelete s) (PendingPod_String (NewPendingPodFromAPIServer p)) = None))"
proof -
  have f: "FilterFunc L obj \<longleftrightarrow> unwrapPodObj L obj \<noteq> None"
    by (auto simp: FilterFunc_def unwrapPodObj_def Let_def split: kobj.splits option.splits)
  then show ?thesis
    by (auto simp: handlePodEvent_timers [OF assms] handlePodEvent_cache [OF assms] handlePodEvent_out)
      (simp add: handlePodEvent_def)
qed

theorem pod_event_effect_witness:
  "ks_out (handlePodEvent sample_libs (Tombstone (ObjPod api_pod)) False inmem_srv) = [QAdd item] \<and>
   cache sample_libs (handlePodEvent sample_libs (Tombstone (ObjPod api_pod)) False inmem_srv) ''p'' = None"
proof -
  have u: "unwrapPodObj sample_libs (Tombstone (ObjPod api_pod)) = Some api_pod"
    by (simp add: unwrapPodObj_def enqueueFilter_def api_pod_def PodLifecycleManagerCustom_def) (simp add: sample_libs_def)
  have "kl_IsManaged sample_libs api_pod" "kl_IsPersistent sample_libs api_pod" "om_Name (pod_Meta api_pod) = ''p''"
    "NewPendingPodFromAPIServer api_pod = item" "ks_out inmem_srv = []"
    by (simp_all add: sample_libs_def api_pod_def NewPendingPodFromAPIServer_def item_def inmem_srv_def srv0_def)
  with pod_event_effect [OF sample_maps, of "Tombstone (ObjPod api_pod)" False inmem_srv] u show ?thesis by auto
qed

end
