(* ===== verification/Kubelet_Start.thy ===== *)
theory Kubelet_Start
  imports Kubelet_Props
begin

text \<open>
  The start of the custom kubelet (\<open>src/cmd/kubelet/main.go\<close>, \<open>ListenAndServe\<close> of \<open>kubelet.go\<close>): from the flags to
  the running workers. Before a worker runs, the address of the RPC service is published as an
  annotation of the node, which is how schedulers find the kubelet.
\<close>

section \<open>Publishing the service address\<close>

definition with_service_addr :: "('t, 'i, 'c, 'h) kd_libs \<Rightarrow> node \<Rightarrow> node" where
  "with_service_addr L n =
     n\<lparr>node_Meta := (node_Meta n)\<lparr>om_Annotations := (om_Annotations (node_Meta n))
         (kl_KubeletServiceAddrAnnotation L \<mapsto> internalIP (node_Addresses n) @ CustomKubeletServicePort)\<rparr>\<rparr>"

text \<open>An attempt on the node \<open>n\<close>: it has an internal address, and the update carries the annotation.\<close>

definition attempt :: "('t, 'i, 'c, 'h) kd_libs \<Rightarrow> string \<Rightarrow> kenv \<Rightarrow> node \<Rightarrow> bool" where
  "attempt L name env m \<longleftrightarrow>
     (\<exists>n. ke_getNode env name = Inr n \<and> internalIP (node_Addresses n) \<noteq> [] \<and> m = with_service_addr L n)"

lemma publish_Ret:
  assumes "publishServiceAddr L env s = Ret (Inr done, s')"
  shows "\<exists>m. attempt L (ks_nodeName s) env m \<and> s' = emit (ApiUpdateNode m) s \<and> (done \<longleftrightarrow> ke_UpdateNode env m = None)"
  using assms
  by (auto simp: publishServiceAddr_def attempt_def with_service_addr_def Let_def split: sum.split_asm if_split_asm option.split_asm)

lemma poll_publish:
  assumes "poll_laws P" and "P (publishServiceAddr L) envs s = Ret (None, s')"
  shows "\<exists>tries m env. s' = s\<lparr>ks_out := ks_out s @ map ApiUpdateNode (tries @ [m])\<rparr> \<and>
     (\<forall>t \<in> set tries. \<exists>env \<in> set envs. attempt L (ks_nodeName s) env t \<and> ke_UpdateNode env t \<noteq> None) \<and>
     env \<in> set envs \<and> attempt L (ks_nodeName s) env m \<and> ke_UpdateNode env m = None"
  using assms(2)
proof (induction envs arbitrary: s)
  case Nil
  with poll_nil [OF assms(1), of "publishServiceAddr L" s] show ?case by auto
next
  case (Cons e es)
  from Cons.prems obtain r s1 where p: "publishServiceAddr L e s = Ret (r, s1)"
    and rest: "(case r of Inl err \<Rightarrow> Ret (Some err, s1) | Inr done \<Rightarrow> if done then Ret (None, s1) else P (publishServiceAddr L) es s1) = Ret (None, s')"
    by (auto simp: poll_cons [OF assms(1)])
  then obtain d where r: "r = Inr d" by (cases r) auto
  from publish_Ret [OF p [unfolded r]] obtain m where m: "attempt L (ks_nodeName s) e m" "s1 = emit (ApiUpdateNode m) s"
    "d \<longleftrightarrow> ke_UpdateNode e m = None" by blast
  show ?case
  proof (cases d)
    case True
    then show ?thesis using m rest r by (intro exI [of _ "[]"] exI [of _ m] exI [of _ e]) (simp add: emit_def)
  next
    case False
    with rest r have "P (publishServiceAddr L) es s1 = Ret (None, s')" by simp
    from Cons.IH [OF this] obtain tries n env where "s' = s1\<lparr>ks_out := ks_out s1 @ map ApiUpdateNode (tries @ [n])\<rparr>"
      "\<forall>t \<in> set tries. \<exists>env \<in> set es. attempt L (ks_nodeName s) env t \<and> ke_UpdateNode env t \<noteq> None"
      "env \<in> set es" "attempt L (ks_nodeName s) env n" "ke_UpdateNode env n = None"
      by (auto simp: m(2) emit_def)
    with m False show ?thesis by (intro exI [of _ "m # tries"] exI [of _ n] exI [of _ env]) (auto simp: emit_def)
  qed
qed

lemma emit_n_eq: "emit_n n e s = s\<lparr>ks_out := ks_out s @ replicate n e\<rparr>"
  by (induction n arbitrary: s) (simp_all add: emit_def replicate_app_Cons_same)

lemma kubelet_server_Ret:
  assumes "kubelet_server L podErr nodeErr hostname kubeClient f = Ret s"
  shows "ks_out s = [] \<and> ks_readyDelay s = int64 (kf_readyAfter f * Millisecond) \<and> ks_simulate s = kf_simulate f \<and>
     ks_patch s = kf_patch f \<and> (if kf_node f = [] then hostname = Inr (ks_nodeName s) else ks_nodeName s = kf_node f)"
  using assms
  by (auto simp: kubelet_server_def NewKubedirectServer_def WithReadyDelay_def Simulate_def UsePatch_def Let_def
      split: if_split_asm sum.split_asm option.split_asm)

section \<open>Properties\<close>

text \<open>C14: the kubelet works only under a published address. If \<open>main\<close> of the kubelet ends normally, its
  informers were synchronised, and its calls were, in this order: attempts to annotate its own
  node (named by the flag or by the host) with the node's internal address and the service port,
  of which exactly the last succeeded; then the start of 64 workers; at the end the shutdown of the
  queue. The delay and the two modes are those of the flags.\<close>

theorem kubelet_serves_published:
  assumes "poll_laws P" and "kubelet_main P L podErr nodeErr hostname cfg new f envs unsynced served = Ret s"
  shows "unsynced = [] \<and> served = None \<and>
     (\<exists>tries m env. ks_out s = map ApiUpdateNode tries @ [ApiUpdateNode m] @ replicate 64 GoWorkerLoop @ [QShutDown] \<and>
        (\<forall>t \<in> set tries. \<exists>env \<in> set envs. attempt L (ks_nodeName s) env t \<and> ke_UpdateNode env t \<noteq> None) \<and>
        env \<in> set envs \<and> attempt L (ks_nodeName s) env m \<and> ke_UpdateNode env m = None) \<and>
     (if kf_node f = [] then hostname = Inr (ks_nodeName s) else ks_nodeName s = kf_node f) \<and>
     ks_readyDelay s = int64 (kf_readyAfter f * Millisecond) \<and> ks_simulate s = kf_simulate f \<and> ks_patch s = kf_patch f"
proof -
  from assms(2) obtain s0 where s0: "kubelet_server L podErr nodeErr hostname (NewClientsetOrDie cfg new) f = Ret s0"
    and l: "ListenAndServe P L envs unsynced served s0 = Ret (None, s)"
    by (auto simp: kubelet_main_def split: option.split_asm)
  note k = kubelet_server_Ret [OF s0]
  from l obtain s1 where u: "unsynced = []" "served = None" and p: "P (publishServiceAddr L) envs s0 = Ret (None, s1)"
    and s: "s = emit QShutDown (emit_n nWorkers GoWorkerLoop s1)"
    by (auto simp: ListenAndServe_def split: list.split_asm option.split_asm)
  from poll_publish [OF assms(1) p] obtain tries m env where
    t: "s1 = s0\<lparr>ks_out := ks_out s0 @ map ApiUpdateNode (tries @ [m])\<rparr>"
    "\<forall>t \<in> set tries. \<exists>env \<in> set envs. attempt L (ks_nodeName s0) env t \<and> ke_UpdateNode env t \<noteq> None"
    "env \<in> set envs" "attempt L (ks_nodeName s0) env m" "ke_UpdateNode env m = None" by blast
  have eq: "s = s0\<lparr>ks_out := map ApiUpdateNode tries @ [ApiUpdateNode m] @ replicate 64 GoWorkerLoop @ [QShutDown]\<rparr>"
    using k by (simp add: s t(1) emit_n_eq emit_def nWorkers_def)
  show ?thesis using u t(2-5) k unfolding eq by (intro conjI) auto
qed

text \<open>A node whose first update fails.\<close>

definition start_node :: node where
  "start_node = \<lparr> node_Meta = \<lparr> om_Namespace = [], om_Name = ''n1'', om_UID = ''u'', om_ResourceVersion = ''1'', om_Labels = Map.empty,
       om_Annotations = Map.empty, om_DeletionTimestamp = None \<rparr>,
     node_Addresses = [\<lparr> addr_Type = NodeInternalIP, addr_Address = ''10.0.0.1'' \<rparr>] \<rparr>"

definition start_env :: "apierr option \<Rightarrow> kenv" where
  "start_env r = (env_at 1 [])\<lparr>ke_getNode := (\<lambda>_. Inr start_node), ke_UpdateNode := (\<lambda>_. r)\<rparr>"

theorem kubelet_serves_published_witness:
  "\<exists>s. kubelet_main go_poll sample_libs None None (Inr ''n1'') (Ret \<lparr> rc_Host = [], rc_QPS = 0, rc_Burst = 0 \<rparr>) (\<lambda>_. Inr 3)
       default_kubelet_flags [start_env (Some (OtherErr ''conflict'')), start_env None] [] None = Ret s \<and>
     ks_readyDelay s = 100000000 \<and> ks_patch s \<and> \<not> ks_simulate s"
proof -
  have "\<exists>s. kubelet_main go_poll sample_libs None None (Inr ''n1'') (Ret \<lparr> rc_Host = [], rc_QPS = 0, rc_Burst = 0 \<rparr>) (\<lambda>_. Inr 3)
       default_kubelet_flags [start_env (Some (OtherErr ''conflict'')), start_env None] [] None = Ret s"
    by (simp add: kubelet_main_def kubelet_server_def NewClientsetOrDie_def default_kubelet_flags_def NewKubedirectServer_def
        ListenAndServe_def publishServiceAddr_def start_env_def start_node_def)
  then obtain s where s: "kubelet_main go_poll sample_libs None None (Inr ''n1'') (Ret \<lparr> rc_Host = [], rc_QPS = 0, rc_Burst = 0 \<rparr>) (\<lambda>_. Inr 3)
       default_kubelet_flags [start_env (Some (OtherErr ''conflict'')), start_env None] [] None = Ret s" by blast
  from kubelet_serves_published [OF go_poll_laws s] s show ?thesis
    by (simp add: default_kubelet_flags_def Millisecond_def int64_id)
qed

end
