(* ===== verification/Workload.thy ===== *)
theory Workload
  imports Extern
begin

text \<open>
  \<open>src/pkg/workload\<close>: the request and response types and their one-line summary
  (\<open>types.go\<close>), the keys and label filters that tie deployments, pods and services together
  (\<open>selection.go\<close>), and the translation of a trace into absolute arrival times
  (\<open>conversion.go\<close>). The trace parser and the invocation generator of the Dirigent loader
  are parameters of \<open>LoadDirigentTraceFromConfig\<close>.
\<close>

section \<open>Requests and responses\<close>

datatype ResponseStatus =
  SUCCESS | FAIL_DISPATCH | FAIL_TIMEOUT | FAIL_CONNECT | FAIL_SEND | FAIL_RECV | INVALID_TARGET

fun ResponseStatus_String :: "ResponseStatus \<Rightarrow> string" where
  "ResponseStatus_String SUCCESS = ''SUCCESS''"
| "ResponseStatus_String FAIL_DISPATCH = ''FAIL_DISPATCH''"
| "ResponseStatus_String FAIL_TIMEOUT = ''FAIL_TIMEOUT''"
| "ResponseStatus_String FAIL_CONNECT = ''FAIL_CONNECT''"
| "ResponseStatus_String FAIL_SEND = ''FAIL_SEND''"
| "ResponseStatus_String FAIL_RECV = ''FAIL_RECV''"
| "ResponseStatus_String INVALID_TARGET = ''INVALID_TARGET''"

record Request =
  rq_ID :: string
  rq_Target :: string
  rq_DurationMilliSec :: int
  rq_ClientSendTS :: time
  rq_GatewayRecvTS :: time
  rq_GatewaySendTS :: time
  rq_ClientRelTime :: duration
  rq_TraceRelTime :: duration

text \<open>A response points to its request; the program never writes a request after the response
  that carries it has been sent on, so the model stores the request by value.\<close>

record Response =
  rs_Source :: Request
  rs_Status :: ResponseStatus
  rs_GatewayRecvTS :: time
  rs_ClientRecvTS :: time
  rs_RuntimeMicroSec :: int

definition new_Response :: "Request \<Rightarrow> ResponseStatus \<Rightarrow> Response" where
  "new_Response req st =
     \<lparr> rs_Source = req, rs_Status = st, rs_GatewayRecvTS = 0, rs_ClientRecvTS = 0, rs_RuntimeMicroSec = 0 \<rparr>"

text \<open>Two requests are the same invocation when the fields the client fixes agree; the gateway
  only fills in its own two time stamps.\<close>

definition same_invocation :: "Request \<Rightarrow> Request \<Rightarrow> bool" where
  "same_invocation a b \<longleftrightarrow>
     rq_ID a = rq_ID b \<and> rq_Target a = rq_Target b \<and>
     rq_DurationMilliSec a = rq_DurationMilliSec b \<and> rq_ClientSendTS a = rq_ClientSendTS b \<and>
     rq_ClientRelTime a = rq_ClientRelTime b \<and> rq_TraceRelTime a = rq_TraceRelTime b"

lemma same_invocation_refl [simp]: "same_invocation a a"
  by (simp add: same_invocation_def)

lemma same_invocation_stamp [simp]:
  "same_invocation (a\<lparr>rq_GatewayRecvTS := t\<rparr>) b \<longleftrightarrow> same_invocation a b"
  "same_invocation (a\<lparr>rq_GatewaySendTS := t\<rparr>) b \<longleftrightarrow> same_invocation a b"
  by (simp_all add: same_invocation_def)

lemma same_invocation_trans: "same_invocation a b \<Longrightarrow> same_invocation b c \<Longrightarrow> same_invocation a c"
  by (simp add: same_invocation_def)

definition latency :: "Response \<Rightarrow> time \<Rightarrow> string" where
  "latency r t =
     (let base = rq_ClientSendTS (rs_Source r);
          ms = f_div (f_of_int (d_Nanoseconds (t_Sub t base))) (Fin 1000000)
      in if f_lt ms (Fin 0) then ''N/A'' else ''+'' @ fmt_f3 ms @ ''ms'')"

definition Summary :: "Response \<Rightarrow> string" where
  "Summary r =
     (let src = rs_Source r;
          traceTS = fmt_f3 (d_Seconds (rq_TraceRelTime src)) @ ''s'';
          CSendReq = fmt_f3 (d_Seconds (rq_ClientRelTime src)) @ ''s'';
          GrecvReq = latency r (rq_GatewayRecvTS src);
          GsendReq = latency r (rq_GatewaySendTS src);
          GrecvRes = latency r (rs_GatewayRecvTS r);
          CRecvRes = latency r (rs_ClientRecvTS r);
          delay = latency r (t_Add (rs_GatewayRecvTS r) (int64 (int64 (- rs_RuntimeMicroSec r) * Microsecond)))
      in ''ID: '' @ rq_ID src @ '', Func: '' @ rq_Target src @
         '', Status: '' @ ResponseStatus_String (rs_Status r) @ '', TS: '' @ traceTS @
         '', CSendReq: '' @ CSendReq @ '', GRecvReq: '' @ GrecvReq @ '', GSendReq: '' @ GsendReq @
         '', GRecvRes: '' @ GrecvRes @ '', CRecvRes: '' @ CRecvRes @ '', Delay: '' @ delay @
         '', Runtime: '' @ fmt_f3 (f_div (f_of_int (rs_RuntimeMicroSec r)) (Fin 1000)) @ ''/'' @
         itoa (rq_DurationMilliSec src) @ ''ms'' @ [CHR 10])"

record InvocationSpec =
  ArrivalTimeSec :: f64
  RuntimeMilliSec :: int

record TraceSpec =
  DurationMinutes :: int
  Invocations :: "InvocationSpec list"

definition TraceSpec_String :: "TraceSpec \<Rightarrow> string" where
  "TraceSpec_String t =
     ''Duration: '' @ itoa (DurationMinutes t) @ ''m, Invocations: '' @ itoa (int (length (Invocations t)))"

section \<open>Keys and label filters\<close>

definition KeyFromObject :: "objmeta \<Rightarrow> string" where
  "KeyFromObject obj = om_Namespace obj @ ''/'' @ mget (om_Labels obj) ''app''"

text \<open>A namespaced name is the pair of namespace and name; \<open>parts[1]\<close> panics when the key has
  no separator.\<close>

definition NamespacedNameFromKey :: "string \<Rightarrow> (string \<times> string) go" where
  "NamespacedNameFromKey key =
     (let parts = Split key (CHR ''/'')
      in go_bind (go_index parts 0) (\<lambda>ns. go_bind (go_index parts 1) (\<lambda>nm. Ret (ns, nm))))"

text \<open>\<open>types.NamespacedName.String\<close>, the inverse the gateway uses.\<close>

definition NamespacedName_String :: "string \<times> string \<Rightarrow> string" where
  "NamespacedName_String p = fst p @ ''/'' @ snd p"

definition IsWorkload :: "objmeta \<Rightarrow> bool" where
  "IsWorkload obj \<longleftrightarrow> mget (om_Labels obj) ''app'' \<noteq> [] \<and> mget (om_Labels obj) ''workload'' \<noteq> []"

definition IsTraceWorkload :: "objmeta \<Rightarrow> bool" where
  "IsTraceWorkload obj \<longleftrightarrow> IsWorkload obj \<and> mget (om_Labels obj) ''workload'' = ''trace''"

text \<open>List options are conjunctions of label requirements: a label exists, or has a value.\<close>

datatype requirement = Exists string | Equals string string

fun req_matches :: "string smap \<Rightarrow> requirement \<Rightarrow> bool" where
  "req_matches ls (Exists k) = (ls k \<noteq> None)"
| "req_matches ls (Equals k v) = (ls k = Some v)"

definition selector_matches :: "requirement list \<Rightarrow> string smap \<Rightarrow> bool" where
  "selector_matches rs ls = list_all (req_matches ls) rs"

definition CtrlListOptions :: "requirement list" where
  "CtrlListOptions = [Exists ''workload'', Exists ''app'']"

definition CtrlListOptionsForTrace :: "requirement list" where
  "CtrlListOptionsForTrace = [Exists ''workload'', Exists ''app'', Equals ''workload'' ''trace'']"

text \<open>The two package variables that \<open>init\<close> sets, before (zero values) and after.\<close>

record list_options =
  MetaV1ListOptions :: "requirement list"
  MetaV1ListOptionsForTrace :: "requirement list"

definition selection_vars0 :: list_options where
  "selection_vars0 = \<lparr> MetaV1ListOptions = [], MetaV1ListOptionsForTrace = [] \<rparr>"

definition selection_init :: "list_options \<Rightarrow> list_options" where
  "selection_init v0 =
     (let requireWorkload = Exists ''workload'';
          requireApp = Exists ''app'';
          v1 = v0\<lparr>MetaV1ListOptionsForTrace := [requireWorkload, requireApp]\<rparr>;
          requireTraceWorkload = Equals ''workload'' ''trace'';
          v2 = v1\<lparr>MetaV1ListOptionsForTrace := [requireTraceWorkload, requireApp]\<rparr>
      in v2)"

section \<open>Trace conversion\<close>

text \<open>The fields of \<open>common.FunctionSpecification\<close> the translation reads.\<close>

record FunctionSpec =
  fs_IAT :: "f64 list"
  fs_PerMinuteCount :: "int list"
  fs_Runtime :: "int list"

text \<open>The inner loop: the requests of one minute, \<open>n\<close> of them left.\<close>

fun translate_minute ::
  "FunctionSpec \<Rightarrow> f64 \<Rightarrow> nat \<Rightarrow> f64 \<Rightarrow> nat \<Rightarrow> InvocationSpec list \<Rightarrow> (nat \<times> InvocationSpec list) go" where
  "translate_minute raw startOfThisMinute 0 elapsed reqIndex acc = Ret (reqIndex, acc)"
| "translate_minute raw startOfThisMinute (Suc n) elapsed reqIndex acc =
     go_bind (go_index (fs_IAT raw) (int reqIndex)) (\<lambda>iat.
       let elapsed' = f_add elapsed (f_div iat (Fin 1000000));
           absArrivalTime = f_add startOfThisMinute elapsed'
       in go_bind (go_index (fs_Runtime raw) (int reqIndex)) (\<lambda>runtimeMilliSec.
            translate_minute raw startOfThisMinute n elapsed' (Suc reqIndex)
              (acc @ [\<lparr> ArrivalTimeSec = absArrivalTime, RuntimeMilliSec = runtimeMilliSec \<rparr>])))"

text \<open>The outer loop over \<open>PerMinuteCount\<close>; a negative count runs the inner loop zero times.\<close>

fun translate_minutes ::
  "FunctionSpec \<Rightarrow> nat \<Rightarrow> int list \<Rightarrow> nat \<Rightarrow> InvocationSpec list \<Rightarrow> InvocationSpec list go" where
  "translate_minutes raw minute [] reqIndex acc = Ret acc"
| "translate_minutes raw minute (c # cs) reqIndex acc =
     (let startOfThisMinute = f_mul (f_of_int (int minute)) (Fin 60)
      in go_bind (translate_minute raw startOfThisMinute (nat c) (Fin 0) reqIndex acc)
           (\<lambda>(reqIndex', acc'). translate_minutes raw (Suc minute) cs reqIndex' acc'))"

definition TranslateDirigentFunction :: "FunctionSpec \<Rightarrow> TraceSpec go" where
  "TranslateDirigentFunction raw =
     go_bind (translate_minutes raw 0 (fs_PerMinuteCount raw) 0 []) (\<lambda>invs.
       if length invs \<noteq> length (fs_IAT raw) then Fatal ''Invocation count mismatch''
       else Ret \<lparr> DurationMinutes = int (length (fs_PerMinuteCount raw)), Invocations = invs \<rparr>)"

definition determineDurationToParse :: "int \<Rightarrow> int \<Rightarrow> int" where
  "determineDurationToParse runtimeDuration warmupDuration =
     (let result = (0::int);
          result = (if warmupDuration > 0 then int64 (int64 (result + 1) + warmupDuration) else result)
      in int64 (result + runtimeDuration))"

datatype IatDistribution = Exponential | Uniform | Equidistant
datatype TraceGranularity = MinuteGranularity | SecondGranularity

definition parseIATDistribution :: "string \<Rightarrow> (IatDistribution \<times> bool) go" where
  "parseIATDistribution s =
     (if s = ''exponential'' then Ret (Exponential, False)
      else if s = ''exponential_shift'' then Ret (Exponential, True)
      else if s = ''uniform'' then Ret (Uniform, False)
      else if s = ''uniform_shift'' then Ret (Uniform, True)
      else if s = ''equidistant'' then Ret (Equidistant, False)
      else Fatal ''Unsupported IAT distribution.'')"

definition parseTraceGranularity :: "string \<Rightarrow> TraceGranularity go" where
  "parseTraceGranularity s =
     (if s = ''minute'' then Ret MinuteGranularity
      else if s = ''second'' then Ret SecondGranularity
      else Fatal ''Invalid trace granularity parameter.'')"

record LoaderConfiguration =
  cfg_Platform :: string
  cfg_ExperimentDuration :: int
  cfg_WarmupDuration :: int
  cfg_TracePath :: string
  cfg_IATDistribution :: string
  cfg_Granularity :: string
  cfg_Seed :: int

text \<open>The loader library: \<open>parse\<close> stands for \<open>NewAzureParser(path, yaml, duration).Parse(platform)\<close>,
  \<open>newGen\<close> and \<open>generate\<close> for the specification generator, whose random state is threaded
  through the calls.\<close>

fun generate_all ::
  "('g \<Rightarrow> 'f \<Rightarrow> IatDistribution \<Rightarrow> bool \<Rightarrow> TraceGranularity \<Rightarrow> FunctionSpec \<times> 'g) \<Rightarrow>
   IatDistribution \<Rightarrow> bool \<Rightarrow> TraceGranularity \<Rightarrow> 'g \<Rightarrow> 'f list \<Rightarrow> FunctionSpec list go" where
  "generate_all gen d sh gr g [] = Ret []"
| "generate_all gen d sh gr g (f # fs) =
     (let (spec, g') = gen g f d sh gr
      in if length (fs_IAT spec) \<noteq> length (fs_Runtime spec)
         then Fatal ''IAT and runtime spec array length mismatch''
         else go_bind (generate_all gen d sh gr g' fs) (\<lambda>specs. Ret (spec # specs)))"

definition LoadDirigentTraceFromConfig ::
  "(string \<Rightarrow> string \<Rightarrow> int \<Rightarrow> string \<Rightarrow> 'f list) \<Rightarrow> (int \<Rightarrow> 'g) \<Rightarrow>
   ('g \<Rightarrow> 'f \<Rightarrow> IatDistribution \<Rightarrow> bool \<Rightarrow> TraceGranularity \<Rightarrow> FunctionSpec \<times> 'g) \<Rightarrow>
   LoaderConfiguration \<Rightarrow> FunctionSpec list go" where
  "LoadDirigentTraceFromConfig parse newGen gen cfg =
     (if cfg_Platform cfg \<noteq> ''Dirigent'' then Fatal ''Invalid loader platform''
      else if cfg_ExperimentDuration cfg < 1 then Fatal ''Runtime duration should be longer, at least a minute.''
      else
        let durationToParse = determineDurationToParse (cfg_ExperimentDuration cfg) (cfg_WarmupDuration cfg);
            yamlPath = [];
            functions = parse (cfg_TracePath cfg) yamlPath durationToParse (cfg_Platform cfg)
        in go_bind (parseIATDistribution (cfg_IATDistribution cfg)) (\<lambda>(iatDistribution, shiftIAT).
             go_bind (parseTraceGranularity (cfg_Granularity cfg)) (\<lambda>traceGranularity.
               if traceGranularity \<noteq> MinuteGranularity then Fatal ''Expect minute granularity for Azure traces''
               else generate_all gen iatDistribution shiftIAT traceGranularity (newGen (cfg_Seed cfg)) functions)))"

fun translate_all :: "FunctionSpec list \<Rightarrow> TraceSpec list go" where
  "translate_all [] = Ret []"
| "translate_all (f # fs) =
     go_bind (TranslateDirigentFunction f) (\<lambda>spec. go_bind (translate_all fs) (\<lambda>specs. Ret (spec # specs)))"

definition LoadTraceFromConfig ::
  "(string \<Rightarrow> string \<Rightarrow> int \<Rightarrow> string \<Rightarrow> 'f list) \<Rightarrow> (int \<Rightarrow> 'g) \<Rightarrow>
   ('g \<Rightarrow> 'f \<Rightarrow> IatDistribution \<Rightarrow> bool \<Rightarrow> TraceGranularity \<Rightarrow> FunctionSpec \<times> 'g) \<Rightarrow>
   LoaderConfiguration \<Rightarrow> TraceSpec list go" where
  "LoadTraceFromConfig parse newGen gen cfg =
     go_bind (LoadDirigentTraceFromConfig parse newGen gen cfg) translate_all"

section \<open>Lemmas: keys and filters\<close>

lemma Split_has_sep: "c \<in> set s \<Longrightarrow> 2 \<le> length (Split s c)"
proof (induction s)
  case (Cons x s)
  then show ?case by (auto split: list.splits simp: Suc_le_eq)
qed simp

lemma NamespacedNameFromKey_sep:
  assumes "CHR ''/'' \<in> set key"
  shows "\<exists>ns nm. NamespacedNameFromKey key = Ret (ns, nm)"
proof -
  have "2 \<le> length (Split key (CHR ''/''))" using assms by (rule Split_has_sep)
  then show ?thesis
    using go_index_Ret [of 0 "Split key (CHR ''/'')"] go_index_Ret [of 1 "Split key (CHR ''/'')"]
    by (simp add: NamespacedNameFromKey_def Let_def)
qed

section \<open>Lemmas: trace conversion\<close>

text \<open>The arrival times of one minute, as the inner loop accumulates them.\<close>

fun arrivals :: "f64 \<Rightarrow> f64 \<Rightarrow> f64 list \<Rightarrow> f64 list" where
  "arrivals st el [] = []"
| "arrivals st el (x # xs) =
     (let el' = f_add el (f_div x (Fin 1000000)) in f_add st el' # arrivals st el' xs)"

lemma length_arrivals [simp]: "length (arrivals st el xs) = length xs"
  by (induction xs arbitrary: el) (auto simp: Let_def)

definition mk_invs :: "f64 list \<Rightarrow> int list \<Rightarrow> InvocationSpec list" where
  "mk_invs as rs = map2 (\<lambda>a r. \<lparr> ArrivalTimeSec = a, RuntimeMilliSec = r \<rparr>) as rs"

lemma mk_invs_simps [simp]:
  "mk_invs [] rs = []"
  "mk_invs (a # as) (r # rs) = \<lparr> ArrivalTimeSec = a, RuntimeMilliSec = r \<rparr> # mk_invs as rs"
  by (simp_all add: mk_invs_def)

lemma length_mk_invs [simp]: "length as = length rs \<Longrightarrow> length (mk_invs as rs) = length rs"
  by (simp add: mk_invs_def)

lemma mk_invs_sel:
  "length as = length rs \<Longrightarrow> map RuntimeMilliSec (mk_invs as rs) = rs"
  "length as = length rs \<Longrightarrow> map ArrivalTimeSec (mk_invs as rs) = as"
  by (induction as rs rule: list_induct2) auto

lemma translate_minute_eq:
  assumes len: "length (fs_IAT raw) = length (fs_Runtime raw)"
  shows "translate_minute raw st n el ri acc =
           (if n = 0 \<or> ri + n \<le> length (fs_IAT raw)
            then Ret (ri + n, acc @ mk_invs (arrivals st el (take n (drop ri (fs_IAT raw))))
                                            (take n (drop ri (fs_Runtime raw))))
            else Panic IndexOutOfRange)"
proof (induction n arbitrary: el ri acc)
  case (Suc n)
  show ?case
  proof (cases "ri < length (fs_IAT raw)")
    case True
    then have "drop ri (fs_IAT raw) = fs_IAT raw ! ri # drop (Suc ri) (fs_IAT raw)"
      "drop ri (fs_Runtime raw) = fs_Runtime raw ! ri # drop (Suc ri) (fs_Runtime raw)"
      using len by (simp_all add: Cons_nth_drop_Suc)
    with True len show ?thesis by (auto simp: Suc.IH Let_def)
  next
    case False
    then show ?thesis by simp
  qed
qed simp

text \<open>The blocks of invocations, one per minute.\<close>

fun minute_blocks :: "FunctionSpec \<Rightarrow> nat \<Rightarrow> int list \<Rightarrow> nat \<Rightarrow> InvocationSpec list list" where
  "minute_blocks raw m [] ri = []"
| "minute_blocks raw m (c # cs) ri =
     mk_invs (arrivals (f_mul (f_of_int (int m)) (Fin 60)) (Fin 0) (take (nat c) (drop ri (fs_IAT raw))))
             (take (nat c) (drop ri (fs_Runtime raw)))
     # minute_blocks raw (Suc m) cs (ri + nat c)"

lemma translate_minutes_eq:
  assumes len: "length (fs_IAT raw) = length (fs_Runtime raw)" and "ri \<le> length (fs_IAT raw)"
  shows "translate_minutes raw m cs ri acc =
           (if ri + sum_list (map nat cs) \<le> length (fs_IAT raw)
            then Ret (acc @ concat (minute_blocks raw m cs ri)) else Panic IndexOutOfRange)"
  using assms(2)
proof (induction cs arbitrary: m ri acc)
  case (Cons c cs)
  show ?case
  proof (cases "ri + nat c \<le> length (fs_IAT raw)")
    case True
    then show ?thesis by (simp add: translate_minute_eq [OF len] Cons.IH Let_def add.assoc)
  next
    case False
    with Cons.prems have "0 < nat c" by linarith
    with False show ?thesis by (simp add: translate_minute_eq [OF len] Let_def)
  qed
qed simp

lemma length_minute_blocks [simp]: "length (minute_blocks raw m cs ri) = length cs"
  by (induction cs arbitrary: m ri) auto

lemma minute_blocks_nth:
  assumes "j < length cs"
  shows "minute_blocks raw m cs ri ! j =
     mk_invs (arrivals (f_mul (f_of_int (int (m + j))) (Fin 60)) (Fin 0)
                (take (nat (cs ! j)) (drop (ri + sum_list (map nat (take j cs))) (fs_IAT raw))))
             (take (nat (cs ! j)) (drop (ri + sum_list (map nat (take j cs))) (fs_Runtime raw)))"
  using assms
proof (induction cs arbitrary: m ri j)
  case (Cons c cs)
  then show ?case by (cases j) (simp_all add: add.assoc)
qed simp

lemma minute_blocks_runtimes:
  assumes len: "length (fs_IAT raw) = length (fs_Runtime raw)"
    and "ri + sum_list (map nat cs) \<le> length (fs_IAT raw)"
  shows "map RuntimeMilliSec (concat (minute_blocks raw m cs ri)) =
           take (sum_list (map nat cs)) (drop ri (fs_Runtime raw))"
  using assms(2)
proof (induction cs arbitrary: m ri)
  case (Cons c cs)
  then have "map RuntimeMilliSec (concat (minute_blocks raw (Suc m) cs (ri + nat c))) =
      take (sum_list (map nat cs)) (drop (nat c) (drop ri (fs_Runtime raw)))"
    by (simp add: add.assoc add.commute)
  with len show ?case by (simp add: mk_invs_sel take_add)
qed simp

lemma length_concat_blocks:
  assumes "length (fs_IAT raw) = length (fs_Runtime raw)"
    and "ri + sum_list (map nat cs) \<le> length (fs_IAT raw)"
  shows "length (concat (minute_blocks raw m cs ri)) = sum_list (map nat cs)"
proof -
  have "length (map RuntimeMilliSec (concat (minute_blocks raw m cs ri))) = sum_list (map nat cs)"
    unfolding minute_blocks_runtimes [OF assms] using assms by simp
  then show ?thesis by simp
qed

lemma Translate_eq:
  assumes "length (fs_IAT raw) = length (fs_Runtime raw)"
  shows "TranslateDirigentFunction raw =
     (let n = sum_list (map nat (fs_PerMinuteCount raw))
      in if length (fs_IAT raw) < n then Panic IndexOutOfRange
         else if n < length (fs_IAT raw) then Fatal ''Invocation count mismatch''
         else Ret \<lparr> DurationMinutes = int (length (fs_PerMinuteCount raw)),
                    Invocations = concat (minute_blocks raw 0 (fs_PerMinuteCount raw) 0) \<rparr>)"
proof -
  let ?n = "sum_list (map nat (fs_PerMinuteCount raw))"
  let ?b = "concat (minute_blocks raw 0 (fs_PerMinuteCount raw) 0)"
  have t: "translate_minutes raw 0 (fs_PerMinuteCount raw) 0 [] =
      (if ?n \<le> length (fs_IAT raw) then Ret ?b else Panic IndexOutOfRange)"
    by (simp add: translate_minutes_eq [OF assms])
  show ?thesis
  proof (cases "?n \<le> length (fs_IAT raw)")
    case True
    then have "length ?b = ?n" using length_concat_blocks [OF assms, of 0] by simp
    with True show ?thesis unfolding TranslateDirigentFunction_def t Let_def
      by (simp only: if_True go_bind.simps) (simp add: not_less)
  next
    case False
    then show ?thesis unfolding TranslateDirigentFunction_def t by simp
  qed
qed

subsection \<open>Arrival times are ordered\<close>

lemma f_div_nonneg: "f_le (Fin 0) x \<Longrightarrow> 0 < b \<Longrightarrow> f_le (Fin 0) (f_div x (Fin b))"
  by (cases x) (auto simp: f_div_def f_inf_def intro!: go_round.rnd_nonneg)

lemma f_add_nonneg: "f_le (Fin 0) x \<Longrightarrow> f_le (Fin 0) y \<Longrightarrow> f_le (Fin 0) (f_add x y)"
  by (cases x; cases y) (auto intro!: go_round.rnd_nonneg)

lemma f_add_mono_right: "f_le y z \<Longrightarrow> f_le (Fin 0) y \<Longrightarrow> f_le (f_add (Fin a) y) (f_add (Fin a) z)"
  by (cases y; cases z) (auto intro!: rnd64_mono)

lemma arrivals_ordered:
  assumes "\<forall>x \<in> set xs. f_le (Fin 0) x" and "f_le (Fin 0) el" and "representable el"
    and "representable (Fin a)"
  shows "sorted_wrt f_le (arrivals (Fin a) el xs) \<and>
         (\<forall>t \<in> set (arrivals (Fin a) el xs). f_le (f_add (Fin a) el) t \<and> f_le (Fin a) t)"
  using assms(1-3)
proof (induction xs arbitrary: el)
  case (Cons x xs)
  let ?el' = "f_add el (f_div x (Fin 1000000))"
  have x0: "f_le (Fin 0) (f_div x (Fin 1000000))" using Cons.prems by (intro f_div_nonneg) auto
  have "f_le el ?el'" using Cons.prems x0 by (intro f_add_ge) (auto dest: f_le_not_NaN)
  then have step: "f_le (f_add (Fin a) el) (f_add (Fin a) ?el')"
    using Cons.prems by (intro f_add_mono_right)
  have nn: "f_le (Fin 0) ?el'" using Cons.prems x0 by (intro f_add_nonneg) auto
  then have "f_le (Fin a) (f_add (Fin a) ?el')" using assms(4) by (intro f_add_ge) auto
  then show ?case using Cons.IH [of ?el'] Cons.prems nn step by (auto simp: Let_def intro: f_le_trans)
qed simp

lemma minute_start: "int m * 60 \<le> 2 ^ 53 \<Longrightarrow> f_mul (f_of_int (int m)) (Fin 60) = Fin (of_int (int m * 60))"
  using f_mul_ints [of "int m" 60] by (simp add: f_of_int_exact)

lemma sorted_wrt_mk_invs:
  assumes "length as = length rs" and "sorted_wrt f_le as"
  shows "sorted_wrt (\<lambda>i j. f_le (ArrivalTimeSec i) (ArrivalTimeSec j)) (mk_invs as rs)"
proof -
  have "sorted_wrt f_le (map ArrivalTimeSec (mk_invs as rs))"
    using assms by (simp add: mk_invs_sel)
  then show ?thesis by (simp add: sorted_wrt_map)
qed

lemma minute_block_ordered:
  assumes iats: "\<forall>x \<in> set (fs_IAT raw). f_le (Fin 0) x"
    and len: "length (fs_IAT raw) = length (fs_Runtime raw)"
    and m: "m < length (fs_PerMinuteCount raw)" and bound: "int m * 60 \<le> 2 ^ 53"
  shows "sorted_wrt (\<lambda>i j. f_le (ArrivalTimeSec i) (ArrivalTimeSec j))
           (minute_blocks raw 0 (fs_PerMinuteCount raw) 0 ! m)"
    and "\<forall>i \<in> set (minute_blocks raw 0 (fs_PerMinuteCount raw) 0 ! m).
           f_le (Fin (of_int (int m * 60))) (ArrivalTimeSec i)"
proof -
  define ri where "ri = sum_list (map nat (take m (fs_PerMinuteCount raw)))"
  define n where "n = nat (fs_PerMinuteCount raw ! m)"
  let ?as = "arrivals (Fin (of_int (int m * 60))) (Fin 0) (take n (drop ri (fs_IAT raw)))"
  let ?rs = "take n (drop ri (fs_Runtime raw))"
  have blk: "minute_blocks raw 0 (fs_PerMinuteCount raw) 0 ! m = mk_invs ?as ?rs"
    using minute_blocks_nth [OF m, of raw 0 0] minute_start [OF bound] by (simp add: ri_def n_def)
  have sub: "\<forall>x \<in> set (take n (drop ri (fs_IAT raw))). f_le (Fin 0) x"
    using iats by (meson in_set_dropD in_set_takeD)
  have rep: "representable (Fin 0)" "representable (Fin (of_int (int m * 60)))"
    using representable_int [of 0] representable_int [of "int m * 60"] bound by auto
  have ord: "sorted_wrt f_le ?as" and ge: "\<forall>t \<in> set ?as. f_le (Fin (of_int (int m * 60))) t"
    using arrivals_ordered [OF sub _ rep] by auto
  have ll: "length ?as = length ?rs" using len by simp
  show "sorted_wrt (\<lambda>i j. f_le (ArrivalTimeSec i) (ArrivalTimeSec j)) (minute_blocks raw 0 (fs_PerMinuteCount raw) 0 ! m)"
    unfolding blk using ll ord by (rule sorted_wrt_mk_invs)
  have "set (map ArrivalTimeSec (mk_invs ?as ?rs)) = set ?as" using ll by (simp add: mk_invs_sel)
  with ge show "\<forall>i \<in> set (minute_blocks raw 0 (fs_PerMinuteCount raw) 0 ! m).
      f_le (Fin (of_int (int m * 60))) (ArrivalTimeSec i)"
    unfolding blk by (metis (no_types, lifting) image_eqI set_map)
qed

section \<open>Properties\<close>

text \<open>C21: keys round-trip. The namespaced name read back from the key of an object is the
  object's namespace and "app" label, and printing it gives the key again, for every object whose
  namespace and label contain no slash (as Kubernetes requires of both).\<close>

theorem key_roundtrip:
  assumes "CHR ''/'' \<notin> set (om_Namespace obj)" and "CHR ''/'' \<notin> set (mget (om_Labels obj) ''app'')"
  shows "NamespacedNameFromKey (KeyFromObject obj) = Ret (om_Namespace obj, mget (om_Labels obj) ''app'') \<and>
         NamespacedName_String (om_Namespace obj, mget (om_Labels obj) ''app'') = KeyFromObject obj"
proof -
  have "Split (KeyFromObject obj) (CHR ''/'') = [om_Namespace obj, mget (om_Labels obj) ''app'']"
    using assms by (simp add: KeyFromObject_def Split_sep Split_no_sep)
  then show ?thesis
    by (simp add: NamespacedNameFromKey_def go_index_def NamespacedName_String_def KeyFromObject_def)
qed

definition sample_meta :: objmeta where
  "sample_meta =
     \<lparr> om_Namespace = ''default'', om_Name = ''f-7d'', om_UID = ''u1'', om_ResourceVersion = ''3'',
       om_Labels = [''app'' \<mapsto> ''f'', ''workload'' \<mapsto> ''trace''], om_Annotations = Map.empty,
       om_DeletionTimestamp = None \<rparr>"

theorem key_roundtrip_witness:
  "CHR ''/'' \<notin> set (om_Namespace sample_meta) \<and>
   NamespacedNameFromKey (KeyFromObject sample_meta) = Ret (''default'', ''f'')"
  using key_roundtrip [of sample_meta] by (simp add: sample_meta_def)

text \<open>C19: the outcome of translating a trace is decided by the counts. With as many runtimes as
  inter-arrival times (which the loader checks), translation indexes out of range when the
  per-minute counts exceed them, exits when they fall short, and otherwise yields one
  invocation per inter-arrival time, with the runtimes in order and one minute per count.\<close>

theorem translate_outcome:
  assumes "length (fs_IAT raw) = length (fs_Runtime raw)"
    and "nreqs = sum_list (map nat (fs_PerMinuteCount raw))"
  shows "(TranslateDirigentFunction raw = Panic IndexOutOfRange \<longleftrightarrow> length (fs_IAT raw) < nreqs) \<and>
         ((\<exists>m. TranslateDirigentFunction raw = Fatal m) \<longleftrightarrow> nreqs < length (fs_IAT raw)) \<and>
         (nreqs = length (fs_IAT raw) \<longrightarrow>
           (\<exists>spec. TranslateDirigentFunction raw = Ret spec \<and>
              length (Invocations spec) = length (fs_IAT raw) \<and>
              map RuntimeMilliSec (Invocations spec) = fs_Runtime raw \<and>
              DurationMinutes spec = int (length (fs_PerMinuteCount raw))))"
proof (cases "nreqs \<le> length (fs_IAT raw)")
  case True
  note le = True [unfolded assms(2)]
  have "length (concat (minute_blocks raw 0 (fs_PerMinuteCount raw) 0)) = nreqs"
    using length_concat_blocks [OF assms(1), of 0 "fs_PerMinuteCount raw" 0] le assms(2) by simp
  moreover have "map RuntimeMilliSec (concat (minute_blocks raw 0 (fs_PerMinuteCount raw) 0)) =
      take nreqs (fs_Runtime raw)"
    using minute_blocks_runtimes [OF assms(1), of 0 "fs_PerMinuteCount raw" 0] le assms(2) by simp
  ultimately show ?thesis
    using True assms(1) by (simp add: Translate_eq Let_def flip: assms(2))
next
  case False
  then show ?thesis using assms(1) by (simp add: Translate_eq Let_def flip: assms(2))
qed

definition sample_spec :: FunctionSpec where
  "sample_spec =
     \<lparr> fs_IAT = [Fin 0, Fin 1000000, Fin 2000000], fs_PerMinuteCount = [2, 1], fs_Runtime = [10, 20, 30] \<rparr>"

theorem translate_outcome_witness:
  "\<exists>spec. TranslateDirigentFunction sample_spec = Ret spec \<and> map RuntimeMilliSec (Invocations spec) = [10, 20, 30]"
  using translate_outcome [of sample_spec 3] by (auto simp: sample_spec_def)

text \<open>C18: arrival times are ordered. When no inter-arrival time is negative, a translated trace
  splits into one block per minute whose arrival times never decrease and never precede the
  start of that minute, with floating-point rounding taken into account.\<close>

theorem translate_arrivals_ordered:
  assumes "\<forall>x \<in> set (fs_IAT raw). f_le (Fin 0) x"
    and "length (fs_IAT raw) = length (fs_Runtime raw)"
    and "TranslateDirigentFunction raw = Ret spec"
    and "int (length (fs_PerMinuteCount raw)) * 60 \<le> 2 ^ 53"
  shows "\<exists>blocks. Invocations spec = concat blocks \<and> length blocks = length (fs_PerMinuteCount raw) \<and>
     (\<forall>m < length blocks.
        sorted_wrt (\<lambda>i j. f_le (ArrivalTimeSec i) (ArrivalTimeSec j)) (blocks ! m) \<and>
        (\<forall>i \<in> set (blocks ! m). f_le (Fin (of_int (int m * 60))) (ArrivalTimeSec i)))"
proof -
  let ?b = "minute_blocks raw 0 (fs_PerMinuteCount raw) 0"
  have "Invocations spec = concat ?b"
    using assms(3) by (auto simp: Translate_eq [OF assms(2)] Let_def split: if_splits)
  moreover have "sorted_wrt (\<lambda>i j. f_le (ArrivalTimeSec i) (ArrivalTimeSec j)) (?b ! m) \<and>
      (\<forall>i \<in> set (?b ! m). f_le (Fin (of_int (int m * 60))) (ArrivalTimeSec i))" if "m < length ?b" for m
    using that assms(4) minute_block_ordered [OF assms(1,2), of m] by simp
  ultimately show ?thesis by (metis length_minute_blocks)
qed

theorem translate_arrivals_ordered_witness:
  "\<exists>spec blocks. TranslateDirigentFunction sample_spec = Ret spec \<and> Invocations spec = concat blocks \<and> length blocks = 2"
proof -
  obtain spec where s: "TranslateDirigentFunction sample_spec = Ret spec"
    by (simp add: Translate_eq sample_spec_def)
  then show ?thesis
    using translate_arrivals_ordered [of sample_spec spec] by (auto simp: sample_spec_def)
qed

end
