(* ===== verification/Service.thy ===== *)
theory Service
  imports Workload
begin

text \<open>
  The contract of everything that serves requests: an abstract service to which requests are
  submitted, by identifier, and which answers each of them at most once. The dispatcher and the
  gateway promise it to their clients; the locale \<open>refines_service\<close> states what a step relation has
  to show for it, and what its clients get.
\<close>

record service =
  sv_submitted :: "string multiset"
  sv_answered :: "string multiset"

definition sv_init :: "service \<Rightarrow> bool" where
  "sv_init a \<longleftrightarrow> a = \<lparr> sv_submitted = {#}, sv_answered = {#} \<rparr>"

text \<open>Only a submitted request that has no answer yet can be answered.\<close>

inductive sv_step :: "service \<Rightarrow> service \<Rightarrow> bool" where
  submit: "sv_step a (a\<lparr>sv_submitted := add_mset i (sv_submitted a)\<rparr>)"
| answer: "i \<in># sv_submitted a - sv_answered a \<Longrightarrow> sv_step a (a\<lparr>sv_answered := add_mset i (sv_answered a)\<rparr>)"

inductive_cases sv_stepE: "sv_step a b"

interpretation service_system: inductive_invariant sv_init sv_step "\<lambda>a. sv_answered a \<subseteq># sv_submitted a"
proof
  fix a b
  assume le: "sv_answered a \<subseteq># sv_submitted a" and "sv_step a b"
  from this(2) show "sv_answered b \<subseteq># sv_submitted b"
  proof cases
    case (submit i)
    with le show ?thesis by (simp add: subset_mset.order_trans [OF le])
  next
    case (answer i)
    then have "count (sv_answered a) i < count (sv_submitted a) i" by (simp add: in_diff_count)
    moreover have "count (sv_answered a) j \<le> count (sv_submitted a) j" for j using le by (simp add: mset_subset_eq_count)
    ultimately show ?thesis using answer(1) by (intro mset_subset_eqI) auto
  qed
qed (simp add: sv_init_def)

locale refines_service = inductive_invariant init step inv
  for init :: "'s \<Rightarrow> bool" and step :: "'s \<Rightarrow> 's \<Rightarrow> bool" and inv :: "'s \<Rightarrow> bool" +
  fixes abs :: "'s \<Rightarrow> service"
  assumes abs_init: "init s \<Longrightarrow> sv_init (abs s)"
    and abs_step: "inv s \<Longrightarrow> step s t \<Longrightarrow> abs t = abs s \<or> sv_step (abs s) (abs t)"
begin

lemma simulates: "reachable init step s \<Longrightarrow> reachable sv_init sv_step (abs s)"
proof (induction rule: reachable.induct)
  case (reach_init s)
  then show ?case by (intro reachable.reach_init abs_init)
next
  case (reach_step s t)
  from abs_step [OF inv_reachable [OF reach_step.hyps(1)] reach_step.hyps(2)] show ?case
    by (metis reach_step.IH reachable.reach_step)
qed

lemma answered_once: "reachable init step s \<Longrightarrow> sv_answered (abs s) \<subseteq># sv_submitted (abs s)"
  using service_system.inv_reachable [OF simulates] .

lemma step_simulated: "reachable init step s \<Longrightarrow> step s t \<Longrightarrow> abs t = abs s \<or> sv_step (abs s) (abs t)"
  using abs_step inv_reachable by blast

end

end
