(* ===== verification/Backend.thy ===== *)
theory Backend
  imports Workload
begin

text \<open>
  \<open>src/pkg/backend\<close>: the executors a dispatcher sends requests to. \<open>backend.go\<close> holds the
  framework switch and the request time-out, \<open>fake.go\<close> an executor that only waits,
  \<open>grpc.go\<close> one that calls a pod over a pool of connections. The connection pool is a
  \<open>chann\<close> (a parameter), the dialer and the remote call are inputs of an execution, and the
  clock readings of one execution are given in the order the code takes them.

  The locale \<open>executor\<close> is the Go interface \<open>Executor\<close> with the contract the dispatchers rely
  on: one response per request, for the same invocation, never with a gateway-level status.
\<close>

section \<open>backend.go\<close>

record backend_cfg =
  bc_framework :: string
  bc_timeoutFactor :: f64

definition baseTimeout :: duration where "baseTimeout = 15 * Second"

definition backend_cfg0 :: backend_cfg where
  "backend_cfg0 = \<lparr> bc_framework = [], bc_timeoutFactor = Fin 5 \<rparr>"

definition Use :: "string \<Rightarrow> backend_cfg \<Rightarrow> backend_cfg" where
  "Use f cfg = cfg\<lparr>bc_framework := f\<rparr>"

definition WithSLO :: "f64 \<Rightarrow> backend_cfg \<Rightarrow> backend_cfg" where
  "WithSLO factor cfg = cfg\<lparr>bc_timeoutFactor := factor\<rparr>"

definition Timeout :: "backend_cfg \<Rightarrow> Request \<Rightarrow> duration" where
  "Timeout cfg req =
     (let slo = int64 (f_to_int (f_mul (f_of_int (rq_DurationMilliSec req)) (bc_timeoutFactor cfg)) * Millisecond)
      in if slo > baseTimeout then slo else baseTimeout)"

section \<open>Inputs of one execution\<close>

datatype grpc_code = DeadlineExceeded | OtherCode

text \<open>\<open>ee_now1\<close>, \<open>ee_now2\<close>, \<open>ee_now3\<close>: the clock at the three points an executor reads it;
  \<open>ee_dial\<close>: what \<open>grpc.NewClient\<close> returns; \<open>ee_call\<close>: the remote \<open>Execute\<close> on a connection,
  given the runtime field of the request, answering an error code or \<open>DurationMicroSec\<close>.\<close>

record 'c exec_env =
  ee_now1 :: time
  ee_now2 :: time
  ee_now3 :: time
  ee_dial :: "apierr + 'c"
  ee_call :: "'c \<Rightarrow> int \<Rightarrow> grpc_code + int"

section \<open>fake.go\<close>

definition fake_wait :: "Request \<Rightarrow> duration" where
  "fake_wait req = int64 (rq_DurationMilliSec req * Millisecond)"

definition fake_Execute :: "'c exec_env \<Rightarrow> Request \<Rightarrow> Response" where
  "fake_Execute env req =
     (let start = ee_now1 env; req' = req\<lparr>rq_GatewaySendTS := start\<rparr>
      in \<lparr> rs_Source = req', rs_Status = SUCCESS, rs_GatewayRecvTS = ee_now2 env, rs_ClientRecvTS = 0,
           rs_RuntimeMicroSec = d_Microseconds (t_Since (ee_now3 env) start) \<rparr>)"

section \<open>grpc.go\<close>

definition grpcExecutorConcurrency :: nat where "grpcExecutorConcurrency = 50"

record 'q grpcBackend =
  gb_endpoint :: string
  gb_pool :: 'q
  gb_closed :: bool

fun send_n :: "('q, 'c) chann \<Rightarrow> nat \<Rightarrow> 'c \<Rightarrow> 'q \<Rightarrow> 'q" where
  "send_n C 0 c q = q"
| "send_n C (Suc n) c q = send_n C n c (ch_Send C q c)"

definition newClient :: "('q, 'c) chann \<Rightarrow> apierr + 'c \<Rightarrow> 'q grpcBackend \<Rightarrow> apierr option \<times> 'q grpcBackend" where
  "newClient C dial g =
     (case dial of
        Inl err \<Rightarrow> (Some err, g)
      | Inr conn \<Rightarrow> (None, g\<lparr>gb_pool := send_n C grpcExecutorConcurrency conn (gb_pool g)\<rparr>))"

definition newGrpcBackend :: "('q, 'c) chann \<Rightarrow> apierr + 'c \<Rightarrow> string \<Rightarrow> apierr + 'q grpcBackend" where
  "newGrpcBackend C dial endpoint =
     (let g = \<lparr> gb_endpoint = endpoint, gb_pool = ch_New C, gb_closed = False \<rparr>
      in case newClient C dial g of (Some err, _) \<Rightarrow> Inl err | (None, g') \<Rightarrow> Inr g')"

text \<open>The \<open>select\<close> with a \<open>default\<close>: a pooled connection if one is at hand, otherwise dial, put
  fifty copies into the pool and take one (a blocking receive).\<close>

definition getOrCreateClient ::
  "('q, 'c) chann \<Rightarrow> apierr + 'c \<Rightarrow> 'q grpcBackend \<Rightarrow> ((apierr + 'c) \<times> 'q grpcBackend) go" where
  "getOrCreateClient C dial g =
     (case ch_TryRecv C (gb_pool g) of
        Some (conn, q) \<Rightarrow> Ret (Inr conn, g\<lparr>gb_pool := q\<rparr>)
      | None \<Rightarrow>
          (case newClient C dial g of
             (Some err, g') \<Rightarrow> Ret (Inl err, g')
           | (None, g') \<Rightarrow>
               (case ch_Recv C (gb_pool g') of
                  None \<Rightarrow> Blocked
                | Some (conn, q) \<Rightarrow> Ret (Inr conn, g'\<lparr>gb_pool := q\<rparr>))))"

text \<open>What follows once a connection is at hand; the deferred send puts it back.\<close>

definition grpc_call :: "('q, 'c) chann \<Rightarrow> 'c exec_env \<Rightarrow> 'q grpcBackend \<Rightarrow> 'c \<Rightarrow> Request \<Rightarrow> Response \<times> 'q grpcBackend" where
  "grpc_call C env g conn req =
     (let putBack = g\<lparr>gb_pool := ch_Send C (gb_pool g) conn\<rparr>;
          req' = req\<lparr>rq_GatewaySendTS := ee_now1 env\<rparr>
      in (case ee_call env conn (uint32 (rq_DurationMilliSec req)) of
            Inl code \<Rightarrow>
              (new_Response req' (if code = DeadlineExceeded then FAIL_TIMEOUT else FAIL_SEND), putBack)
          | Inr durationMicroSec \<Rightarrow>
              ((new_Response req' SUCCESS)
                 \<lparr>rs_GatewayRecvTS := ee_now2 env, rs_RuntimeMicroSec := durationMicroSec\<rparr>, putBack)))"

definition grpc_Execute ::
  "('q, 'c) chann \<Rightarrow> 'c exec_env \<Rightarrow> 'q grpcBackend \<Rightarrow> Request \<Rightarrow> (Response \<times> 'q grpcBackend) go" where
  "grpc_Execute C env g req =
     go_bind (getOrCreateClient C (ee_dial env) g) (\<lambda>(r, g').
       case r of
         Inl err \<Rightarrow> Ret (new_Response req FAIL_CONNECT, g')
       | Inr conn \<Rightarrow> Ret (grpc_call C env g' conn req))"

text \<open>\<open>Close\<close> ranges over the pool and closes what it receives. Once nothing is left, the range
  statement ends only if the channel has been closed; otherwise it waits for ever. The
  channel is closed after the loop.\<close>

partial_function (option) close_drain :: "('q, 'c) chann \<Rightarrow> 'q \<Rightarrow> 'c list \<Rightarrow> ('c list \<times> 'q) option" where
  "close_drain C q acc =
     (case ch_Recv C q of
        None \<Rightarrow> Some (acc, q)
      | Some (conn, q') \<Rightarrow> close_drain C q' (acc @ [conn]))"

definition grpc_Close :: "('q, 'c) chann \<Rightarrow> 'q grpcBackend \<Rightarrow> ('c list \<times> 'q grpcBackend) go" where
  "grpc_Close C g =
     (case close_drain C (gb_pool g) [] of
        None \<Rightarrow> Blocked
      | Some (closedConns, q) \<Rightarrow>
          if gb_closed g then Ret (closedConns, g\<lparr>gb_pool := q, gb_closed := True\<rparr>) else Blocked)"

section \<open>The Executor interface\<close>

datatype 'q Executor = FakeBackend | GrpcBackend "'q grpcBackend"

definition NewBackend ::
  "('q, 'c) chann \<Rightarrow> backend_cfg \<Rightarrow> apierr + 'c \<Rightarrow> string \<Rightarrow> (apierr + 'q Executor) go" where
  "NewBackend C cfg dial endpoint =
     (if bc_framework cfg = ''fake'' then Ret (Inr FakeBackend)
      else if bc_framework cfg = ''grpc'' then
        Ret (case newGrpcBackend C dial endpoint of Inl err \<Rightarrow> Inl err | Inr g \<Rightarrow> Inr (GrpcBackend g))
      else Panic (PanicMsg (''invalid framework: '' @ bc_framework cfg)))"

fun Execute ::
  "('q, 'c) chann \<Rightarrow> 'c exec_env \<Rightarrow> 'q Executor \<Rightarrow> Request \<Rightarrow> (Response \<times> 'q Executor) go" where
  "Execute C env FakeBackend req = Ret (fake_Execute env req, FakeBackend)"
| "Execute C env (GrpcBackend g) req =
     go_bind (grpc_Execute C env g req) (\<lambda>(res, g'). Ret (res, GrpcBackend g'))"

text \<open>What a caller of the interface may rely on.\<close>

locale executor =
  fixes exec :: "'env \<Rightarrow> 'x \<Rightarrow> Request \<Rightarrow> (Response \<times> 'x) go"
  assumes exec_source: "exec env x req = Ret (res, x') \<Longrightarrow> same_invocation (rs_Source res) req"
    and exec_status: "exec env x req = Ret (res, x') \<Longrightarrow>
          rs_Status res \<in> {SUCCESS, FAIL_TIMEOUT, FAIL_CONNECT, FAIL_SEND}"
begin

lemma exec_not_gateway_status:
  assumes "exec env x req = Ret (res, x')"
  shows "rs_Status res \<noteq> FAIL_DISPATCH \<and> rs_Status res \<noteq> INVALID_TARGET"
  using exec_status [OF assms] by auto

lemma exec_id: "exec env x req = Ret (res, x') \<Longrightarrow> rq_ID (rs_Source res) = rq_ID req \<and> rq_Target (rs_Source res) = rq_Target req"
  using exec_source by (auto simp: same_invocation_def)

end

interpretation fake_exec: executor "\<lambda>env (x :: unit) req. Ret (fake_Execute env req, x)"
  by unfold_locales (auto simp: fake_Execute_def Let_def)

lemma grpc_call_fst:
  "same_invocation (rs_Source (fst (grpc_call C env g conn req))) req"
  "rs_Status (fst (grpc_call C env g conn req)) \<in> {SUCCESS, FAIL_TIMEOUT, FAIL_SEND}"
  by (auto simp: grpc_call_def new_Response_def Let_def split: sum.splits)

lemma grpc_call_pool: "snd (grpc_call C env g conn req) = g\<lparr>gb_pool := ch_Send C (gb_pool g) conn\<rparr>"
  by (auto simp: grpc_call_def Let_def split: sum.splits)

lemma grpc_Execute_cases:
  assumes "grpc_Execute C env g req = Ret (res, g')"
  obtains (connect) err where "getOrCreateClient C (ee_dial env) g = Ret (Inl err, g')"
      and "res = new_Response req FAIL_CONNECT"
    | (call) conn g1 where "getOrCreateClient C (ee_dial env) g = Ret (Inr conn, g1)"
      and "(res, g') = grpc_call C env g1 conn req"
proof -
  from assms obtain r g1 where g1: "getOrCreateClient C (ee_dial env) g = Ret (r, g1)"
    and rest: "(case r of Inl err \<Rightarrow> Ret (new_Response req FAIL_CONNECT, g1)
               | Inr conn \<Rightarrow> Ret (grpc_call C env g1 conn req)) = Ret (res, g')"
    by (auto simp: grpc_Execute_def)
  show thesis
  proof (cases r)
    case (Inl err)
    with g1 rest connect show ?thesis by simp
  next
    case (Inr conn)
    with g1 rest call show ?thesis by simp
  qed
qed

lemma grpc_Execute_Ret:
  assumes "grpc_Execute C env g req = Ret (res, g')"
  shows "same_invocation (rs_Source res) req \<and> rs_Status res \<in> {SUCCESS, FAIL_TIMEOUT, FAIL_CONNECT, FAIL_SEND}"
  using assms
proof (cases rule: grpc_Execute_cases)
  case connect
  then show ?thesis by (simp add: new_Response_def)
next
  case (call conn g1)
  then have "res = fst (grpc_call C env g1 conn req)" by (metis fst_conv)
  then show ?thesis using grpc_call_fst by fastforce
qed

interpretation grpc_exec: executor "grpc_Execute C" for C
  by unfold_locales (auto dest: grpc_Execute_Ret)

lemma Execute_Ret:
  assumes "Execute C env x req = Ret (res, x')"
  shows "same_invocation (rs_Source res) req \<and> rs_Status res \<in> {SUCCESS, FAIL_TIMEOUT, FAIL_CONNECT, FAIL_SEND}"
proof (cases x)
  case FakeBackend
  with assms show ?thesis by (auto simp: fake_Execute_def Let_def)
next
  case (GrpcBackend g)
  with assms show ?thesis by (auto dest: grpc_Execute_Ret)
qed

interpretation any_exec: executor "Execute C" for C
  by unfold_locales (auto dest: Execute_Ret)

section \<open>The connection pool\<close>

lemma items_send_n: "chann_laws C \<Longrightarrow> ch_Items C (send_n C n c q) = ch_Items C q @ replicate n c"
  by (induction n arbitrary: q) (auto simp: chann_Send replicate_append_same)

lemma newClient_items:
  "chann_laws C \<Longrightarrow> newClient C (Inr conn) g = (None, g') \<Longrightarrow>
   ch_Items C (gb_pool g') = ch_Items C (gb_pool g) @ replicate grpcExecutorConcurrency conn"
  by (auto simp: newClient_def items_send_n)

lemma getOrCreateClient_returns:
  assumes "chann_laws C"
  shows "\<exists>r g'. getOrCreateClient C dial g = Ret (r, g')"
proof (cases "ch_TryRecv C (gb_pool g)")
  case None
  show ?thesis
  proof (cases dial)
    case (Inl err)
    with None show ?thesis by (simp add: getOrCreateClient_def newClient_def)
  next
    case (Inr conn)
    let ?q = "send_n C grpcExecutorConcurrency conn (gb_pool g)"
    have "ch_Items C ?q \<noteq> []" by (simp add: items_send_n [OF assms] grpcExecutorConcurrency_def)
    then obtain c q' where "ch_Recv C ?q = Some (c, q')"
      using chann_Recv_None [OF assms, of ?q] by auto
    with None Inr show ?thesis by (simp add: getOrCreateClient_def newClient_def)
  qed
next
  case (Some p)
  then show ?thesis by (cases p) (simp add: getOrCreateClient_def)
qed

lemma getOrCreateClient_nodial:
  "ch_TryRecv C (gb_pool g) = None \<Longrightarrow> getOrCreateClient C (Inl err) g = Ret (Inl err, g)"
  by (simp add: getOrCreateClient_def newClient_def)

lemma getOrCreateClient_conn:
  assumes "chann_laws C" and "getOrCreateClient C dial g = Ret (Inr conn, g')"
  shows "mset (ch_Items C (gb_pool g')) + {#conn#} =
           (case ch_TryRecv C (gb_pool g) of
              Some _ \<Rightarrow> mset (ch_Items C (gb_pool g))
            | None \<Rightarrow> mset (ch_Items C (gb_pool g)) +
                mset (replicate grpcExecutorConcurrency (case dial of Inr c \<Rightarrow> c)))"
proof (cases "ch_TryRecv C (gb_pool g)")
  case (Some p)
  then obtain q where "ch_TryRecv C (gb_pool g) = Some (conn, q)" and "g' = g\<lparr>gb_pool := q\<rparr>"
    using assms(2) by (cases p) (auto simp: getOrCreateClient_def)
  then show ?thesis using chann_TryRecv_Some [OF assms(1), of "gb_pool g"] by simp
next
  case None
  with assms(2) obtain c where c: "dial = Inr c"
    by (auto simp: getOrCreateClient_def newClient_def split: sum.splits)
  let ?q = "send_n C grpcExecutorConcurrency c (gb_pool g)"
  from None c assms(2) obtain q where "ch_Recv C ?q = Some (conn, q)" and "g' = g\<lparr>gb_pool := q\<rparr>"
    by (auto simp: getOrCreateClient_def newClient_def split: option.splits prod.splits)
  then have "ch_Items C ?q = conn # ch_Items C (gb_pool g')"
    using chann_Recv_Some [OF assms(1), of ?q] by simp
  then have "mset (ch_Items C ?q) = mset (ch_Items C (gb_pool g')) + {#conn#}" by simp
  with None c show ?thesis by (simp add: items_send_n [OF assms(1)])
qed

lemma close_drain_all:
  assumes "chann_laws C"
  shows "\<exists>q'. close_drain C q acc = Some (acc @ ch_Items C q, q') \<and> ch_Items C q' = []"
proof (induction "ch_Items C q" arbitrary: q acc)
  case Nil
  then have "ch_Recv C q = None" using chann_Recv_None [OF assms] by simp
  with Nil show ?case by (subst close_drain.simps) simp
next
  case (Cons x xs)
  then have "ch_Recv C q \<noteq> None" using chann_Recv_None [OF assms, of q] by auto
  then obtain y q1 where r: "ch_Recv C q = Some (y, q1)" by auto
  then have "ch_Items C q = y # ch_Items C q1" by (rule chann_Recv_Some [OF assms])
  with Cons have "xs = ch_Items C q1" and y: "y = x" by auto
  from Cons.hyps(1) [OF this(1), of "acc @ [x]"] r y \<open>ch_Items C q = y # ch_Items C q1\<close>
  show ?case by (subst close_drain.simps) simp
qed

text \<open>The backends that can exist: a fresh one, then any number of executions.\<close>

inductive grpc_reach :: "('q, 'c) chann \<Rightarrow> 'q grpcBackend \<Rightarrow> bool" for C where
  grpc_new: "newGrpcBackend C dial ep = Inr g \<Longrightarrow> grpc_reach C g"
| grpc_exec: "grpc_reach C g \<Longrightarrow> grpc_Execute C env g req = Ret (res, g') \<Longrightarrow> grpc_reach C g'"

lemma newClient_closed: "newClient C dial g = (r, g') \<Longrightarrow> gb_closed g' = gb_closed g"
  by (auto simp: newClient_def split: sum.splits)

lemma getOrCreateClient_closed: "getOrCreateClient C dial g = Ret (r, g') \<Longrightarrow> gb_closed g' = gb_closed g"
  by (auto simp: getOrCreateClient_def split: option.splits prod.splits dest: newClient_closed)

lemma grpc_Execute_closed:
  assumes "grpc_Execute C env g req = Ret (res, g')"
  shows "gb_closed g' = gb_closed g"
  using assms
proof (cases rule: grpc_Execute_cases)
  case connect
  then show ?thesis by (auto dest: getOrCreateClient_closed)
next
  case (call conn g1)
  then have "g' = g1\<lparr>gb_pool := ch_Send C (gb_pool g1) conn\<rparr>" by (metis grpc_call_pool snd_conv)
  with call show ?thesis by (auto dest: getOrCreateClient_closed)
qed

lemma grpc_reach_open: "grpc_reach C g \<Longrightarrow> \<not> gb_closed g"
proof (induction rule: grpc_reach.induct)
  case (grpc_new dial ep g)
  then show ?case by (auto simp: newGrpcBackend_def Let_def split: prod.splits option.splits dest: newClient_closed)
next
  case (grpc_exec g env req res g')
  then show ?case by (simp add: grpc_Execute_closed)
qed

section \<open>Properties\<close>

text \<open>An execution time-out is never shorter than the base time-out of 15 seconds, whatever
  the configured factor (even one that makes the product overflow), and with the default
  factor 5 it is exactly the larger of 15 seconds and five times the requested duration.\<close>

theorem timeout_bounds:
  "baseTimeout \<le> Timeout cfg req \<and>
   (bc_timeoutFactor cfg = Fin 5 \<longrightarrow> 0 \<le> rq_DurationMilliSec req \<longrightarrow> rq_DurationMilliSec req \<le> 10 ^ 12 \<longrightarrow>
      Timeout cfg req = max (15 * Second) (rq_DurationMilliSec req * 5 * Millisecond))"
proof (intro conjI impI)
  show "baseTimeout \<le> Timeout cfg req" by (simp add: Timeout_def Let_def)
next
  assume a: "bc_timeoutFactor cfg = Fin 5" "0 \<le> rq_DurationMilliSec req" "rq_DurationMilliSec req \<le> 10 ^ 12"
  let ?d = "rq_DurationMilliSec req"
  have "f_mul (f_of_int ?d) (Fin 5) = Fin (of_int (?d * 5))"
    using a f_mul_ints [of ?d 5] by (simp add: f_of_int_exact)
  then have "f_to_int (f_mul (f_of_int ?d) (Fin 5)) = ?d * 5"
    using a f_to_int_of_int [of "?d * 5"] by simp
  moreover have "int64 (?d * 5 * Millisecond) = ?d * 5 * Millisecond"
    using a by (intro int64_id) (simp_all add: Millisecond_def)
  ultimately show "Timeout cfg req = max (15 * Second) (?d * 5 * Millisecond)"
    using a by (simp add: Timeout_def Let_def baseTimeout_def)
qed

definition sample_req :: Request where
  "sample_req =
     \<lparr> rq_ID = ''default/f-0/0'', rq_Target = ''default/f'', rq_DurationMilliSec = 4000, rq_ClientSendTS = 10,
       rq_GatewayRecvTS = 0, rq_GatewaySendTS = 0, rq_ClientRelTime = 0, rq_TraceRelTime = 0 \<rparr>"

theorem timeout_bounds_witness: "Timeout backend_cfg0 sample_req = 20 * Second"
  using timeout_bounds [of backend_cfg0 sample_req]
  by (simp add: backend_cfg0_def sample_req_def duration_units)

text \<open>C20: executing a request over gRPC always returns, with a response for that invocation, and
  conserves the connection pool: the connection taken is put back on every path, and the
  pool grows by fifty copies of a new connection exactly when none was at hand and dialling
  worked. The status is \<open>FAIL_CONNECT\<close> only when none was at hand and dialling failed.\<close>

theorem grpc_execute_pool:
  assumes "chann_laws C"
  shows "\<exists>res g'. grpc_Execute C env g req = Ret (res, g') \<and> same_invocation (rs_Source res) req \<and>
     (mset (ch_Items C (gb_pool g')) =
        mset (ch_Items C (gb_pool g)) +
        (case (ch_TryRecv C (gb_pool g), ee_dial env) of
           (None, Inr conn) \<Rightarrow> replicate_mset grpcExecutorConcurrency conn | _ \<Rightarrow> {#})) \<and>
     (rs_Status res = FAIL_CONNECT \<longleftrightarrow> ch_TryRecv C (gb_pool g) = None \<and> (\<exists>err. ee_dial env = Inl err))"
proof -
  obtain r g1 where g1: "getOrCreateClient C (ee_dial env) g = Ret (r, g1)"
    using getOrCreateClient_returns [OF assms] by blast
  show ?thesis
  proof (cases r)
    case (Inl err)
    with g1 have "ch_TryRecv C (gb_pool g) = None" "ee_dial env = Inl err" "g1 = g"
      by (auto simp: getOrCreateClient_def newClient_def split: option.splits prod.splits sum.splits)
    with g1 Inl show ?thesis by (simp add: grpc_Execute_def new_Response_def)
  next
    case (Inr conn)
    obtain res g' where call: "grpc_call C env g1 conn req = (res, g')" by fastforce
    then have pool: "mset (ch_Items C (gb_pool g')) = mset (ch_Items C (gb_pool g1)) + {#conn#}"
      using grpc_call_pool [of C env g1 conn req] by (auto simp: chann_Send [OF assms])
    have ok: "same_invocation (rs_Source res) req" "rs_Status res \<noteq> FAIL_CONNECT"
      using grpc_call_fst [of C env g1 conn req] call by auto
    have "\<not> (ch_TryRecv C (gb_pool g) = None \<and> (\<exists>err. ee_dial env = Inl err))"
    proof
      assume "ch_TryRecv C (gb_pool g) = None \<and> (\<exists>err. ee_dial env = Inl err)"
      then obtain err where "ee_dial env = Inl err" "ch_TryRecv C (gb_pool g) = None" by blast
      with getOrCreateClient_nodial [of C g err] g1 Inr show False by simp
    qed
    with g1 Inr call pool ok getOrCreateClient_conn [OF assms, of "ee_dial env" g conn g1] show ?thesis
      by (auto simp: grpc_Execute_def mset_replicate split: option.splits sum.splits)
  qed
qed

definition sample_env :: "nat exec_env" where
  "sample_env = \<lparr> ee_now1 = 20, ee_now2 = 50, ee_now3 = 50, ee_dial = Inr 7, ee_call = (\<lambda>_ _. Inr 30) \<rparr>"

theorem grpc_execute_pool_witness:
  "\<exists>res g'. grpc_Execute fifo sample_env \<lparr> gb_endpoint = ''10.0.0.1:80'', gb_pool = [], gb_closed = False \<rparr> sample_req
       = Ret (res, g') \<and> rs_Status res \<noteq> FAIL_CONNECT"
  using grpc_execute_pool [OF fifo_laws, of sample_env "\<lparr> gb_endpoint = ''10.0.0.1:80'', gb_pool = [], gb_closed = False \<rparr>" sample_req]
  by (auto simp: sample_env_def)

text \<open>C37: \<open>grpcBackend.Close\<close> never returns. For every backend that was created and used, the
  loop takes and closes all idle connections and then waits for ever, because the channel it
  ranges over is only closed after the loop; the call that closes it is never reached.\<close>

theorem grpc_close_blocks:
  assumes "chann_laws C" and "grpc_reach C g"
  shows "grpc_Close C g = Blocked \<and> (\<exists>q. close_drain C (gb_pool g) [] = Some (ch_Items C (gb_pool g), q))"
  using close_drain_all [OF assms(1), of "gb_pool g" "[]"] grpc_reach_open [OF assms(2)]
  by (auto simp: grpc_Close_def split: option.splits)

theorem grpc_close_blocks_witness:
  "\<exists>g :: nat list grpcBackend. newGrpcBackend fifo (Inr 7) ''10.0.0.1:80'' = Inr g \<and> grpc_Close fifo g = Blocked"
proof -
  obtain g where g: "newGrpcBackend fifo (Inr (7::nat)) ''10.0.0.1:80'' = Inr g"
    by (simp add: newGrpcBackend_def newClient_def Let_def)
  with grpc_close_blocks [OF fifo_laws grpc_reach.grpc_new [OF g]] show ?thesis by blast
qed

end
