(* ===== verification/Dispatcher.thy ===== *)
theory Dispatcher
  imports Service Backend "HOL-Library.List_Lexorder" "HOL-Library.Char_ord"
begin

text \<open>
  \<open>src/pkg/gateway/dispatcher\<close>. \<open>pod.go\<close>: a dispatcher keeps a shared map of endpoints (one
  executor per ready pod, under the key \<open>name@ip:port\<close>) and a channel of tokens, one token per
  unit of concurrency; a request waits for a token of a live endpoint, runs on its executor
  and puts the token back. \<open>ksvc.go\<close>: one executor for a whole Knative service.

  Executors are pointers: the endpoint map holds addresses and the executors live in a heap.
  The order in which Go ranges over a map is a parameter \<open>rng\<close>. \<open>Reconcile\<close> starts backends in
  parallel goroutines; they touch distinct keys, so the model runs them one after the other in
  the range order, then removes the stale endpoints. The inductive relation \<open>pd_step\<close>
  interleaves whole receives, completions, time-outs and reconciliations of the running
  dispatcher.
\<close>

section \<open>Ranging over a Go map\<close>

definition range_laws :: "('v smap \<Rightarrow> string list) \<Rightarrow> bool" where
  "range_laws rng \<longleftrightarrow> (\<forall>m. finite (dom m) \<longrightarrow> set (rng m) = dom m \<and> distinct (rng m))"

definition sorted_range :: "'v smap \<Rightarrow> string list" where
  "sorted_range m = sorted_list_of_set (dom m)"

lemma sorted_range_laws: "range_laws sorted_range"
  by (simp add: range_laws_def sorted_range_def)

section \<open>pod.go\<close>

definition podServiceConcurrency :: nat where "podServiceConcurrency = 1"

definition WorkloadServicePort :: string where "WorkloadServicePort = '':80''"

definition podEndpointKeyFunc :: "pod \<Rightarrow> string \<times> string" where
  "podEndpointKeyFunc p =
     (let ep = st_PodIP (pod_Status p) @ WorkloadServicePort;
          key = om_Name (pod_Meta p) @ ''@'' @ ep
      in (key, ep))"

record ('m, 'q, 'p) PodDispatcher =
  pd_target :: string
  pd_timeout :: duration
  pd_endpoints :: 'm
  pd_tokens :: 'q
  pd_heap :: "nat \<rightharpoonup> 'p Executor"
  pd_next :: nat

definition NewPodDispatcher ::
  "('m, nat) shared_map \<Rightarrow> ('q, string) chann \<Rightarrow> string \<Rightarrow> duration \<Rightarrow> ('m, 'q, 'p) PodDispatcher" where
  "NewPodDispatcher S T target timeout =
     \<lparr> pd_target = target, pd_timeout = timeout, pd_endpoints = sm_New S, pd_tokens = ch_New T,
       pd_heap = Map.empty, pd_next = 0 \<rparr>"

text \<open>The loop of \<open>dispatch\<close>: \<open>n\<close> is how many receives it completes before it observes that its
  deadline has passed; with no token left it waits for the deadline.\<close>

fun dispatch ::
  "('m, nat) shared_map \<Rightarrow> ('q, string) chann \<Rightarrow> nat \<Rightarrow> ('m, 'q, 'p) PodDispatcher \<Rightarrow>
   (string \<times> nat) option \<times> ('m, 'q, 'p) PodDispatcher" where
  "dispatch S T 0 pd = (None, pd)"
| "dispatch S T (Suc n) pd =
     (case ch_Recv T (pd_tokens pd) of
        None \<Rightarrow> (None, pd)
      | Some (key, q) \<Rightarrow>
          (case sm_Get S (pd_endpoints pd) key of
             None \<Rightarrow> dispatch S T n (pd\<lparr>pd_tokens := q\<rparr>)
           | Some a \<Rightarrow> (Some (key, a), pd\<lparr>pd_tokens := q\<rparr>)))"

text \<open>\<open>Dispatch\<close>: one request, from waiting for a token to the response. The execution gets the
  time-out of the request as its context deadline, which reaches the model through \<open>env\<close>.\<close>

definition Dispatch ::
  "('m, nat) shared_map \<Rightarrow> ('q, string) chann \<Rightarrow> ('p, 'c) chann \<Rightarrow> nat \<Rightarrow> 'c exec_env \<Rightarrow>
   ('m, 'q, 'p) PodDispatcher \<Rightarrow> Request \<Rightarrow> (Response \<times> ('m, 'q, 'p) PodDispatcher) go" where
  "Dispatch S T C n env pd req =
     (case dispatch S T n pd of
        (None, pd') \<Rightarrow> Ret (new_Response req FAIL_DISPATCH, pd')
      | (Some (key, a), pd') \<Rightarrow>
          (case pd_heap pd' a of
             None \<Rightarrow> Panic NilDeref
           | Some x \<Rightarrow>
               go_bind (Execute C env x req) (\<lambda>(res, x').
                 Ret (res, pd'\<lparr>pd_heap := (pd_heap pd')(a \<mapsto> x'), pd_tokens := ch_Send T (pd_tokens pd') key\<rparr>))))"

text \<open>The desired endpoints of a list of ready pods: key to address, later pods win.\<close>

definition wanted :: "pod list \<Rightarrow> string smap" where
  "wanted readyPods = foldl (\<lambda>m p. let (key, ep) = podEndpointKeyFunc p in m(key \<mapsto> ep)) Map.empty readyPods"

text \<open>One goroutine of the add loop: start a backend for the key, publish it, add its tokens.\<close>

definition add_endpoint ::
  "('m, nat) shared_map \<Rightarrow> ('q, string) chann \<Rightarrow> ('p, 'c) chann \<Rightarrow> backend_cfg \<Rightarrow> (string \<Rightarrow> apierr + 'c) \<Rightarrow>
   string smap \<Rightarrow> string \<Rightarrow> apierr list \<times> ('m, 'q, 'p) PodDispatcher \<Rightarrow> (apierr list \<times> ('m, 'q, 'p) PodDispatcher) go" where
  "add_endpoint S T C cfg dial endpoints key st =
     (let (errs, pd) = st; ep = mget endpoints key
      in go_bind (NewBackend C cfg (dial ep) ep) (\<lambda>r.
           case r of
             Inl err \<Rightarrow> Ret (errs @ [OtherErr (''failed to start backend: '' @ err_Error err)], pd)
           | Inr x \<Rightarrow>
               Ret (errs,
                 pd\<lparr>pd_heap := (pd_heap pd)(pd_next pd \<mapsto> x), pd_next := Suc (pd_next pd),
                    pd_endpoints := sm_Set S (pd_endpoints pd) key (pd_next pd),
                    pd_tokens := send_n T podServiceConcurrency key (pd_tokens pd)\<rparr>)))"

fun add_endpoints ::
  "('m, nat) shared_map \<Rightarrow> ('q, string) chann \<Rightarrow> ('p, 'c) chann \<Rightarrow> backend_cfg \<Rightarrow> (string \<Rightarrow> apierr + 'c) \<Rightarrow>
   string smap \<Rightarrow> string list \<Rightarrow> apierr list \<times> ('m, 'q, 'p) PodDispatcher \<Rightarrow> (apierr list \<times> ('m, 'q, 'p) PodDispatcher) go" where
  "add_endpoints S T C cfg dial endpoints [] st = Ret st"
| "add_endpoints S T C cfg dial endpoints (k # ks) st =
     go_bind (add_endpoint S T C cfg dial endpoints k st) (add_endpoints S T C cfg dial endpoints ks)"

fun del_endpoints :: "('m, nat) shared_map \<Rightarrow> string list \<Rightarrow> 'm \<Rightarrow> nat list \<times> 'm" where
  "del_endpoints S [] m = ([], m)"
| "del_endpoints S (k # ks) m =
     (let (old, m1) = sm_Del S m k; (closed, m2) = del_endpoints S ks m1
      in (case old of None \<Rightarrow> closed | Some a \<Rightarrow> a # closed, m2))"

definition to_add :: "(string smap \<Rightarrow> string list) \<Rightarrow> string smap \<Rightarrow> nat smap \<Rightarrow> string list" where
  "to_add rng endpoints existing = filter (\<lambda>k. existing k = None) (rng endpoints)"

definition to_del :: "(nat smap \<Rightarrow> string list) \<Rightarrow> string smap \<Rightarrow> nat smap \<Rightarrow> string list" where
  "to_del rng endpoints existing = filter (\<lambda>k. endpoints k = None) (rng existing)"

text \<open>\<open>Reconcile\<close> yields the aggregated errors (empty for nil), the executors handed to
  \<open>Close\<close> goroutines, and the dispatcher.\<close>

definition Reconcile ::
  "('m, nat) shared_map \<Rightarrow> ('q, string) chann \<Rightarrow> ('p, 'c) chann \<Rightarrow> backend_cfg \<Rightarrow> (string \<Rightarrow> apierr + 'c) \<Rightarrow>
   (string smap \<Rightarrow> string list) \<Rightarrow> (nat smap \<Rightarrow> string list) \<Rightarrow> pod list \<Rightarrow> ('m, 'q, 'p) PodDispatcher \<Rightarrow>
   (apierr list \<times> nat list \<times> ('m, 'q, 'p) PodDispatcher) go" where
  "Reconcile S T C cfg dial rng1 rng2 readyPods pd =
     (let endpoints = wanted readyPods;
          existing = sm_Inner S (pd_endpoints pd);
          add = to_add rng1 endpoints existing;
          del = to_del rng2 endpoints existing
      in go_bind (add_endpoints S T C cfg dial endpoints add ([], pd)) (\<lambda>(errs, pd1).
           let (closed, m) = del_endpoints S del (pd_endpoints pd1)
           in Ret (errs, closed, pd1\<lparr>pd_endpoints := m\<rparr>)))"

section \<open>ksvc.go\<close>

definition kourierGatewayServicePort :: string where "kourierGatewayServicePort = '':80''"

record 'p KnServiceDispatcher =
  kd_target :: string
  kd_timeout :: duration
  kd_endpoint :: string
  kd_executor :: "'p Executor"

definition NewKnServiceDispatcher ::
  "('p, 'c) chann \<Rightarrow> backend_cfg \<Rightarrow> apierr + 'c \<Rightarrow> string \<Rightarrow> duration \<Rightarrow> string \<Rightarrow> (apierr + 'p KnServiceDispatcher) go" where
  "NewKnServiceDispatcher C cfg dial target timeout url =
     (let endpoint = TrimPrefix url ''http://'' @ kourierGatewayServicePort
      in go_bind (NewBackend C cfg dial endpoint) (\<lambda>r.
           Ret (case r of
                  Inl err \<Rightarrow> Inl (OtherErr (''failed to start backend: '' @ err_Error err))
                | Inr x \<Rightarrow> Inr \<lparr> kd_target = target, kd_timeout = timeout, kd_endpoint = endpoint, kd_executor = x \<rparr>)))"

definition kn_deadline :: "backend_cfg \<Rightarrow> 'p KnServiceDispatcher \<Rightarrow> Request \<Rightarrow> duration" where
  "kn_deadline cfg kd req = int64 (kd_timeout kd + Timeout cfg req)"

text \<open>The deadline of the context goes to the execution, which sees it through its inputs.\<close>

definition kn_Dispatch ::
  "('p, 'c) chann \<Rightarrow> backend_cfg \<Rightarrow> (duration \<Rightarrow> 'c exec_env) \<Rightarrow> 'p KnServiceDispatcher \<Rightarrow> Request \<Rightarrow>
   (Response \<times> 'p KnServiceDispatcher) go" where
  "kn_Dispatch C cfg env kd req =
     go_bind (Execute C (env (kn_deadline cfg kd req)) (kd_executor kd) req) (\<lambda>(res, x').
       Ret (res, kd\<lparr>kd_executor := x'\<rparr>))"

section \<open>Lemmas: waiting for a token\<close>

lemma dispatch_live:
  assumes "shared_map_laws S" and "chann_laws T" and "dispatch S T n pd = (Some (key, a), pd')"
  shows "sm_Inner S (pd_endpoints pd) key = Some a \<and>
         (\<exists>stale. ch_Items T (pd_tokens pd) = stale @ key # ch_Items T (pd_tokens pd') \<and>
                  (\<forall>k \<in> set stale. sm_Inner S (pd_endpoints pd) k = None)) \<and>
         pd' = pd\<lparr>pd_tokens := pd_tokens pd'\<rparr>"
  using assms(3)
proof (induction n arbitrary: pd)
  case (Suc n)
  then obtain k q where r: "ch_Recv T (pd_tokens pd) = Some (k, q)" by (auto split: option.splits)
  then have items: "ch_Items T (pd_tokens pd) = k # ch_Items T q" by (rule chann_Recv_Some [OF assms(2)])
  show ?case
  proof (cases "sm_Inner S (pd_endpoints pd) k")
    case None
    with Suc.prems r have "dispatch S T n (pd\<lparr>pd_tokens := q\<rparr>) = (Some (key, a), pd')"
      by (simp add: shared_map_simps(2) [OF assms(1)])
    from Suc.IH [OF this] obtain stale where
      "ch_Items T q = stale @ key # ch_Items T (pd_tokens pd')"
      "\<forall>k \<in> set stale. sm_Inner S (pd_endpoints pd) k = None"
      "sm_Inner S (pd_endpoints pd) key = Some a" and p: "pd' = (pd\<lparr>pd_tokens := q\<rparr>)\<lparr>pd_tokens := pd_tokens pd'\<rparr>"
      by auto
    moreover from p have "pd' = pd\<lparr>pd_tokens := pd_tokens pd'\<rparr>" by simp
    ultimately show ?thesis using None items by (intro conjI exI [of _ "k # stale"]) auto
  next
    case (Some b)
    with Suc.prems r items show ?thesis by (auto simp: shared_map_simps(2) [OF assms(1)])
  qed
qed simp

text \<open>With a budget that covers the queue, a live token is found if there is one.\<close>

lemma dispatch_finds:
  assumes "shared_map_laws S" and "chann_laws T" and "length (ch_Items T (pd_tokens pd)) \<le> n"
    and "\<exists>k \<in> set (ch_Items T (pd_tokens pd)). sm_Inner S (pd_endpoints pd) k \<noteq> None"
  shows "\<exists>key a pd'. dispatch S T n pd = (Some (key, a), pd')"
  using assms(3,4)
proof (induction n arbitrary: pd)
  case (Suc n)
  from Suc.prems(2) have "ch_Items T (pd_tokens pd) \<noteq> []" by auto
  then have "ch_Recv T (pd_tokens pd) \<noteq> None" by (simp add: chann_Recv_None [OF assms(2)])
  then obtain k q where r: "ch_Recv T (pd_tokens pd) = Some (k, q)" by auto
  then have items: "ch_Items T (pd_tokens pd) = k # ch_Items T q" by (rule chann_Recv_Some [OF assms(2)])
  show ?case
  proof (cases "sm_Inner S (pd_endpoints pd) k")
    case None
    then show ?thesis using Suc.IH [of "pd\<lparr>pd_tokens := q\<rparr>"] Suc.prems r items
      by (auto simp: shared_map_simps(2) [OF assms(1)])
  next
    case (Some b)
    with r show ?thesis by (simp add: shared_map_simps(2) [OF assms(1)])
  qed
qed simp

section \<open>Lemmas: reconciliation\<close>

definition valid_framework :: "backend_cfg \<Rightarrow> bool" where
  "valid_framework cfg \<longleftrightarrow> bc_framework cfg = ''fake'' \<or> bc_framework cfg = ''grpc''"

definition starts :: "('p, 'c) chann \<Rightarrow> backend_cfg \<Rightarrow> (string \<Rightarrow> apierr + 'c) \<Rightarrow> string smap \<Rightarrow> string \<Rightarrow> bool" where
  "starts C cfg dial endpoints k \<longleftrightarrow>
     (\<exists>x. NewBackend C cfg (dial (mget endpoints k)) (mget endpoints k) = Ret (Inr x))"

lemma NewBackend_valid:
  "valid_framework cfg \<Longrightarrow> \<exists>r. NewBackend C cfg d ep = Ret r"
  by (auto simp: valid_framework_def NewBackend_def)

text \<open>Every endpoint points to an executor, and fresh addresses are fresh.\<close>

definition heap_ok :: "('m, nat) shared_map \<Rightarrow> ('m, 'q, 'p) PodDispatcher \<Rightarrow> bool" where
  "heap_ok S pd \<longleftrightarrow>
     (\<forall>k a. sm_Inner S (pd_endpoints pd) k = Some a \<longrightarrow> pd_heap pd a \<noteq> None) \<and>
     (\<forall>a. pd_heap pd a \<noteq> None \<longrightarrow> a < pd_next pd) \<and> finite (dom (sm_Inner S (pd_endpoints pd)))"

lemma finite_wanted: "finite (dom (wanted ps))"
proof -
  have "finite (dom (foldl (\<lambda>m p. let (key, ep) = podEndpointKeyFunc p in m(key \<mapsto> ep)) m0 ps))"
    if "finite (dom m0)" for m0 :: "string smap"
    using that by (induction ps arbitrary: m0) (auto simp: Let_def split: prod.splits)
  then show ?thesis by (simp add: wanted_def)
qed

text \<open>What one call of the add loop, and then the whole loop, does to the endpoints, the tokens,
  the heap and the error list.\<close>

definition added_by ::
  "('m, nat) shared_map \<Rightarrow> ('q, string) chann \<Rightarrow> (string \<Rightarrow> bool) \<Rightarrow> string list \<Rightarrow>
   apierr list \<times> ('m, 'q, 'p) PodDispatcher \<Rightarrow> apierr list \<times> ('m, 'q, 'p) PodDispatcher \<Rightarrow> bool" where
  "added_by S T ok ks st st' \<longleftrightarrow>
     (let (errs, pd) = st; (errs', pd') = st' in
       (\<forall>k. k \<notin> set (filter ok ks) \<longrightarrow> sm_Inner S (pd_endpoints pd') k = sm_Inner S (pd_endpoints pd) k) \<and>
       (\<forall>k \<in> set (filter ok ks). sm_Inner S (pd_endpoints pd') k \<noteq> None) \<and>
       ch_Items T (pd_tokens pd') = ch_Items T (pd_tokens pd) @ filter ok ks \<and>
       length errs' = length errs + length (filter (\<lambda>k. \<not> ok k) ks) \<and>
       (\<forall>a. pd_heap pd a \<noteq> None \<longrightarrow> pd_heap pd' a \<noteq> None) \<and>
       (heap_ok S pd \<longrightarrow> heap_ok S pd'))"

lemma add_endpoint_added:
  assumes S: "shared_map_laws S" and T: "chann_laws T" and cfg: "valid_framework cfg"
  shows "\<exists>st'. add_endpoint S T C cfg dial endpoints k st = Ret st' \<and>
           added_by S T (starts C cfg dial endpoints) [k] st st'"
proof -
  obtain errs pd where st: "st = (errs, pd)" by fastforce
  obtain r where r: "NewBackend C cfg (dial (mget endpoints k)) (mget endpoints k) = Ret r"
    using NewBackend_valid [OF cfg] by blast
  show ?thesis
  proof (cases r)
    case (Inl err)
    with r st show ?thesis by (auto simp: add_endpoint_def added_by_def starts_def)
  next
    case (Inr x)
    with r have ok: "starts C cfg dial endpoints k" by (simp add: starts_def)
    let ?pd = "pd\<lparr>pd_heap := (pd_heap pd)(pd_next pd \<mapsto> x), pd_next := Suc (pd_next pd),
                  pd_endpoints := sm_Set S (pd_endpoints pd) k (pd_next pd),
                  pd_tokens := send_n T podServiceConcurrency k (pd_tokens pd)\<rparr>"
    have "heap_ok S pd \<Longrightarrow> heap_ok S ?pd"
      by (auto simp: heap_ok_def shared_map_simps(3) [OF S] less_Suc_eq split: if_splits)
    with r st Inr ok show ?thesis
      by (auto simp: add_endpoint_def added_by_def shared_map_simps(3) [OF S] podServiceConcurrency_def chann_Send [OF T])
  qed
qed

lemma added_by_trans:
  assumes "added_by S T ok [k] st st1" and "added_by S T ok ks st1 st2"
  shows "added_by S T ok (k # ks) st st2"
proof -
  obtain e0 p0 e1 p1 e2 p2 where st: "st = (e0, p0)" "st1 = (e1, p1)" "st2 = (e2, p2)"
    by (cases st; cases st1; cases st2) auto
  have keep: "sm_Inner S (pd_endpoints p2) k' = sm_Inner S (pd_endpoints p0) k'"
    if "k' \<notin> set (filter ok (k # ks))" for k'
    using assms that unfolding added_by_def st by (auto split: if_splits)
  have new: "sm_Inner S (pd_endpoints p2) k' \<noteq> None" if "k' \<in> set (filter ok (k # ks))" for k'
  proof (cases "k' \<in> set (filter ok ks)")
    case True
    with assms(2) show ?thesis unfolding added_by_def st by simp
  next
    case False
    with that have "k' \<in> set (filter ok [k])" by (auto split: if_splits)
    with assms(1) have "sm_Inner S (pd_endpoints p1) k' \<noteq> None" unfolding added_by_def st by auto
    moreover have "sm_Inner S (pd_endpoints p2) k' = sm_Inner S (pd_endpoints p1) k'"
      using assms(2) False unfolding added_by_def st by simp
    ultimately show ?thesis by simp
  qed
  have "ch_Items T (pd_tokens p2) = ch_Items T (pd_tokens p0) @ filter ok (k # ks)"
    "length e2 = length e0 + length (filter (\<lambda>k. \<not> ok k) (k # ks))"
    "\<forall>a. pd_heap p0 a \<noteq> None \<longrightarrow> pd_heap p2 a \<noteq> None" "heap_ok S p0 \<longrightarrow> heap_ok S p2"
    using assms unfolding added_by_def st by auto
  with keep new show ?thesis unfolding added_by_def st by (simp only: Let_def prod.case) blast
qed

lemma add_endpoints_added:
  assumes S: "shared_map_laws S" and T: "chann_laws T" and cfg: "valid_framework cfg"
  shows "\<exists>st'. add_endpoints S T C cfg dial endpoints ks st = Ret st' \<and>
           added_by S T (starts C cfg dial endpoints) ks st st'"
proof (induction ks arbitrary: st)
  case Nil
  then show ?case by (auto simp: added_by_def split: prod.splits)
next
  case (Cons k ks)
  obtain st1 where st1: "add_endpoint S T C cfg dial endpoints k st = Ret st1"
    "added_by S T (starts C cfg dial endpoints) [k] st st1"
    using add_endpoint_added [OF S T cfg] by blast
  obtain st2 where st2: "add_endpoints S T C cfg dial endpoints ks st1 = Ret st2"
    "added_by S T (starts C cfg dial endpoints) ks st1 st2"
    using Cons.IH by blast
  show ?case
    using st1(1) st2(1) added_by_trans [OF st1(2) st2(2)] by (intro exI [of _ st2]) simp
qed

lemma del_endpoints_Cons:
  "snd (del_endpoints S (k # ks) m) = snd (del_endpoints S ks (snd (sm_Del S m k)))"
  by (simp add: Let_def split: prod.splits)

lemma del_endpoints_Inner:
  assumes "shared_map_laws S"
  shows "sm_Inner S (snd (del_endpoints S ks m)) k = (if k \<in> set ks then None else sm_Inner S m k)"
  by (induction ks arbitrary: m)
    (simp_all add: del_endpoints_Cons shared_map_simps(5) [OF assms] del: del_endpoints.simps(2))

text \<open>The whole of \<open>Reconcile\<close>, in terms of the desired endpoints.\<close>

lemma Reconcile_effect:
  fixes pods :: "pod list" and pd :: "('m, 'q, 'p) PodDispatcher" and C :: "('p, 'c) chann"
    and S :: "('m, nat) shared_map" and cfg :: backend_cfg and dial :: "string \<Rightarrow> apierr + 'c"
    and rng1 :: "string smap \<Rightarrow> string list"
  assumes S: "shared_map_laws S" and T: "chann_laws T" and cfg: "valid_framework cfg"
    and rng: "range_laws rng1" "range_laws rng2" and ok: "heap_ok S pd"
  defines "E \<equiv> sm_Inner S (pd_endpoints pd)" and "W \<equiv> wanted pods"
  defines "A \<equiv> to_add rng1 W E" and "up \<equiv> starts C cfg dial W"
  shows "\<exists>errs closed pd'. Reconcile S T C cfg dial rng1 rng2 pods pd = Ret (errs, closed, pd') \<and>
     (\<forall>k. sm_Inner S (pd_endpoints pd') k \<noteq> None \<longleftrightarrow> W k \<noteq> None \<and> (E k \<noteq> None \<or> up k)) \<and>
     (\<forall>k. W k \<noteq> None \<longrightarrow> E k \<noteq> None \<longrightarrow> sm_Inner S (pd_endpoints pd') k = E k) \<and>
     ch_Items T (pd_tokens pd') = ch_Items T (pd_tokens pd) @ filter up A \<and>
     (errs = [] \<longleftrightarrow> (\<forall>k. W k \<noteq> None \<longrightarrow> E k = None \<longrightarrow> up k)) \<and>
     (\<forall>a. pd_heap pd a \<noteq> None \<longrightarrow> pd_heap pd' a \<noteq> None) \<and> heap_ok S pd'"
proof -
  have finW: "finite (dom W)" by (simp add: W_def finite_wanted)
  have finE: "finite (dom E)" using ok by (simp add: heap_ok_def E_def)
  have setA: "set A = {k. W k \<noteq> None \<and> E k = None}"
    using rng(1) finW by (auto simp: A_def to_add_def range_laws_def dom_def)
  let ?D = "to_del rng2 W E"
  have setD: "set ?D = {k. E k \<noteq> None \<and> W k = None}"
    using rng(2) finE by (auto simp: to_del_def range_laws_def dom_def)
  obtain errs pd1 where a: "add_endpoints S T C cfg dial W A ([], pd) = Ret (errs, pd1)"
    and by1: "added_by S T up A ([], pd) (errs, pd1)"
    using add_endpoints_added [OF S T cfg, of C dial W A "([], pd)"] unfolding up_def by auto
  obtain closed m where d: "del_endpoints S ?D (pd_endpoints pd1) = (closed, m)" by fastforce
  let ?pd' = "pd1\<lparr>pd_endpoints := m\<rparr>"
  have rec: "Reconcile S T C cfg dial rng1 rng2 pods pd = Ret (errs, closed, ?pd')"
    using a d by (simp add: Reconcile_def Let_def flip: W_def E_def A_def)
  have inner: "sm_Inner S m k = (if k \<in> set ?D then None else sm_Inner S (pd_endpoints pd1) k)" for k
    using del_endpoints_Inner [OF S, of ?D "pd_endpoints pd1" k] d by simp
  have e1: "sm_Inner S (pd_endpoints pd1) k = E k" if "k \<notin> set (filter up A)" for k
    using by1 that by (simp add: added_by_def E_def)
  have e2: "sm_Inner S (pd_endpoints pd1) k \<noteq> None" if "k \<in> set (filter up A)" for k
    using by1 that by (simp add: added_by_def)
  have dom: "sm_Inner S m k \<noteq> None \<longleftrightarrow> W k \<noteq> None \<and> (E k \<noteq> None \<or> up k)" for k
    using inner [of k] e1 [of k] e2 [of k] setA setD by (cases "k \<in> set (filter up A)") auto
  have keep: "W k \<noteq> None \<Longrightarrow> E k \<noteq> None \<Longrightarrow> sm_Inner S m k = E k" for k
    using inner [of k] e1 [of k] setA setD by auto
  have err: "errs = [] \<longleftrightarrow> (\<forall>k. W k \<noteq> None \<longrightarrow> E k = None \<longrightarrow> up k)"
  proof -
    have "errs = [] \<longleftrightarrow> filter (\<lambda>k. \<not> up k) A = []" using by1 by (auto simp: added_by_def)
    then show ?thesis using setA by (auto simp: filter_empty_conv)
  qed
  have "heap_ok S pd1" using by1 ok by (simp add: added_by_def)
  moreover have "dom (sm_Inner S m) \<subseteq> dom (sm_Inner S (pd_endpoints pd1))" using inner by (auto split: if_splits)
  ultimately have heap: "heap_ok S ?pd'"
    using inner by (auto simp: heap_ok_def split: if_splits intro: finite_subset)
  show ?thesis
    using rec dom keep err heap by1 by (auto simp: added_by_def)
qed

section \<open>The running dispatcher\<close>

text \<open>\<open>Run\<close> starts one \<open>Dispatch\<close> goroutine per request. A request is waiting for a token, in
  flight with a key and an executor, or answered. \<open>ps_accepted\<close> and \<open>ps_added\<close> record the history: the
  requests read from the channel and how often each key was added.\<close>

record ('m, 'q, 'p) pd_sys =
  ps_pd :: "('m, 'q, 'p) PodDispatcher"
  ps_waiting :: "Request multiset"
  ps_inflight :: "(string \<times> nat \<times> Request) multiset"
  ps_done :: "Response multiset"
  ps_accepted :: "Request multiset"
  ps_added :: "string \<Rightarrow> nat"

definition pd_init ::
  "('m, nat) shared_map \<Rightarrow> ('q, string) chann \<Rightarrow> ('m, 'q, 'p) pd_sys \<Rightarrow> bool" where
  "pd_init S T s \<longleftrightarrow>
     (\<exists>target timeout.
        s = \<lparr> ps_pd = NewPodDispatcher S T target timeout, ps_waiting = {#}, ps_inflight = {#}, ps_done = {#},
              ps_accepted = {#}, ps_added = (\<lambda>_. 0) \<rparr>)"

inductive pd_step ::
  "('m, nat) shared_map \<Rightarrow> ('q, string) chann \<Rightarrow> ('p, 'c) chann \<Rightarrow> backend_cfg \<Rightarrow>
   ('m, 'q, 'p) pd_sys \<Rightarrow> ('m, 'q, 'p) pd_sys \<Rightarrow> bool" for S T C cfg where
  accept: "pd_step S T C cfg s
     (s\<lparr>ps_waiting := add_mset req (ps_waiting s), ps_accepted := add_mset req (ps_accepted s)\<rparr>)"
| stale: "ps_waiting s \<noteq> {#} \<Longrightarrow> ch_Recv T (pd_tokens (ps_pd s)) = Some (k, q) \<Longrightarrow>
     sm_Get S (pd_endpoints (ps_pd s)) k = None \<Longrightarrow>
     pd_step S T C cfg s (s\<lparr>ps_pd := (ps_pd s)\<lparr>pd_tokens := q\<rparr>\<rparr>)"
| start: "ps_waiting s = add_mset req W \<Longrightarrow> ch_Recv T (pd_tokens (ps_pd s)) = Some (k, q) \<Longrightarrow>
     sm_Get S (pd_endpoints (ps_pd s)) k = Some a \<Longrightarrow>
     pd_step S T C cfg s
       (s\<lparr>ps_pd := (ps_pd s)\<lparr>pd_tokens := q\<rparr>, ps_waiting := W,
          ps_inflight := add_mset (k, a, req) (ps_inflight s)\<rparr>)"
| timeout: "ps_waiting s = add_mset req W \<Longrightarrow>
     pd_step S T C cfg s
       (s\<lparr>ps_waiting := W, ps_done := add_mset (new_Response req FAIL_DISPATCH) (ps_done s)\<rparr>)"
| finish: "ps_inflight s = add_mset (k, a, req) F \<Longrightarrow> pd_heap (ps_pd s) a = Some x \<Longrightarrow>
     Execute C env x req = Ret (res, x') \<Longrightarrow>
     pd_step S T C cfg s
       (s\<lparr>ps_pd := (ps_pd s)\<lparr>pd_heap := (pd_heap (ps_pd s))(a \<mapsto> x'),
                             pd_tokens := ch_Send T (pd_tokens (ps_pd s)) k\<rparr>,
          ps_inflight := F, ps_done := add_mset res (ps_done s)\<rparr>)"
| reconcile: "range_laws rng1 \<Longrightarrow> range_laws rng2 \<Longrightarrow>
     Reconcile S T C cfg dial rng1 rng2 pods (ps_pd s) = Ret (errs, cls, pd') \<Longrightarrow>
     pd_step S T C cfg s
       (s\<lparr>ps_pd := pd',
          ps_added := (\<lambda>k. ps_added s k +
             (if sm_Inner S (pd_endpoints (ps_pd s)) k = None \<and> sm_Inner S (pd_endpoints pd') k \<noteq> None
              then podServiceConcurrency else 0))\<rparr>)"

inductive_cases pd_stepE: "pd_step S T C cfg s t"

text \<open>Tokens of a key: in the channel or held by a request in flight.\<close>

definition tok :: "('q, string) chann \<Rightarrow> ('m, 'q, 'p) pd_sys \<Rightarrow> string \<Rightarrow> nat" where
  "tok T s k = count (mset (ch_Items T (pd_tokens (ps_pd s)))) k + count (image_mset fst (ps_inflight s)) k"

definition ids :: "('m, 'q, 'p) pd_sys \<Rightarrow> string multiset" where
  "ids s = image_mset rq_ID (ps_waiting s) + image_mset (\<lambda>(k, a, r). rq_ID r) (ps_inflight s)
         + image_mset (\<lambda>r. rq_ID (rs_Source r)) (ps_done s)"

definition pd_inv :: "('m, nat) shared_map \<Rightarrow> ('q, string) chann \<Rightarrow> ('m, 'q, 'p) pd_sys \<Rightarrow> bool" where
  "pd_inv S T s \<longleftrightarrow>
     heap_ok S (ps_pd s) \<and>
     (\<forall>k a r. (k, a, r) \<in># ps_inflight s \<longrightarrow> pd_heap (ps_pd s) a \<noteq> None) \<and>
     (\<forall>k. tok T s k \<le> ps_added s k) \<and>
     (\<forall>k. sm_Inner S (pd_endpoints (ps_pd s)) k \<noteq> None \<longrightarrow> podServiceConcurrency \<le> tok T s k) \<and>
     ids s = image_mset rq_ID (ps_accepted s)"

lemma pd_inv_inflight:
  "pd_inv S T s \<Longrightarrow> (k, a, r) \<in># ps_inflight s \<Longrightarrow> pd_heap (ps_pd s) a \<noteq> None"
  unfolding pd_inv_def by blast

text \<open>An invariant step is a change of the tokens that matches the change of the history.\<close>

lemma pd_invI:
  assumes "pd_inv S T s" and "heap_ok S (ps_pd t)"
    and "\<And>k a r. (k, a, r) \<in># ps_inflight t \<Longrightarrow> pd_heap (ps_pd t) a \<noteq> None"
    and tok: "\<And>k. tok T t k = tok T s k + d k" and "\<And>k. ps_added t k = ps_added s k + d k"
    and live: "\<And>k. sm_Inner S (pd_endpoints (ps_pd t)) k \<noteq> None \<Longrightarrow>
          sm_Inner S (pd_endpoints (ps_pd s)) k \<noteq> None \<or> podServiceConcurrency \<le> d k"
    and "ids t = image_mset rq_ID (ps_accepted t)"
  shows "pd_inv S T t"
proof -
  have "tok T t k \<le> ps_added t k" for k
    using assms(1) tok [of k] assms(5) [of k] by (simp add: pd_inv_def)
  moreover have "podServiceConcurrency \<le> tok T t k" if "sm_Inner S (pd_endpoints (ps_pd t)) k \<noteq> None" for k
    using live [OF that] assms(1) tok [of k] unfolding pd_inv_def by (metis trans_le_add1 trans_le_add2)
  ultimately show ?thesis using assms(2,3,7) unfolding pd_inv_def by blast
qed

lemma pd_inv_init:
  "shared_map_laws S \<Longrightarrow> chann_laws T \<Longrightarrow> pd_init S T s \<Longrightarrow> pd_inv S T s"
  by (auto simp: pd_init_def pd_inv_def heap_ok_def NewPodDispatcher_def shared_map_simps(1) tok_def ids_def chann_New)

lemma count_filter_distinct: "distinct xs \<Longrightarrow> count (mset (filter P xs)) k = (if k \<in> set xs \<and> P k then 1 else 0)"
  by (induction xs) auto

lemma pd_inv_reconcile:
  assumes S: "shared_map_laws S" and T: "chann_laws T" and cfg: "valid_framework cfg" and inv: "pd_inv S T s"
    and rng: "range_laws rng1" "range_laws rng2"
    and rec: "Reconcile S T C cfg dial rng1 rng2 pods (ps_pd s) = Ret (errs, cls, pd')"
  shows "pd_inv S T (s\<lparr>ps_pd := pd',
          ps_added := (\<lambda>k. ps_added s k +
             (if sm_Inner S (pd_endpoints (ps_pd s)) k = None \<and> sm_Inner S (pd_endpoints pd') k \<noteq> None
              then podServiceConcurrency else 0))\<rparr>)"
proof -
  let ?E = "sm_Inner S (pd_endpoints (ps_pd s))" and ?W = "wanted pods"
  let ?up = "starts C cfg dial ?W" and ?A = "to_add rng1 ?W ?E"
  have h: "heap_ok S (ps_pd s)" using inv by (simp add: pd_inv_def)
  from Reconcile_effect [OF S T cfg rng h, of C dial pods] rec have
    dom: "\<And>k. sm_Inner S (pd_endpoints pd') k \<noteq> None \<longleftrightarrow> ?W k \<noteq> None \<and> (?E k \<noteq> None \<or> ?up k)"
    and items: "ch_Items T (pd_tokens pd') = ch_Items T (pd_tokens (ps_pd s)) @ filter ?up ?A"
    and heap: "\<And>a. pd_heap (ps_pd s) a \<noteq> None \<Longrightarrow> pd_heap pd' a \<noteq> None" "heap_ok S pd'"
    by auto
  have A: "distinct ?A" "set ?A = {k. ?W k \<noteq> None \<and> ?E k = None}"
    using rng(1) finite_wanted [of pods] by (auto simp: to_add_def range_laws_def dom_def)
  have cnt: "count (mset (filter ?up ?A)) k = (if ?E k = None \<and> sm_Inner S (pd_endpoints pd') k \<noteq> None then 1 else 0)" for k
    using count_filter_distinct [OF A(1), of ?up k] A(2) dom [of k] by auto
  have toks: "count (mset (ch_Items T (pd_tokens pd'))) k = count (mset (ch_Items T (pd_tokens (ps_pd s)))) k +
      (if ?E k = None \<and> sm_Inner S (pd_endpoints pd') k \<noteq> None then 1 else 0)" for k
    unfolding items using cnt [of k] by (simp del: mset_filter)
  show ?thesis
  proof (rule pd_invI [OF inv, where d = "\<lambda>k. if ?E k = None \<and> sm_Inner S (pd_endpoints pd') k \<noteq> None then 1 else 0"], goal_cases)
    case (2 k a r)
    then show ?case using heap(1) pd_inv_inflight [OF inv] by simp
  qed (use inv heap in \<open>auto simp: pd_inv_def ids_def tok_def toks podServiceConcurrency_def\<close>)
qed

lemma pd_inv_step:
  assumes "pd_step S T C cfg s t" and S: "shared_map_laws S" and T: "chann_laws T"
    and cfg: "valid_framework cfg" and inv: "pd_inv S T s"
  shows "pd_inv S T t"
  using assms(1)
proof cases
  case (accept req)
  with inv show ?thesis by (auto simp: pd_inv_def tok_def ids_def)
next
  case (stale k q)
  from stale(3) have items: "ch_Items T (pd_tokens (ps_pd s)) = k # ch_Items T q"
    by (rule chann_Recv_Some [OF T])
  have dead: "sm_Inner S (pd_endpoints (ps_pd s)) k = None"
    using stale(4) by (simp add: shared_map_simps(2) [OF S])
  have tok: "tok T s k' = tok T t k' + (if k' = k then 1 else 0)" for k'
    by (simp add: tok_def stale(1) items)
  have up: "tok T t k' \<le> ps_added t k'" for k'
  proof -
    have "tok T s k' \<le> ps_added s k'" using inv by (simp add: pd_inv_def)
    with tok [of k'] stale(1) show ?thesis by simp
  qed
  have lo: "podServiceConcurrency \<le> tok T t k'" if "sm_Inner S (pd_endpoints (ps_pd t)) k' \<noteq> None" for k'
    using inv that tok [of k'] dead stale(1) by (auto simp: pd_inv_def split: if_splits)
  from inv stale(1) have "ids t = image_mset rq_ID (ps_accepted t)" "heap_ok S (ps_pd t)"
    "\<forall>k a r. (k, a, r) \<in># ps_inflight t \<longrightarrow> pd_heap (ps_pd t) a \<noteq> None"
    by (simp_all add: pd_inv_def ids_def heap_ok_def)
  with up lo show ?thesis unfolding pd_inv_def by blast
next
  case (start req W k q a)
  from start(3) have items: "ch_Items T (pd_tokens (ps_pd s)) = k # ch_Items T q"
    by (rule chann_Recv_Some [OF T])
  have "sm_Inner S (pd_endpoints (ps_pd s)) k = Some a"
    using start(4) by (simp add: shared_map_simps(2) [OF S])
  then have a: "pd_heap (ps_pd s) a \<noteq> None" using inv by (auto simp: pd_inv_def heap_ok_def)
  show ?thesis
  proof (rule pd_invI [OF inv, where d = "\<lambda>_. 0"], goal_cases)
    case (2 k' a' r)
    with start(1) a pd_inv_inflight [OF inv] show ?case by auto
  qed (use inv start(1,2) in \<open>auto simp: pd_inv_def tok_def ids_def heap_ok_def items\<close>)
next
  case (timeout req W)
  with inv show ?thesis by (auto simp: pd_inv_def tok_def ids_def new_Response_def)
next
  case (finish k a req F x env res x')
  have "rq_ID (rs_Source res) = rq_ID req" using any_exec.exec_id [OF finish(4)] by simp
  then show ?thesis
  proof (intro pd_invI [OF inv, where d = "\<lambda>_. 0"], goal_cases)
    case (2 k' a' r)
    with finish(1,2) pd_inv_inflight [OF inv, of k' a' r] show ?case by auto
  qed (use inv finish(1,2,3) in \<open>auto simp: pd_inv_def tok_def ids_def heap_ok_def chann_Send [OF T]\<close>)
next
  case (reconcile rng1 rng2 dial pods errs cls pd')
  then show ?thesis using pd_inv_reconcile [OF S T cfg inv] by auto
qed

interpretation pd_system: inductive_invariant "pd_init S T" "pd_step S T C cfg"
  "\<lambda>s. shared_map_laws S \<and> chann_laws T \<and> valid_framework cfg \<longrightarrow> pd_inv S T s" for S T C cfg
  by unfold_locales (auto intro: pd_inv_init pd_inv_step)

section \<open>The dispatcher as a service\<close>

definition pd_service :: "('m, 'q, 'p) pd_sys \<Rightarrow> service" where
  "pd_service s =
     \<lparr> sv_submitted = image_mset rq_ID (ps_accepted s), sv_answered = image_mset (\<lambda>r. rq_ID (rs_Source r)) (ps_done s) \<rparr>"

lemma pd_service_answer:
  assumes "pd_inv S T s" and "ps_accepted t = ps_accepted s" and "ps_done t = add_mset res (ps_done s)"
    and "rq_ID (rs_Source res) \<in># image_mset rq_ID (ps_waiting s) + image_mset (\<lambda>(k, a, r). rq_ID r) (ps_inflight s)"
  shows "sv_step (pd_service s) (pd_service t)"
proof -
  have "image_mset rq_ID (ps_accepted s) = ids s" using assms(1) by (simp add: pd_inv_def)
  then have "rq_ID (rs_Source res) \<in># sv_submitted (pd_service s) - sv_answered (pd_service s)"
    using assms(4) by (simp add: pd_service_def ids_def)
  from sv_step.answer [OF this] show ?thesis using assms(2,3) by (simp add: pd_service_def)
qed

lemma pd_service_step:
  assumes "pd_step S T C cfg s t" and inv: "pd_inv S T s"
  shows "pd_service t = pd_service s \<or> sv_step (pd_service s) (pd_service t)"
  using assms(1)
proof cases
  case (accept req)
  then show ?thesis using sv_step.submit [of "pd_service s" "rq_ID req"] by (simp add: pd_service_def)
next
  case (timeout req W)
  then show ?thesis using pd_service_answer [OF inv, of t "new_Response req FAIL_DISPATCH"] by (simp add: new_Response_def)
next
  case (finish k a req F x env res x')
  have "rq_ID (rs_Source res) = rq_ID req" using any_exec.exec_id [OF finish(4)] by simp
  with finish(1,2) show ?thesis using pd_service_answer [OF inv, of t res] by simp
qed (simp_all add: pd_service_def)

interpretation pd_serves: refines_service
  "\<lambda>s. shared_map_laws S \<and> chann_laws T \<and> valid_framework cfg \<and> pd_init S T s" "pd_step S T C cfg"
  "\<lambda>s. shared_map_laws S \<and> chann_laws T \<and> valid_framework cfg \<and> pd_inv S T s" pd_service for S T C cfg
proof unfold_locales
  fix s
  assume "shared_map_laws S \<and> chann_laws T \<and> valid_framework cfg \<and> pd_init S T s"
  then show "sv_init (pd_service s)" by (auto simp: pd_init_def sv_init_def pd_service_def)
qed (auto intro: pd_inv_init pd_inv_step dest: pd_service_step)

text \<open>\<open>Run\<close> of the Knative dispatcher: one goroutine per request, all on the same executor.\<close>

record 'p kn_sys =
  ks_kd :: "'p KnServiceDispatcher"
  ks_running :: "Request multiset"
  ks_replied :: "Response multiset"
  ks_taken :: "Request multiset"

definition kn_init :: "'p kn_sys \<Rightarrow> bool" where
  "kn_init s \<longleftrightarrow> ks_running s = {#} \<and> ks_replied s = {#} \<and> ks_taken s = {#}"

inductive kn_step :: "('p, 'c) chann \<Rightarrow> backend_cfg \<Rightarrow> 'p kn_sys \<Rightarrow> 'p kn_sys \<Rightarrow> bool" for C cfg where
  kn_accept: "kn_step C cfg s (s\<lparr>ks_running := add_mset req (ks_running s), ks_taken := add_mset req (ks_taken s)\<rparr>)"
| kn_reply: "ks_running s = add_mset req F \<Longrightarrow> kn_Dispatch C cfg env (ks_kd s) req = Ret (res, kd') \<Longrightarrow>
     kn_step C cfg s (s\<lparr>ks_kd := kd', ks_running := F, ks_replied := add_mset res (ks_replied s)\<rparr>)"

definition kn_service :: "'p kn_sys \<Rightarrow> service" where
  "kn_service s =
     \<lparr> sv_submitted = image_mset rq_ID (ks_taken s), sv_answered = image_mset (\<lambda>r. rq_ID (rs_Source r)) (ks_replied s) \<rparr>"

definition kn_inv :: "'p kn_sys \<Rightarrow> bool" where
  "kn_inv s \<longleftrightarrow> image_mset rq_ID (ks_taken s) =
     image_mset rq_ID (ks_running s) + image_mset (\<lambda>r. rq_ID (rs_Source r)) (ks_replied s)"

lemma kn_Dispatch_id: "kn_Dispatch C cfg env kd req = Ret (res, kd') \<Longrightarrow> rq_ID (rs_Source res) = rq_ID req"
  using any_exec.exec_id by (fastforce simp: kn_Dispatch_def)

lemma kn_step_service:
  assumes "kn_inv s" and "kn_step C cfg s t"
  shows "kn_inv t \<and> (kn_service t = kn_service s \<or> sv_step (kn_service s) (kn_service t))"
  using assms(2)
proof cases
  case (kn_accept req)
  then show ?thesis using assms(1) sv_step.submit [of "kn_service s" "rq_ID req"] by (simp add: kn_inv_def kn_service_def)
next
  case (kn_reply req F env res kd')
  note i = kn_Dispatch_id [OF kn_reply(3)]
  have "rq_ID req \<in># sv_submitted (kn_service s) - sv_answered (kn_service s)"
    using assms(1) kn_reply(2) by (simp add: kn_inv_def kn_service_def)
  from sv_step.answer [OF this] i kn_reply(1,2) assms(1) show ?thesis by (simp add: kn_inv_def kn_service_def)
qed

interpretation kn_serves: refines_service kn_init "kn_step C cfg" kn_inv kn_service for C cfg
proof unfold_locales
  fix s :: "'a kn_sys"
  assume "kn_init s"
  then show "kn_inv s" "sv_init (kn_service s)" by (simp_all add: kn_init_def kn_inv_def sv_init_def kn_service_def)
qed (use kn_step_service in blast)+

text \<open>The Knative dispatcher keeps the same contract: every reachable state is one of the abstract
  service, and when no goroutine runs, every request it has taken is answered exactly once.\<close>

lemma knative_refines_service:
  assumes "reachable kn_init (kn_step C cfg) s"
  shows "reachable sv_init sv_step (kn_service s) \<and> (ks_running s = {#} \<longrightarrow> sv_answered (kn_service s) = sv_submitted (kn_service s))"
  using kn_serves.simulates [OF assms] kn_serves.inv_reachable [OF assms] by (simp add: kn_inv_def kn_service_def)

section \<open>Properties\<close>

text \<open>The dispatcher implements the abstract service. Every run of the pod dispatcher is, seen
  from outside, a run of a service to which requests are submitted and which answers a request
  only if it was submitted and is not answered yet: each step of the dispatcher (accepting,
  waiting for tokens, dropping stale ones, executing, timing out, reconciling) is a step of
  the service or invisible.\<close>

theorem dispatcher_refines_service:
  assumes "shared_map_laws S" and "chann_laws T" and "valid_framework cfg"
    and "reachable (pd_init S T) (pd_step S T C cfg) s"
  shows "reachable sv_init sv_step (pd_service s) \<and>
     (\<forall>t. pd_step S T C cfg s t \<longrightarrow> pd_service t = pd_service s \<or> sv_step (pd_service s) (pd_service t))"
proof -
  have "reachable (\<lambda>s. shared_map_laws S \<and> chann_laws T \<and> valid_framework cfg \<and> pd_init S T s) (pd_step S T C cfg) s"
    using reachable_mono [OF assms(4)] assms(1-3) by simp
  from pd_serves.simulates [OF this] pd_serves.step_simulated [OF this] show ?thesis by blast
qed

text \<open>C13: reconciliation converges. When every backend of a wanted endpoint starts, one
  \<open>Reconcile\<close> reports no error, leaves exactly the endpoints of the ready pods, keeps the
  executor of every endpoint that stays, and adds one token per new endpoint; running it
  again with the same pods changes nothing.\<close>

theorem reconcile_converges:
  assumes "shared_map_laws S" and "chann_laws T" and "valid_framework cfg"
    and "range_laws rng1" and "range_laws rng2" and "heap_ok S pd"
    and "\<And>k. wanted pods k \<noteq> None \<Longrightarrow> starts C cfg dial (wanted pods) k"
  shows "\<exists>closed pd'. Reconcile S T C cfg dial rng1 rng2 pods pd = Ret ([], closed, pd') \<and>
     dom (sm_Inner S (pd_endpoints pd')) = dom (wanted pods) \<and>
     (\<forall>k \<in> dom (wanted pods) \<inter> dom (sm_Inner S (pd_endpoints pd)).
        sm_Inner S (pd_endpoints pd') k = sm_Inner S (pd_endpoints pd) k) \<and>
     mset (ch_Items T (pd_tokens pd')) =
       mset (ch_Items T (pd_tokens pd)) +
       mset_set (dom (wanted pods) - dom (sm_Inner S (pd_endpoints pd))) \<and>
     Reconcile S T C cfg dial rng1 rng2 pods pd' = Ret ([], [], pd')"
proof -
  let ?E = "sm_Inner S (pd_endpoints pd)" and ?W = "wanted pods" and ?up = "starts C cfg dial (wanted pods)"
  from Reconcile_effect [OF assms(1-6), of C dial pods] obtain errs closed pd' where
    rec: "Reconcile S T C cfg dial rng1 rng2 pods pd = Ret (errs, closed, pd')"
    and d: "\<And>k. sm_Inner S (pd_endpoints pd') k \<noteq> None \<longleftrightarrow> ?W k \<noteq> None \<and> (?E k \<noteq> None \<or> ?up k)"
    and keep: "\<And>k. ?W k \<noteq> None \<Longrightarrow> ?E k \<noteq> None \<Longrightarrow> sm_Inner S (pd_endpoints pd') k = ?E k"
    and items: "ch_Items T (pd_tokens pd') = ch_Items T (pd_tokens pd) @ filter ?up (to_add rng1 ?W ?E)"
    and errs: "errs = [] \<longleftrightarrow> (\<forall>k. ?W k \<noteq> None \<longrightarrow> ?E k = None \<longrightarrow> ?up k)" and h: "heap_ok S pd'"
    by blast
  have dom: "dom (sm_Inner S (pd_endpoints pd')) = dom ?W" using d assms(7) by (auto simp: dom_def)
  have A: "distinct (to_add rng1 ?W ?E)" "set (to_add rng1 ?W ?E) = dom ?W - dom ?E"
    using assms(4) finite_wanted [of pods] by (auto simp: to_add_def range_laws_def)
  have "filter ?up (to_add rng1 ?W ?E) = to_add rng1 ?W ?E"
    using A(2) assms(7) by (auto simp: filter_id_conv)
  then have toks: "mset (ch_Items T (pd_tokens pd')) = mset (ch_Items T (pd_tokens pd)) + mset_set (dom ?W - dom ?E)"
    using items A by (metis mset_append mset_set_set)
  have nil: "to_add rng1 ?W (sm_Inner S (pd_endpoints pd')) = []" "to_del rng2 ?W (sm_Inner S (pd_endpoints pd')) = []"
    using assms(4,5) finite_wanted [of pods] h dom
    by (auto simp: to_add_def to_del_def range_laws_def filter_empty_conv heap_ok_def)
  have "Reconcile S T C cfg dial rng1 rng2 pods pd' = Ret ([], [], pd')"
    unfolding Reconcile_def nil Let_def by simp
  moreover have "errs = []" using errs assms(7) by blast
  ultimately show ?thesis using rec dom keep toks by blast
qed

definition sample_pod :: pod where
  "sample_pod =
     \<lparr> pod_Meta = sample_meta, pod_NodeName = ''n1'', pod_ReadinessGates = [], pod_Containers = [],
       pod_InitContainers = [],
       pod_Status = \<lparr> st_Phase = ''Running'', st_Conditions = [], st_HostIP = ''10.0.0.1'', st_PodIP = ''10.1.0.7'',
          st_StartTime = None, st_ContainerStatuses = [], st_InitContainerStatuses = [] \<rparr> \<rparr>"

definition sample_key :: string where "sample_key = ''f-7d@10.1.0.7:80''"

definition fake_cfg :: backend_cfg where "fake_cfg = Use ''fake'' backend_cfg0"

definition no_dial :: "string \<Rightarrow> apierr + nat" where "no_dial _ = Inl (OtherErr [])"

definition sample_pd :: "(nat smap, string list, nat list) PodDispatcher" where
  "sample_pd = NewPodDispatcher go_map fifo ''default/f'' (15 * Second)"

lemma fake_cfg_valid: "valid_framework fake_cfg"
  by (simp add: valid_framework_def fake_cfg_def Use_def)

lemma fake_starts: "starts C fake_cfg dial W k"
  by (simp add: starts_def NewBackend_def fake_cfg_def Use_def)

lemma wanted_sample: "wanted [sample_pod] = [sample_key \<mapsto> ''10.1.0.7:80'']"
  by (simp add: wanted_def podEndpointKeyFunc_def sample_pod_def sample_meta_def sample_key_def WorkloadServicePort_def Let_def)

theorem reconcile_converges_witness:
  "\<exists>closed pd'. Reconcile go_map fifo fifo fake_cfg no_dial sorted_range sorted_range [sample_pod] sample_pd
      = Ret ([], closed, pd') \<and> dom (sm_Inner go_map (pd_endpoints pd')) = {sample_key}"
proof -
  have "heap_ok go_map sample_pd" by (simp add: heap_ok_def sample_pd_def NewPodDispatcher_def go_map_def)
  from reconcile_converges [OF go_map_laws fifo_laws fake_cfg_valid sorted_range_laws sorted_range_laws this,
      of "[sample_pod]" "fifo :: (nat list, nat) chann" no_dial]
  show ?thesis by (auto simp: fake_starts wanted_sample)
qed

text \<open>A request is never lost or answered twice by the pod dispatcher. In every reachable
  state of the running dispatcher the accepted requests are exactly the waiting ones, those
  in flight and those answered; once none waits or runs, there is exactly one response per
  accepted request.\<close>

theorem dispatcher_answers_once:
  assumes "shared_map_laws S" and "chann_laws T" and "valid_framework cfg"
    and "reachable (pd_init S T) (pd_step S T C cfg) s"
  shows "image_mset rq_ID (ps_accepted s) =
           image_mset rq_ID (ps_waiting s) + image_mset (\<lambda>(k, a, r). rq_ID r) (ps_inflight s) +
           image_mset (\<lambda>r. rq_ID (rs_Source r)) (ps_done s) \<and>
         (ps_waiting s = {#} \<longrightarrow> ps_inflight s = {#} \<longrightarrow>
            image_mset (\<lambda>r. rq_ID (rs_Source r)) (ps_done s) = image_mset rq_ID (ps_accepted s))"
  using pd_system.inv_reachable [OF assms(4)] assms(1-3) by (auto simp: pd_inv_def ids_def)

text \<open>C6: tokens are conserved. In every reachable state, every live endpoint has at least one
  token, in the channel or held by a request in flight (so it can always serve again), and a
  key never has more tokens than the number of times it was added. So an endpoint that was
  added once never runs two requests at the same time.\<close>

theorem dispatcher_tokens:
  assumes "shared_map_laws S" and "chann_laws T" and "valid_framework cfg"
    and "reachable (pd_init S T) (pd_step S T C cfg) s"
  shows "(sm_Inner S (pd_endpoints (ps_pd s)) k \<noteq> None \<longrightarrow> 1 \<le> tok T s k) \<and>
         tok T s k \<le> ps_added s k \<and>
         (ps_added s k \<le> 1 \<longrightarrow> count (image_mset fst (ps_inflight s)) k \<le> podServiceConcurrency)"
proof -
  have inv: "pd_inv S T s" using pd_system.inv_reachable [OF assms(4)] assms(1-3) by simp
  then have le: "tok T s k \<le> ps_added s k" by (simp add: pd_inv_def)
  moreover have "count (image_mset fst (ps_inflight s)) k \<le> tok T s k" by (simp add: tok_def)
  moreover from inv have "sm_Inner S (pd_endpoints (ps_pd s)) k \<noteq> None \<Longrightarrow> 1 \<le> tok T s k"
    by (auto simp: pd_inv_def podServiceConcurrency_def)
  ultimately show ?thesis unfolding podServiceConcurrency_def by linarith
qed

lemma dispatch_endpoint:
  "dispatch S T n pd = (Some (k, a), pd') \<Longrightarrow> sm_Get S (pd_endpoints pd) k = Some a \<and> pd_heap pd' = pd_heap pd"
  by (induction n arbitrary: pd) (fastforce split: option.splits)+

text \<open>C10: the dispatcher never uses an executor that does not exist. In every reachable state each
  endpoint of the map and each request in flight refers to an executor that has been created,
  so what \<open>dispatch\<close> hands to a request, whatever its budget, is never nil, also while other
  goroutines remove and add endpoints.\<close>

theorem dispatcher_well_formed:
  assumes "shared_map_laws S" and "chann_laws T" and "valid_framework cfg"
    and "reachable (pd_init S T) (pd_step S T C cfg) s"
  shows "(\<forall>k a. sm_Inner S (pd_endpoints (ps_pd s)) k = Some a \<longrightarrow> pd_heap (ps_pd s) a \<noteq> None \<and> a < pd_next (ps_pd s)) \<and>
     (\<forall>k a r. (k, a, r) \<in># ps_inflight s \<longrightarrow> pd_heap (ps_pd s) a \<noteq> None) \<and>
     (\<forall>n k a pd'. dispatch S T n (ps_pd s) = (Some (k, a), pd') \<longrightarrow> pd_heap pd' a \<noteq> None)"
proof -
  have inv: "pd_inv S T s" using pd_system.inv_reachable [OF assms(4)] assms(1-3) by simp
  then have h: "heap_ok S (ps_pd s)" by (simp add: pd_inv_def)
  have "pd_heap pd' a \<noteq> None" if "dispatch S T n (ps_pd s) = (Some (k, a), pd')" for n k a pd'
    using dispatch_endpoint [OF that] h shared_map_simps(2) [OF assms(1)] unfolding heap_ok_def by metis
  with h pd_inv_inflight [OF inv] show ?thesis by (auto simp: heap_ok_def)
qed

text \<open>A run of the dispatcher: the pod becomes ready, leaves the ready set, becomes ready again.\<close>

definition pd_at :: "nat smap \<Rightarrow> string list \<Rightarrow> (nat \<rightharpoonup> nat list Executor) \<Rightarrow> nat \<Rightarrow> (nat smap, string list, nat list) PodDispatcher" where
  "pd_at m ts h n =
     \<lparr> pd_target = ''default/f'', pd_timeout = 15 * Second, pd_endpoints = m, pd_tokens = ts, pd_heap = h, pd_next = n \<rparr>"

abbreviation sample_sys where
  "sample_sys pd w f d acc ad \<equiv>
     \<lparr> ps_pd = pd, ps_waiting = w, ps_inflight = f, ps_done = d, ps_accepted = acc, ps_added = ad \<rparr>"

abbreviation sample_reach where
  "sample_reach \<equiv> reachable (pd_init go_map fifo) (pd_step go_map fifo (fifo :: (nat list, nat) chann) fake_cfg)"

lemma sorted_range_simps [simp]: "sorted_range Map.empty = []" "sorted_range [k \<mapsto> v] = [k]"
  by (simp_all add: sorted_range_def)

lemma reconcile_add:
  "m = Map.empty \<Longrightarrow> Reconcile go_map fifo fifo fake_cfg no_dial sorted_range sorted_range [sample_pod] (pd_at m ts h n)
     = Ret ([], [], pd_at [sample_key \<mapsto> n] (ts @ [sample_key]) (h(n \<mapsto> FakeBackend)) (Suc n))"
  by (simp add: Reconcile_def wanted_sample go_map_def fifo_def fake_cfg_def Use_def to_add_def to_del_def pd_at_def
      add_endpoint_def NewBackend_def podServiceConcurrency_def Let_def)

lemma reconcile_del:
  "Reconcile go_map fifo fifo fake_cfg no_dial sorted_range sorted_range [] (pd_at [k \<mapsto> a] ts h n)
     = Ret ([], [a], pd_at Map.empty ts h n)"
  by (simp add: Reconcile_def wanted_def go_map_def to_add_def to_del_def pd_at_def Let_def)

lemma sample_reach0: "sample_reach (sample_sys (pd_at Map.empty [] Map.empty 0) {#} {#} {#} {#} (\<lambda>_. 0))"
  by (rule reach_init) (auto simp: pd_init_def NewPodDispatcher_def pd_at_def go_map_def fifo_def)

lemma sample_reach_add:
  assumes "sample_reach (sample_sys (pd_at Map.empty ts h n) w f d acc ad)"
  shows "sample_reach (sample_sys (pd_at [sample_key \<mapsto> n] (ts @ [sample_key]) (h(n \<mapsto> FakeBackend)) (Suc n))
           w f d acc (\<lambda>k. ad k + (if k = sample_key then 1 else 0)))"
proof (rule reach_step [OF assms])
  have eq: "(\<exists>y. (if k = sample_key then Some n else None) = Some y) \<longleftrightarrow> k = sample_key" for k by auto
  show "pd_step go_map fifo fifo fake_cfg (sample_sys (pd_at Map.empty ts h n) w f d acc ad)
      (sample_sys (pd_at [sample_key \<mapsto> n] (ts @ [sample_key]) (h(n \<mapsto> FakeBackend)) (Suc n))
           w f d acc (\<lambda>k. ad k + (if k = sample_key then 1 else 0)))"
    using pd_step.reconcile [OF sorted_range_laws sorted_range_laws, of go_map fifo fifo fake_cfg no_dial "[sample_pod]"
        "sample_sys (pd_at Map.empty ts h n) w f d acc ad", simplified, OF reconcile_add [OF refl]]
    by (simp add: pd_at_def go_map_def podServiceConcurrency_def eq cong: if_cong)
qed

lemma sample_reach_del:
  assumes "sample_reach (sample_sys (pd_at [k0 \<mapsto> a] ts h n) w f d acc ad)"
  shows "sample_reach (sample_sys (pd_at Map.empty ts h n) w f d acc ad)"
proof (rule reach_step [OF assms])
  show "pd_step go_map fifo fifo fake_cfg (sample_sys (pd_at [k0 \<mapsto> a] ts h n) w f d acc ad)
      (sample_sys (pd_at Map.empty ts h n) w f d acc ad)"
    using pd_step.reconcile [OF sorted_range_laws sorted_range_laws, of go_map fifo fifo fake_cfg no_dial "[]"
        "sample_sys (pd_at [k0 \<mapsto> a] ts h n) w f d acc ad", simplified, OF reconcile_del]
    by (simp add: pd_at_def go_map_def)
qed

lemma sample_reach_start:
  assumes "sample_reach (sample_sys (pd_at [k \<mapsto> a] (k # ts) h n) {#} f d acc ad)"
  shows "sample_reach (sample_sys (pd_at [k \<mapsto> a] ts h n) {#} (add_mset (k, a, r) f) d (add_mset r acc) ad)"
proof -
  have "sample_reach (sample_sys (pd_at [k \<mapsto> a] (k # ts) h n) {#r#} f d (add_mset r acc) ad)"
    using reach_step [OF assms pd_step.accept [of _ _ _ _ _ r]] by simp
  from reach_step [OF this pd_step.start [of _ r "{#}" fifo k ts go_map a]]
  show ?thesis by (simp add: pd_at_def go_map_def fifo_def)
qed

lemma sample_reach_once:
  "sample_reach (sample_sys (pd_at [sample_key \<mapsto> 0] [] [0 \<mapsto> FakeBackend] 1) {#}
     {#(sample_key, 0, sample_req)#} {#} {#sample_req#} (\<lambda>k. if k = sample_key then 1 else 0))"
  using sample_reach_start [OF sample_reach_add [OF sample_reach0, unfolded append_Nil], of sample_req] by simp

theorem dispatcher_answers_once_witness:
  "\<exists>s. sample_reach s \<and> ps_accepted s = {#sample_req#} \<and>
     {#rq_ID sample_req#} = image_mset (\<lambda>(k, a, r). rq_ID r) (ps_inflight s)"
  using dispatcher_answers_once [OF go_map_laws fifo_laws fake_cfg_valid sample_reach_once] sample_reach_once
  by (intro exI [of _ "sample_sys (pd_at [sample_key \<mapsto> 0] [] [0 \<mapsto> FakeBackend] 1) {#}
     {#(sample_key, 0, sample_req)#} {#} {#sample_req#} (\<lambda>k. if k = sample_key then 1 else 0)"]) simp

theorem dispatcher_tokens_witness:
  "\<exists>s. sample_reach s \<and> 1 \<le> tok fifo s sample_key \<and> ps_added s sample_key = 1 \<and>
     count (image_mset fst (ps_inflight s)) sample_key \<le> podServiceConcurrency"
  using dispatcher_tokens [OF go_map_laws fifo_laws fake_cfg_valid sample_reach_once, of sample_key] sample_reach_once
  by (intro exI [of _ "sample_sys (pd_at [sample_key \<mapsto> 0] [] [0 \<mapsto> FakeBackend] 1) {#}
     {#(sample_key, 0, sample_req)#} {#} {#sample_req#} (\<lambda>k. if k = sample_key then 1 else 0)"])
    (simp add: pd_at_def go_map_def)

theorem dispatcher_refines_service_witness:
  "\<exists>s. sample_reach s \<and> sv_submitted (pd_service s) = {#rq_ID sample_req#} \<and> reachable sv_init sv_step (pd_service s)"
  using dispatcher_refines_service [OF go_map_laws fifo_laws fake_cfg_valid sample_reach_once] sample_reach_once
  by (intro exI [of _ "sample_sys (pd_at [sample_key \<mapsto> 0] [] [0 \<mapsto> FakeBackend] 1) {#}
     {#(sample_key, 0, sample_req)#} {#} {#sample_req#} (\<lambda>k. if k = sample_key then 1 else 0)"]) (simp add: pd_service_def)

theorem dispatcher_well_formed_witness:
  "\<exists>s. sample_reach s \<and> (sample_key, 0, sample_req) \<in># ps_inflight s \<and> pd_heap (ps_pd s) 0 \<noteq> None"
proof -
  let ?s = "sample_sys (pd_at [sample_key \<mapsto> 0] [] [0 \<mapsto> FakeBackend] 1) {#}
     {#(sample_key, 0, sample_req)#} {#} {#sample_req#} (\<lambda>k. if k = sample_key then 1 else 0)"
  have i: "(sample_key, 0, sample_req) \<in># ps_inflight ?s" by simp
  with dispatcher_well_formed [OF go_map_laws fifo_laws fake_cfg_valid sample_reach_once] have "pd_heap (ps_pd ?s) 0 \<noteq> None" by blast
  with i sample_reach_once show ?thesis by blast
qed

text \<open>C38: the limit of one request per pod can be broken. When an endpoint leaves the ready set
  and comes back under the same key before its old token has been received, the key has two
  tokens, and the dispatcher reaches a state in which two requests run on the pod at the same
  time although \<open>podServiceConcurrency\<close> is 1.\<close>

theorem readd_breaks_concurrency:
  "\<exists>s. sample_reach s \<and> podServiceConcurrency = 1 \<and> sm_Inner go_map (pd_endpoints (ps_pd s)) sample_key \<noteq> None \<and>
       count (image_mset fst (ps_inflight s)) sample_key = 2"
proof -
  note r1 = sample_reach_add [OF sample_reach0, unfolded append_Nil]
  note r2 = sample_reach_add [OF sample_reach_del [OF r1], unfolded append_Cons append_Nil]
  note r3 = sample_reach_start [OF sample_reach_start [OF r2, of sample_req], of sample_req]
  show ?thesis
    by (intro exI conjI, rule r3) (simp_all add: podServiceConcurrency_def pd_at_def go_map_def)
qed

text \<open>Waiting for a token. If some token in the channel belongs to a live endpoint and the
  deadline leaves room to receive the tokens in front of it, \<open>dispatch\<close> returns a live
  endpoint with its executor; it drops only tokens of removed endpoints, takes the first live
  one, and changes nothing else of the dispatcher.\<close>

theorem dispatch_first_live:
  assumes "shared_map_laws S" and "chann_laws T" and "length (ch_Items T (pd_tokens pd)) \<le> n"
    and "\<exists>k \<in> set (ch_Items T (pd_tokens pd)). sm_Inner S (pd_endpoints pd) k \<noteq> None"
  shows "\<exists>key a stale pd'. dispatch S T n pd = (Some (key, a), pd') \<and>
     sm_Inner S (pd_endpoints pd) key = Some a \<and>
     ch_Items T (pd_tokens pd) = stale @ key # ch_Items T (pd_tokens pd') \<and>
     (\<forall>k \<in> set stale. sm_Inner S (pd_endpoints pd) k = None) \<and> pd' = pd\<lparr>pd_tokens := pd_tokens pd'\<rparr>"
proof -
  from dispatch_finds [OF assms] obtain key a pd' where d: "dispatch S T n pd = (Some (key, a), pd')" by blast
  from dispatch_live [OF assms(1,2) d] d show ?thesis by blast
qed

theorem dispatch_first_live_witness:
  "\<exists>stale pd'. dispatch go_map fifo 3 (pd_at [''b'' \<mapsto> 4] [''a'', ''b'', ''b''] Map.empty 5) = (Some (''b'', 4), pd') \<and>
     [''a'', ''b'', ''b''] = stale @ ''b'' # pd_tokens pd'"
  using dispatch_first_live [OF go_map_laws fifo_laws, of "pd_at [''b'' \<mapsto> 4] [''a'', ''b'', ''b''] Map.empty 5" 3]
  by (auto simp: pd_at_def go_map_def fifo_def split: if_splits)

end
