(* ===== verification/Metric.thy ===== *)
theory Metric
  imports Extern
begin

text \<open>
  \<open>src/pkg/autoscaler/metric\<close>: request statistics and their collection. \<open>stats.go\<close> integrates the
  concurrency of a target over time in binary64 arithmetic; \<open>collector.go\<close> samples it into four
  knative buckets (a parameter). The clock reading of a call is an argument.

  The abstract statistics \<open>astats\<close> count in integers and whole seconds; the refinement lemma says
  that the floating-point code computes exactly what they say as long as the totals stay within
  the 53 bits of a significand.
\<close>

section \<open>stats.go\<close>

record RequestStats =
  rs_Key :: string
  rs_concurrency :: f64
  rs_concurrencyIntegral :: f64
  rs_requestCount :: f64
  rs_lastChange :: time
  rs_secondsInUse :: f64

record RequestStatsReport =
  rp_AverageConcurrency :: f64
  rp_RequestCount :: f64

definition NewRequestStats :: "string \<Rightarrow> RequestStats" where
  "NewRequestStats key =
     \<lparr> rs_Key = key, rs_concurrency = Fin 0, rs_concurrencyIntegral = Fin 0, rs_requestCount = Fin 0,
       rs_lastChange = 0, rs_secondsInUse = Fin 0 \<rparr>"

definition Move :: "time \<Rightarrow> RequestStats \<Rightarrow> RequestStats" where
  "Move now s =
     (if t_IsZero (rs_lastChange s) then s\<lparr>rs_lastChange := now\<rparr>
      else
        (let durationSinceChange = t_Sub now (rs_lastChange s)
         in if durationSinceChange > 0 then
              (let durationSecs = d_Seconds durationSinceChange
               in s\<lparr>rs_secondsInUse := f_add (rs_secondsInUse s) durationSecs,
                    rs_concurrencyIntegral := f_add (rs_concurrencyIntegral s) (f_mul (rs_concurrency s) durationSecs),
                    rs_lastChange := now\<rparr>)
            else s))"

definition stats_ReqIn :: "time \<Rightarrow> RequestStats \<Rightarrow> f64 \<times> RequestStats" where
  "stats_ReqIn now s =
     (let s1 = Move now s;
          s2 = s1\<lparr>rs_concurrency := f_add (rs_concurrency s1) (Fin 1), rs_requestCount := f_add (rs_requestCount s1) (Fin 1)\<rparr>
      in (rs_concurrency s2, s2))"

definition stats_ReqOut :: "time \<Rightarrow> RequestStats \<Rightarrow> f64 \<times> RequestStats" where
  "stats_ReqOut now s =
     (let s1 = Move now s; s2 = s1\<lparr>rs_concurrency := f_sub (rs_concurrency s1) (Fin 1)\<rparr>
      in (rs_concurrency s2, s2))"

definition reset :: "RequestStats \<Rightarrow> RequestStats" where
  "reset s = s\<lparr>rs_concurrencyIntegral := Fin 0, rs_requestCount := Fin 0, rs_secondsInUse := Fin 0\<rparr>"

definition Report :: "time \<Rightarrow> RequestStats \<Rightarrow> RequestStatsReport \<times> RequestStats" where
  "Report now s =
     (let s1 = Move now s
      in (\<lparr> rp_AverageConcurrency =
              (if f_lt (Fin 0) (rs_secondsInUse s1) then f_div (rs_concurrencyIntegral s1) (rs_secondsInUse s1) else Fin 0),
            rp_RequestCount = rs_requestCount s1 \<rparr>, reset s1))"

definition InstantConcurrency :: "RequestStats \<Rightarrow> f64" where
  "InstantConcurrency s = rs_concurrency s"

section \<open>collector.go\<close>

record 'b Collector =
  co_RequestStats :: RequestStats
  co_concurrencyBuckets :: 'b
  co_concurrencyPanicBuckets :: 'b
  co_requestCountBuckets :: 'b
  co_requestCountPanicBuckets :: 'b
  co_collectInterval :: duration

definition NewCollector :: "'b buckets \<Rightarrow> string \<Rightarrow> duration \<Rightarrow> duration \<Rightarrow> duration \<Rightarrow> 'b Collector" where
  "NewCollector B key stableWindow panicWindow granularity =
     \<lparr> co_RequestStats = NewRequestStats key,
       co_concurrencyBuckets = bk_New B stableWindow granularity,
       co_concurrencyPanicBuckets = bk_New B panicWindow granularity,
       co_requestCountBuckets = bk_New B stableWindow granularity,
       co_requestCountPanicBuckets = bk_New B panicWindow granularity,
       co_collectInterval = granularity \<rparr>"

definition collect :: "'b buckets \<Rightarrow> time \<Rightarrow> 'b Collector \<Rightarrow> 'b Collector" where
  "collect B now c =
     (let (report, s) = Report now (co_RequestStats c)
      in c\<lparr>co_RequestStats := s,
           co_concurrencyBuckets := bk_Record B (co_concurrencyBuckets c) now (rp_AverageConcurrency report),
           co_concurrencyPanicBuckets := bk_Record B (co_concurrencyPanicBuckets c) now (rp_AverageConcurrency report),
           co_requestCountBuckets := bk_Record B (co_requestCountBuckets c) now (rp_RequestCount report),
           co_requestCountPanicBuckets := bk_Record B (co_requestCountPanicBuckets c) now (rp_RequestCount report)\<rparr>)"

definition StableAndPanicConcurrency :: "'b buckets \<Rightarrow> time \<Rightarrow> 'b Collector \<Rightarrow> f64 \<times> f64" where
  "StableAndPanicConcurrency B now c =
     (bk_WindowAverage B (co_concurrencyBuckets c) now, bk_WindowAverage B (co_concurrencyPanicBuckets c) now)"

definition StableAndPanicAndInstantConcurrency :: "'b buckets \<Rightarrow> time \<Rightarrow> 'b Collector \<Rightarrow> f64 \<times> f64 \<times> f64" where
  "StableAndPanicAndInstantConcurrency B now c =
     (bk_WindowAverage B (co_concurrencyBuckets c) now, bk_WindowAverage B (co_concurrencyPanicBuckets c) now,
      InstantConcurrency (co_RequestStats c))"

definition StableAndPanicRequestCount :: "'b buckets \<Rightarrow> time \<Rightarrow> 'b Collector \<Rightarrow> f64 \<times> f64" where
  "StableAndPanicRequestCount B now c =
     (bk_WindowAverage B (co_requestCountBuckets c) now, bk_WindowAverage B (co_requestCountPanicBuckets c) now)"

text \<open>The collector loop on the ticks it receives until its context is done.\<close>

fun collector_Run :: "'b buckets \<Rightarrow> time list \<Rightarrow> 'b Collector \<Rightarrow> 'b Collector" where
  "collector_Run B [] c = c"
| "collector_Run B (now # ticks) c = collector_Run B ticks (collect B now c)"

section \<open>Abstract statistics\<close>

record astats =
  as_conc :: int
  as_integral :: int
  as_count :: int
  as_secs :: int
  as_last :: "int option"

datatype stats_event = In int | Out int | Rep int

definition a_move :: "int \<Rightarrow> astats \<Rightarrow> astats" where
  "a_move t a =
     (case as_last a of
        None \<Rightarrow> a\<lparr>as_last := Some t\<rparr>
      | Some l \<Rightarrow> if l < t then a\<lparr>as_secs := as_secs a + (t - l), as_integral := as_integral a + as_conc a * (t - l), as_last := Some t\<rparr>
                   else a)"

text \<open>What a report shows: the number of requests, and the time-weighted average concurrency as
  a numerator and a denominator in seconds.\<close>

fun a_step :: "stats_event \<Rightarrow> astats \<Rightarrow> (int \<times> int \<times> int) list \<times> astats" where
  "a_step (In t) a = (let a1 = a_move t a in ([], a1\<lparr>as_conc := as_conc a1 + 1, as_count := as_count a1 + 1\<rparr>))"
| "a_step (Out t) a = (let a1 = a_move t a in ([], a1\<lparr>as_conc := as_conc a1 - 1\<rparr>))"
| "a_step (Rep t) a =
     (let a1 = a_move t a
      in ([(as_count a1, as_integral a1, as_secs a1)], a1\<lparr>as_integral := 0, as_count := 0, as_secs := 0\<rparr>))"

fun c_step :: "stats_event \<Rightarrow> RequestStats \<Rightarrow> RequestStatsReport list \<times> RequestStats" where
  "c_step (In t) s = ([], snd (stats_ReqIn (t * Second) s))"
| "c_step (Out t) s = ([], snd (stats_ReqOut (t * Second) s))"
| "c_step (Rep t) s = (let (r, s1) = Report (t * Second) s in ([r], s1))"

fun run_steps :: "('e \<Rightarrow> 's \<Rightarrow> 'o list \<times> 's) \<Rightarrow> 'e list \<Rightarrow> 's \<Rightarrow> 'o list \<times> 's" where
  "run_steps f [] s = ([], s)"
| "run_steps f (e # es) s = (let (o1, s1) = f e s; (o2, s2) = run_steps f es s1 in (o1 @ o2, s2))"

fun event_time :: "stats_event \<Rightarrow> int" where
  "event_time (In t) = t" | "event_time (Out t) = t" | "event_time (Rep t) = t"

text \<open>Within the range where binary64 integers are exact; \<open>2 ^ 33\<close> seconds are 272 years.\<close>

definition in_range :: "astats \<Rightarrow> bool" where
  "in_range a \<longleftrightarrow> 0 \<le> as_conc a \<and> as_conc a < 2 ^ 53 \<and> 0 \<le> as_integral a \<and> as_integral a \<le> 2 ^ 53 \<and>
     0 \<le> as_count a \<and> as_count a < 2 ^ 53 \<and> 0 \<le> as_secs a \<and> as_secs a \<le> 2 ^ 33"

fun events_ok :: "stats_event list \<Rightarrow> astats \<Rightarrow> bool" where
  "events_ok [] a = in_range a"
| "events_ok (e # es) a \<longleftrightarrow>
     0 < event_time e \<and> in_range a \<and> in_range (a_move (event_time e) a) \<and> events_ok es (snd (a_step e a))"

definition astats0 :: astats where
  "astats0 = \<lparr> as_conc = 0, as_integral = 0, as_count = 0, as_secs = 0, as_last = None \<rparr>"

definition stats_rel :: "astats \<Rightarrow> RequestStats \<Rightarrow> bool" where
  "stats_rel a s \<longleftrightarrow>
     rs_concurrency s = Fin (of_int (as_conc a)) \<and> rs_concurrencyIntegral s = Fin (of_int (as_integral a)) \<and>
     rs_requestCount s = Fin (of_int (as_count a)) \<and> rs_secondsInUse s = Fin (of_int (as_secs a)) \<and>
     (case as_last a of None \<Rightarrow> rs_lastChange s = 0 | Some l \<Rightarrow> 0 < l \<and> rs_lastChange s = l * Second)"

text \<open>The report the abstract numbers stand for: one correctly rounded division.\<close>

definition report_of :: "int \<times> int \<times> int \<Rightarrow> RequestStatsReport" where
  "report_of = (\<lambda>(count, integral, secs).
     \<lparr> rp_AverageConcurrency = (if secs = 0 then Fin 0 else rnd64 (of_int integral / of_int secs)),
       rp_RequestCount = Fin (of_int count) \<rparr>)"

section \<open>The refinement\<close>

lemma Move_rel:
  assumes r: "stats_rel a s" and t: "0 < t" and ia: "in_range a" and im: "in_range (a_move t a)"
  shows "stats_rel (a_move t a) (Move (t * Second) s)"
proof (cases "as_last a")
  case None
  with r t show ?thesis by (auto simp: stats_rel_def a_move_def Move_def t_IsZero_def)
next
  case (Some l)
  with r have l: "0 < l" "rs_lastChange s = l * Second" by (auto simp: stats_rel_def)
  then have nz: "\<not> t_IsZero (rs_lastChange s)" by (simp add: t_IsZero_def Second_def)
  show ?thesis
  proof (cases "l < t")
    case False
    then have "t_Sub (t * Second) (l * Second) \<le> 0" by (simp add: t_Sub_le_0_iff Second_def)
    with False nz l Some r show ?thesis by (simp add: a_move_def Move_def)
  next
    case True
    define k where "k = t - l"
    have k: "0 < k" "k \<le> 2 ^ 33" "as_conc a * k \<le> 2 ^ 53" "0 \<le> as_conc a * k"
      using True im ia Some by (auto simp: k_def a_move_def in_range_def)
    have diff: "t_Sub (t * Second) (l * Second) = k * Second"
      using k(1,2) by (subst t_Sub_exact) (auto simp: k_def left_diff_distrib max_duration_def min_duration_def Second_def)
    have sec: "d_Seconds (k * Second) = Fin (of_int k)" using k(1,2) by (intro d_Seconds_whole) auto
    have mul: "f_mul (rs_concurrency s) (Fin (of_int k)) = Fin (of_int (as_conc a * k))"
      using r k(3,4) f_mul_ints [of "as_conc a" k] by (simp add: stats_rel_def)
    have "\<bar>as_integral a + as_conc a * k\<bar> \<le> 2 ^ 53" "\<bar>as_secs a + k\<bar> \<le> 2 ^ 53"
      using im ia True Some k by (auto simp: a_move_def in_range_def k_def)
    then have add: "f_add (rs_concurrencyIntegral s) (Fin (of_int (as_conc a * k))) = Fin (of_int (as_integral a + as_conc a * k))"
      "f_add (rs_secondsInUse s) (Fin (of_int k)) = Fin (of_int (as_secs a + k))"
      using r f_add_ints [of "as_integral a" "as_conc a * k"] f_add_ints [of "as_secs a" k] by (simp_all add: stats_rel_def)
    have pos: "0 < k * Second" using k(1) by (simp add: Second_def)
    have "Move (t * Second) s = s\<lparr>rs_secondsInUse := Fin (of_int (as_secs a + k)),
        rs_concurrencyIntegral := Fin (of_int (as_integral a + as_conc a * k)), rs_lastChange := t * Second\<rparr>"
      using nz pos unfolding Move_def l(2) diff by (simp only: Let_def sec mul add if_True if_False)
    moreover have "a_move t a = a\<lparr>as_secs := as_secs a + k, as_integral := as_integral a + as_conc a * k, as_last := Some t\<rparr>"
      using True Some by (simp add: a_move_def k_def)
    ultimately show ?thesis using r t by (simp add: stats_rel_def)
  qed
qed

lemma c_step_rel:
  assumes r: "stats_rel a s" and t: "0 < event_time e" and ia: "in_range a" and im: "in_range (a_move (event_time e) a)"
    and "in_range (snd (a_step e a))"
  shows "fst (c_step e s) = map report_of (fst (a_step e a)) \<and> stats_rel (snd (a_step e a)) (snd (c_step e s))"
proof -
  define a1 where "a1 = a_move (event_time e) a"
  define s1 where "s1 = Move (event_time e * Second) s"
  have m: "stats_rel a1 s1" unfolding a1_def s1_def by (rule Move_rel [OF r t ia im])
  have i1: "in_range a1" using im by (simp add: a1_def)
  have div: "f_div (Fin (of_int x)) (Fin (of_int y)) = rnd64 (of_int x / of_int y)" if "0 < y" for x y :: int
    using that by (simp add: f_div_def)
  show ?thesis
  proof (cases e)
    case (In u)
    have "f_add (rs_concurrency s1) (Fin 1) = Fin (of_int (as_conc a1 + 1))"
      "f_add (rs_requestCount s1) (Fin 1) = Fin (of_int (as_count a1 + 1))"
      using m i1 f_add_ints [of _ 1] by (auto simp: stats_rel_def in_range_def)
    with In m show ?thesis
      by (auto simp: stats_ReqIn_def Let_def stats_rel_def a1_def s1_def split: option.splits)
  next
    case (Out u)
    have "f_sub (rs_concurrency s1) (Fin 1) = Fin (of_int (as_conc a1 - 1))"
      using m i1 f_sub_ints [of "as_conc a1" 1] by (auto simp: stats_rel_def in_range_def)
    with Out m show ?thesis
      by (auto simp: stats_ReqOut_def Let_def stats_rel_def a1_def s1_def split: option.splits)
  next
    case (Rep u)
    have "0 \<le> as_secs a1" using i1 by (simp add: in_range_def)
    with Rep m show ?thesis
      by (auto simp: Report_def reset_def Let_def stats_rel_def report_of_def div a1_def s1_def split: option.splits)
  qed
qed

lemma events_ok_now: "events_ok es a \<Longrightarrow> in_range a"
  by (cases es) auto

lemma run_rel:
  "stats_rel a s \<Longrightarrow> events_ok es a \<Longrightarrow>
   fst (run_steps c_step es s) = map report_of (fst (run_steps a_step es a)) \<and>
   stats_rel (snd (run_steps a_step es a)) (snd (run_steps c_step es s))"
proof (induction es arbitrary: a s)
  case (Cons e es)
  then have st: "fst (c_step e s) = map report_of (fst (a_step e a)) \<and> stats_rel (snd (a_step e a)) (snd (c_step e s))"
    by (intro c_step_rel) (auto dest: events_ok_now)
  with Cons.IH [of "snd (a_step e a)" "snd (c_step e s)"] Cons.prems(2)
  show ?case by (simp add: case_prod_beta Let_def)
qed simp

section \<open>Properties\<close>

text \<open>C23: the floating-point statistics are exact. For any sequence of arrivals, departures and
  reports at whole seconds whose totals stay in the exact range of binary64, the reports of
  the code are those of the integer specification: the number of arrivals since the last
  report, and the time-weighted average concurrency with one rounding; the instantaneous
  concurrency is arrivals minus departures.\<close>

theorem stats_refine:
  assumes "events_ok es astats0"
  shows "fst (run_steps c_step es (NewRequestStats key)) = map report_of (fst (run_steps a_step es astats0)) \<and>
     InstantConcurrency (snd (run_steps c_step es (NewRequestStats key))) =
       Fin (of_int (int (length (filter (\<lambda>e. \<exists>t. e = In t) es)) - int (length (filter (\<lambda>e. \<exists>t. e = Out t) es))))"
proof -
  have conc: "as_conc (snd (run_steps a_step es a)) =
      as_conc a + int (length (filter (\<lambda>e. \<exists>t. e = In t) es)) - int (length (filter (\<lambda>e. \<exists>t. e = Out t) es))" for a
  proof (induction es arbitrary: a)
    case (Cons e es)
    then show ?case by (cases e) (auto simp: case_prod_beta Let_def a_move_def split: option.splits)
  qed simp
  have "stats_rel astats0 (NewRequestStats key)" by (simp add: stats_rel_def astats0_def NewRequestStats_def)
  from run_rel [OF this assms] conc [of astats0] show ?thesis
    by (simp add: stats_rel_def InstantConcurrency_def astats0_def)
qed

theorem stats_refine_witness:
  "map (\<lambda>r. (rp_AverageConcurrency r, rp_RequestCount r))
     (fst (run_steps c_step [In 5, In 7, Rep 9, Out 10, Rep 11] (NewRequestStats ''f''))) = [(rnd64 (6 / 4), Fin 2), (rnd64 (3 / 2), Fin 0)]"
proof -
  have "events_ok [In 5, In 7, Rep 9, Out 10, Rep 11] astats0" by (simp add: astats0_def in_range_def a_move_def Let_def)
  from stats_refine [OF this, of "''f''"] show ?thesis
    by (simp add: astats0_def a_move_def Let_def report_of_def)
qed

end
