(* ===== verification/Decider.thy ===== *)
theory Decider
  imports Metric
begin

text \<open>
  \<open>src/pkg/autoscaler/decider\<close>: how many pods a target needs. \<open>kpa.go\<close> is the Knative algorithm
  (stable and panic windows, scale rates, scale-down delay) in binary64 arithmetic; knative's
  buckets and time window are parameters. \<open>Reconcile\<close> is split at the blocks of the source:
  the rate limits, the panic state, the pod count of the mode, the delay.

  The locale \<open>decider\<close> is the Go interface with what the autoscaler relies on.
\<close>

section \<open>kpa.go\<close>

record ('b, 'w) KPADecider =
  kp_Collector :: "'b Collector"
  kp_active :: int
  kp_targetValue :: f64
  kp_maxScaleUpRate :: f64
  kp_maxScaleDownRate :: f64
  kp_stableWindow :: duration
  kp_panicWindow :: duration
  kp_panicThreshold :: f64
  kp_delayWindow :: "'w option"
  kp_tickInterval :: duration
  kp_panicTime :: time
  kp_maxPanicPods :: int
  kp_desiredScale :: int

definition NewKPADecider ::
  "'b buckets \<Rightarrow> 'w window \<Rightarrow> string \<Rightarrow> f64 \<Rightarrow> f64 \<Rightarrow> f64 \<Rightarrow> duration \<Rightarrow> duration \<Rightarrow> f64 \<Rightarrow> duration \<Rightarrow> duration \<Rightarrow>
   ('b, 'w) KPADecider" where
  "NewKPADecider B W key targetValue maxScaleUpRate maxScaleDownRate stableWindow panicWindow panicThreshold
     scaleDownDelay tickInterval =
     (let d = \<lparr> kp_Collector = NewCollector B key stableWindow panicWindow (1 * Second), kp_active = 0,
                kp_targetValue = targetValue, kp_maxScaleUpRate = maxScaleUpRate, kp_maxScaleDownRate = maxScaleDownRate,
                kp_stableWindow = stableWindow, kp_panicWindow = panicWindow, kp_panicThreshold = panicThreshold,
                kp_delayWindow = None, kp_tickInterval = tickInterval, kp_panicTime = 0, kp_maxPanicPods = 0,
                kp_desiredScale = 0 \<rparr>
      in if scaleDownDelay > 0 then d\<lparr>kp_delayWindow := Some (tw_New W scaleDownDelay tickInterval)\<rparr> else d)"

text \<open>\<open>Activate\<close>: a compare-and-swap; \<open>True\<close> goes with the collector goroutine being started.\<close>

definition Activate :: "('b, 'w) KPADecider \<Rightarrow> bool \<times> ('b, 'w) KPADecider" where
  "Activate k = (if kp_active k = 0 then (True, k\<lparr>kp_active := 1\<rparr>) else (False, k))"

definition kp_ReqIn :: "time \<Rightarrow> ('b, 'w) KPADecider \<Rightarrow> f64 \<times> ('b, 'w) KPADecider" where
  "kp_ReqIn now k =
     (let (c, s) = stats_ReqIn now (co_RequestStats (kp_Collector k))
      in (c, k\<lparr>kp_Collector := (kp_Collector k)\<lparr>co_RequestStats := s\<rparr>\<rparr>))"

definition kp_ReqOut :: "time \<Rightarrow> ('b, 'w) KPADecider \<Rightarrow> f64 \<times> ('b, 'w) KPADecider" where
  "kp_ReqOut now k =
     (let (c, s) = stats_ReqOut now (co_RequestStats (kp_Collector k))
      in (c, k\<lparr>kp_Collector := (kp_Collector k)\<lparr>co_RequestStats := s\<rparr>\<rparr>))"

definition scale_bounds :: "('b, 'w) KPADecider \<Rightarrow> int \<Rightarrow> bool \<Rightarrow> f64 \<Rightarrow> f64 \<times> f64" where
  "scale_bounds k currentReady isScalingFromZero observedInstantValue =
     (let up = f_ceil (f_mul (kp_maxScaleUpRate k) (f_of_int currentReady));
          low = f_floor (f_div (f_of_int currentReady) (kp_maxScaleDownRate k))
      in if isScalingFromZero \<and> f_lt (Fin 0) observedInstantValue
         then (f_max up (Fin 1), f_max low (Fin 1)) else (up, low))"

definition clamp_count :: "f64 \<Rightarrow> f64 \<Rightarrow> f64 \<Rightarrow> int" where
  "clamp_count dpc lowerbound upperbound = f_to_int (f_min (f_max dpc lowerbound) upperbound)"

definition panic_step :: "time \<Rightarrow> bool \<Rightarrow> ('b, 'w) KPADecider \<Rightarrow> ('b, 'w) KPADecider" where
  "panic_step now isOverPanicThreshold k =
     (if t_IsZero (kp_panicTime k) \<and> isOverPanicThreshold then k\<lparr>kp_panicTime := now\<rparr>
      else if isOverPanicThreshold then k\<lparr>kp_panicTime := now\<rparr>
      else if \<not> t_IsZero (kp_panicTime k) \<and> \<not> isOverPanicThreshold \<and>
              t_Before (t_Add (kp_panicTime k) (kp_stableWindow k)) now
      then k\<lparr>kp_panicTime := 0, kp_maxPanicPods := 0\<rparr>
      else k)"

definition mode_count :: "int \<Rightarrow> int \<Rightarrow> ('b, 'w) KPADecider \<Rightarrow> int \<times> ('b, 'w) KPADecider" where
  "mode_count desiredStablePodCount desiredPanicPodCount k =
     (if \<not> t_IsZero (kp_panicTime k) then
        (let d = (if desiredStablePodCount < desiredPanicPodCount then desiredPanicPodCount else desiredStablePodCount);
             k' = (if d > kp_maxPanicPods k then k\<lparr>kp_maxPanicPods := d\<rparr> else k)
         in (kp_maxPanicPods k', k'))
      else (desiredStablePodCount, k))"

definition delay_step :: "'w window \<Rightarrow> time \<Rightarrow> int \<Rightarrow> ('b, 'w) KPADecider \<Rightarrow> int \<times> ('b, 'w) KPADecider" where
  "delay_step W now desiredPodCount k =
     (case kp_delayWindow k of
        None \<Rightarrow> (desiredPodCount, k)
      | Some w \<Rightarrow>
          (let w' = tw_Record W w now (int32 desiredPodCount); delayedPodCount = tw_Current W w'
           in (delayedPodCount, k\<lparr>kp_delayWindow := Some w'\<rparr>)))"

definition Reconcile_counts ::
  "'b buckets \<Rightarrow> time \<Rightarrow> int \<Rightarrow> ('b, 'w) KPADecider \<Rightarrow> int \<times> int \<times> bool" where
  "Reconcile_counts B now ready k =
     (let (observedStableValue, observedPanicValue, observedInstantValue) =
            StableAndPanicAndInstantConcurrency B now (kp_Collector k);
          isScalingFromZero = (ready = 0);
          currentReady = f_to_int (f_max (Fin 1) (f_of_int ready));
          (upperbound, lowerbound) = scale_bounds k currentReady isScalingFromZero observedInstantValue;
          dspc = f_ceil (f_div observedStableValue (kp_targetValue k));
          dppc = f_ceil (f_div observedPanicValue (kp_targetValue k))
      in (clamp_count dspc lowerbound upperbound, clamp_count dppc lowerbound upperbound,
          f_le (kp_panicThreshold k) (f_div dppc (f_of_int currentReady))))"

definition kp_Reconcile ::
  "'b buckets \<Rightarrow> 'w window \<Rightarrow> time \<Rightarrow> int \<Rightarrow> ('b, 'w) KPADecider \<Rightarrow> int \<times> ('b, 'w) KPADecider" where
  "kp_Reconcile B W now ready k =
     (let (desiredStablePodCount, desiredPanicPodCount, isOverPanicThreshold) = Reconcile_counts B now ready k;
          k1 = panic_step now isOverPanicThreshold k;
          (desired, k2) = mode_count desiredStablePodCount desiredPanicPodCount k1;
          (delayed, k3) = delay_step W now desired k2
      in (delayed, k3\<lparr>kp_desiredScale := int32 delayed\<rparr>))"

definition Desired :: "('b, 'w) KPADecider \<Rightarrow> int" where
  "Desired k = kp_desiredScale k"

section \<open>The Decider interface\<close>

text \<open>\<open>Desired\<close> is the last decision in 32 bits, requests do not change it, and only the first
  \<open>Activate\<close> answers true.\<close>

locale decider =
  fixes reconcile :: "time \<Rightarrow> int \<Rightarrow> 'd \<Rightarrow> int \<times> 'd" and desired :: "'d \<Rightarrow> int"
    and activate :: "'d \<Rightarrow> bool \<times> 'd" and req_in :: "time \<Rightarrow> 'd \<Rightarrow> f64 \<times> 'd" and req_out :: "time \<Rightarrow> 'd \<Rightarrow> f64 \<times> 'd"
  assumes desired_reconcile: "desired (snd (reconcile now n d)) = int32 (fst (reconcile now n d))"
    and desired_in: "desired (snd (req_in now d)) = desired d"
    and desired_out: "desired (snd (req_out now d)) = desired d"
    and desired_activate: "desired (snd (activate d)) = desired d"
    and activate_once: "fst (activate d) \<Longrightarrow> \<not> fst (activate (snd (activate d)))"
    and activate_stays: "\<not> fst (activate d) \<Longrightarrow> snd (activate d) = d"
    and active_in: "fst (activate (snd (req_in now d))) = fst (activate d)"
    and active_out: "fst (activate (snd (req_out now d))) = fst (activate d)"
    and active_reconcile: "fst (activate (snd (reconcile now n d))) = fst (activate d)"
begin

text \<open>An activated decider stays activated under every operation.\<close>

inductive later :: "'d \<Rightarrow> 'd \<Rightarrow> bool" where
  now: "later d d"
| reconciled: "later d e \<Longrightarrow> later d (snd (reconcile t n e))"
| arrived: "later d e \<Longrightarrow> later d (snd (req_in t e))"
| departed: "later d e \<Longrightarrow> later d (snd (req_out t e))"
| activated: "later d e \<Longrightarrow> later d (snd (activate e))"

lemma activated_at_most_once: "later (snd (activate d)) e \<Longrightarrow> \<not> fst (activate e)"
proof (induction "snd (activate d)" e rule: later.induct)
  case now
  then show ?case using activate_once activate_stays by metis
next
  case (activated e)
  then show ?case by (simp add: activate_stays)
qed (auto simp: active_in active_out active_reconcile)

lemma desired_kept_until_reconcile: "desired (snd (req_in t (snd (activate d)))) = desired d"
  by (simp add: desired_in desired_activate)

end

lemma kp_collector_frame:
  "kp_desiredScale (snd (kp_ReqIn now k)) = kp_desiredScale k" "kp_active (snd (kp_ReqIn now k)) = kp_active k"
  "kp_desiredScale (snd (kp_ReqOut now k)) = kp_desiredScale k" "kp_active (snd (kp_ReqOut now k)) = kp_active k"
  by (simp_all add: kp_ReqIn_def kp_ReqOut_def case_prod_beta Let_def)

lemma panic_step_frame [simp]:
  "kp_active (panic_step now b k) = kp_active k" "kp_delayWindow (panic_step now b k) = kp_delayWindow k"
  "kp_stableWindow (panic_step now b k) = kp_stableWindow k"
  by (simp_all add: panic_step_def)

lemma mode_count_frame [simp]:
  "kp_active (snd (mode_count a b k)) = kp_active k" "kp_delayWindow (snd (mode_count a b k)) = kp_delayWindow k"
  "kp_panicTime (snd (mode_count a b k)) = kp_panicTime k" "kp_stableWindow (snd (mode_count a b k)) = kp_stableWindow k"
  by (simp_all add: mode_count_def Let_def)

lemma delay_step_frame [simp]:
  "kp_active (snd (delay_step W now n k)) = kp_active k" "kp_panicTime (snd (delay_step W now n k)) = kp_panicTime k"
  "kp_maxPanicPods (snd (delay_step W now n k)) = kp_maxPanicPods k"
  "kp_stableWindow (snd (delay_step W now n k)) = kp_stableWindow k"
  by (simp_all add: delay_step_def Let_def split: option.splits)

lemma kp_Reconcile_eq:
  "kp_Reconcile B W now ready k =
     (let (st, pa, over) = Reconcile_counts B now ready k;
          m = mode_count st pa (panic_step now over k);
          r = delay_step W now (fst m) (snd m)
      in (fst r, (snd r)\<lparr>kp_desiredScale := int32 (fst r)\<rparr>))"
  by (simp add: kp_Reconcile_def case_prod_beta Let_def)

interpretation kpa: decider "kp_Reconcile B W" Desired Activate kp_ReqIn kp_ReqOut for B W
  by unfold_locales
    (auto simp: Desired_def Activate_def kp_collector_frame kp_Reconcile_eq case_prod_beta Let_def split: if_splits)

section \<open>Rate limits\<close>

lemma f_to_int_small: "\<bar>n\<bar> \<le> 2 ^ 53 \<Longrightarrow> f_to_int (Fin (of_int n)) = n"
  by (rule f_to_int_of_int) (auto simp: abs_le_iff)

lemma clamp_in:
  assumes "dpc \<noteq> NaN" and "0 \<le> l" and "l \<le> u" and "u \<le> 2 ^ 53"
  shows "l \<le> clamp_count (f_ceil dpc) (Fin (of_int l)) (Fin (of_int u)) \<and>
         clamp_count (f_ceil dpc) (Fin (of_int l)) (Fin (of_int u)) \<le> u"
proof (cases dpc)
  case (Fin x)
  have "f_min (f_max (f_ceil dpc) (Fin (of_int l))) (Fin (of_int u)) = Fin (of_int (min (max \<lceil>x\<rceil> l) u))"
    by (simp add: Fin min_def max_def)
  moreover have "\<bar>min (max \<lceil>x\<rceil> l) u\<bar> \<le> 2 ^ 53" using assms by auto
  ultimately show ?thesis using assms unfolding clamp_count_def by (simp add: f_to_int_small)
next
  case PInf
  then have "f_min (f_max (f_ceil dpc) (Fin (of_int l))) (Fin (of_int u)) = Fin (of_int u)"
    by (simp add: f_max_def f_min_def)
  then show ?thesis using assms unfolding clamp_count_def by (simp add: f_to_int_small)
next
  case NInf
  then have "f_min (f_max (f_ceil dpc) (Fin (of_int l))) (Fin (of_int u)) = Fin (of_int l)"
    using assms by (simp add: f_max_def)
  then show ?thesis using assms unfolding clamp_count_def by (simp add: f_to_int_small)
qed (use assms in simp)

text \<open>A sensible configuration: rates of at least one, a positive target.\<close>

definition rates_ok :: "('b, 'w) KPADecider \<Rightarrow> rat \<Rightarrow> rat \<Rightarrow> bool" where
  "rates_ok k u d \<longleftrightarrow> kp_maxScaleUpRate k = Fin u \<and> kp_maxScaleDownRate k = Fin d \<and> 1 \<le> u \<and> u \<le> 2 ^ 20 \<and> 1 \<le> d \<and>
     (\<exists>t. kp_targetValue k = Fin t \<and> 0 < t)"

lemma current_ready:
  "0 \<le> n \<Longrightarrow> n \<le> 2 ^ 31 \<Longrightarrow> f_to_int (f_max (Fin 1) (f_of_int n)) = max 1 n"
proof -
  assume n: "0 \<le> n" "n \<le> 2 ^ 31"
  then have "f_max (Fin 1) (f_of_int n) = Fin (of_int (max 1 n))"
    by (simp add: f_of_int_exact max_def)
  moreover have "f_to_int (Fin (of_int (max 1 n))) = max 1 n" using n by (intro f_to_int_small) auto
  ultimately show ?thesis by (rule forw_subst)
qed

lemma scale_bounds_ints:
  assumes r: "rates_ok k u d" and c: "1 \<le> c" "c \<le> 2 ^ 31"
  shows "\<exists>up low. scale_bounds k c zero inst = (Fin (of_int up), Fin (of_int low)) \<and>
     \<lfloor>of_int c / d\<rfloor> \<le> low \<and> 0 \<le> low \<and> low \<le> up \<and> up \<le> \<lceil>u * of_int c\<rceil> \<and> up \<le> 2 ^ 53 \<and>
     (zero \<and> f_lt (Fin 0) inst \<longrightarrow> 1 \<le> low)"
proof -
  from r have ud: "1 \<le> u" "u \<le> 2 ^ 20" "1 \<le> d" by (auto simp: rates_ok_def)
  have "of_int c \<le> u * of_int c" using ud(1) c(1) by simp
  have "of_int c \<le> (of_int (2 ^ 31) :: rat)" using c(2) by (simp only: of_int_le_iff)
  then have "of_int c \<le> (2 ^ 31 :: rat)" by simp
  then have "u * of_int c \<le> 2 ^ 20 * 2 ^ 31"
    using ud(2) c(1) by (intro mult_mono) auto
  then have uc: "of_int c \<le> u * of_int c" "\<lceil>u * of_int c\<rceil> \<le> 2 ^ 51" using \<open>of_int c \<le> u * of_int c\<close> by (auto simp: ceiling_le_iff)
  have "c \<le> \<lceil>u * of_int c\<rceil>" using uc(1) by (metis ceiling_mono ceiling_of_int)
  then obtain r2 where r2: "rnd64 (u * of_int c) = Fin r2" "of_int c \<le> r2" "r2 \<le> of_int \<lceil>u * of_int c\<rceil>"
    using go_round.rnd_within [of c "\<lceil>u * of_int c\<rceil>" "u * of_int c"] uc c by auto
  have q: "0 \<le> of_int c / d" "of_int c / d \<le> of_int c"
    using c(1) ud(3) by (auto simp: divide_le_eq)
  then have fl: "0 \<le> \<lfloor>of_int c / d\<rfloor>" "\<lfloor>of_int c / d\<rfloor> \<le> c" by (auto simp: floor_le_iff)
  then obtain r1 where r1: "rnd64 (of_int c / d) = Fin r1" "of_int \<lfloor>of_int c / d\<rfloor> \<le> r1" "r1 \<le> of_int c"
    using go_round.rnd_within [of "\<lfloor>of_int c / d\<rfloor>" c "of_int c / d"] q c by auto
  define up low where "up = \<lceil>r2\<rceil>" and "low = \<lfloor>r1\<rfloor>"
  have b: "\<lfloor>of_int c / d\<rfloor> \<le> low" "low \<le> c" "c \<le> up"
    using r1(2,3) r2(2,3) by (auto simp: up_def low_def le_floor_iff floor_le_iff le_ceiling_iff)
  moreover have "up \<le> \<lceil>u * of_int c\<rceil>" unfolding up_def using r2(3) by (rule ceiling_le)
  ultimately have b: "\<lfloor>of_int c / d\<rfloor> \<le> low" "low \<le> c" "c \<le> up" "up \<le> \<lceil>u * of_int c\<rceil>" by auto
  have lim: "0 \<le> low" "low \<le> up" "up \<le> 2 ^ 53" using order_trans [OF fl(1) b(1)] b(2,3) order_trans [OF b(4) uc(2)] by simp_all
  have fc: "f_of_int c = Fin (of_int c)" using c by (intro f_of_int_exact) auto
  have "d \<noteq> 0" using ud(3) by auto
  with r fc r1(1) r2(1) have base: "f_ceil (f_mul (kp_maxScaleUpRate k) (f_of_int c)) = Fin (of_int up)"
    "f_floor (f_div (f_of_int c) (kp_maxScaleDownRate k)) = Fin (of_int low)"
    by (auto simp: rates_ok_def f_mul_def f_div_def up_def low_def)
  show ?thesis
  proof (cases "zero \<and> f_lt (Fin 0) inst")
    case False
    with b lim show ?thesis
      by - (rule exI [of _ up], rule exI [of _ low], auto simp: scale_bounds_def base Let_def)
  next
    case True
    have "f_max (Fin (of_int up)) (Fin 1) = Fin (of_int (max up 1))" "f_max (Fin (of_int low)) (Fin 1) = Fin (of_int (max low 1))"
      by (simp_all add: max_def)
    with True b lim c show ?thesis
      by - (rule exI [of _ "max up 1"], rule exI [of _ "max low 1"], auto simp: scale_bounds_def base Let_def)
  qed
qed

text \<open>The averages of the buckets are numbers.\<close>

definition averages_ok :: "'b buckets \<Rightarrow> time \<Rightarrow> ('b, 'w) KPADecider \<Rightarrow> bool" where
  "averages_ok B now k \<longleftrightarrow>
     bk_WindowAverage B (co_concurrencyBuckets (kp_Collector k)) now \<noteq> NaN \<and>
     bk_WindowAverage B (co_concurrencyPanicBuckets (kp_Collector k)) now \<noteq> NaN"

lemma counts_bounds:
  assumes r: "rates_ok k u d" and n: "0 \<le> n" "n \<le> 2 ^ 31" and a: "averages_ok B now k"
    and e: "Reconcile_counts B now n k = (st, pa, over)"
  shows "\<forall>x \<in> {st, pa}. \<lfloor>of_int (max 1 n) / d\<rfloor> \<le> x \<and> 0 \<le> x \<and> x \<le> \<lceil>u * of_int (max 1 n)\<rceil> \<and>
     (n = 0 \<longrightarrow> f_lt (Fin 0) (InstantConcurrency (co_RequestStats (kp_Collector k))) \<longrightarrow> 1 \<le> x)"
proof -
  let ?inst = "InstantConcurrency (co_RequestStats (kp_Collector k))"
  have c: "1 \<le> max 1 n" "max 1 n \<le> 2 ^ 31" using n by auto
  obtain up low where sb: "scale_bounds k (max 1 n) (n = 0) ?inst = (Fin (of_int up), Fin (of_int low))"
    and b: "\<lfloor>of_int (max 1 n) / d\<rfloor> \<le> low" "0 \<le> low" "low \<le> up" "up \<le> \<lceil>u * of_int (max 1 n)\<rceil>" "up \<le> 2 ^ 53"
      "n = 0 \<and> f_lt (Fin 0) ?inst \<longrightarrow> 1 \<le> low"
    using scale_bounds_ints [OF r c, of "n = 0" ?inst] by blast
  obtain t where t: "kp_targetValue k = Fin t" "0 < t" using r by (auto simp: rates_ok_def)
  have div: "f_div x (Fin t) \<noteq> NaN" if "x \<noteq> NaN" for x using that t(2) by (cases x) (auto simp: f_div_def f_inf_def)
  have in_bounds: "low \<le> clamp_count (f_ceil (f_div x (kp_targetValue k))) (Fin (of_int low)) (Fin (of_int up)) \<and>
      clamp_count (f_ceil (f_div x (kp_targetValue k))) (Fin (of_int low)) (Fin (of_int up)) \<le> up" if "x \<noteq> NaN" for x
    unfolding t(1) by (rule clamp_in [OF div [OF that] b(2,3,5)])
  have "low \<le> st \<and> st \<le> up \<and> low \<le> pa \<and> pa \<le> up"
    using e a in_bounds unfolding averages_ok_def
    by (auto simp: Reconcile_counts_def StableAndPanicAndInstantConcurrency_def current_ready [OF n] sb Let_def)
  with b show ?thesis by auto
qed

section \<open>Panic mode\<close>

definition panicking :: "('b, 'w) KPADecider \<Rightarrow> bool" where
  "panicking k \<longleftrightarrow> kp_panicTime k \<noteq> 0"

lemma panic_stays:
  assumes "panicking k" and "0 < now" and "now \<le> kp_panicTime k + kp_stableWindow k"
  shows "panicking (panic_step now over k)" and "kp_maxPanicPods (panic_step now over k) = kp_maxPanicPods k"
    and "kp_panicTime (panic_step now over k) \<in> {now, kp_panicTime k}"
  using assms by (auto simp: panicking_def panic_step_def t_IsZero_def t_Before_def t_Add_def)

lemma mode_count_panic:
  assumes "panicking k"
  shows "fst (mode_count st pa k) = max (kp_maxPanicPods k) (max st pa)"
    and "kp_maxPanicPods (snd (mode_count st pa k)) = max (kp_maxPanicPods k) (max st pa)"
  using assms by (auto simp: mode_count_def panicking_def t_IsZero_def Let_def)

lemma Reconcile_nodelay:
  assumes "Reconcile_counts B now n k = (st, pa, over)" and "kp_delayWindow k = None"
    and "m = mode_count st pa (panic_step now over k)"
  shows "kp_Reconcile B W now n k = (fst m, (snd m)\<lparr>kp_desiredScale := int32 (fst m)\<rparr>)"
proof -
  have "delay_step W now (fst m) (snd m) = (fst m, snd m)" using assms(2,3) by (simp add: delay_step_def)
  with assms(1,3) show ?thesis by (simp add: kp_Reconcile_eq Let_def)
qed

lemma Reconcile_panic:
  assumes "panicking k" and "0 < now" and "now \<le> kp_panicTime k + kp_stableWindow k" and "kp_delayWindow k = None"
  shows "panicking (snd (kp_Reconcile B W now n k))"
    and "kp_maxPanicPods (snd (kp_Reconcile B W now n k)) = fst (kp_Reconcile B W now n k)"
    and "kp_maxPanicPods k \<le> fst (kp_Reconcile B W now n k)"
    and "kp_delayWindow (snd (kp_Reconcile B W now n k)) = None"
    and "kp_panicTime (snd (kp_Reconcile B W now n k)) \<in> {now, kp_panicTime k}"
    and "kp_stableWindow (snd (kp_Reconcile B W now n k)) = kp_stableWindow k"
proof -
  obtain st pa over where c: "Reconcile_counts B now n k = (st, pa, over)" by (metis prod_cases3)
  note p = panic_stays [OF assms(1-3), of over]
  let ?m = "mode_count st pa (panic_step now over k)"
  note eq = Reconcile_nodelay [OF c assms(4) refl, of W]
  have "panicking (snd ?m)" using p(1) by (simp add: panicking_def)
  then show "panicking (snd (kp_Reconcile B W now n k))"
    "kp_maxPanicPods (snd (kp_Reconcile B W now n k)) = fst (kp_Reconcile B W now n k)"
    "kp_maxPanicPods k \<le> fst (kp_Reconcile B W now n k)"
    "kp_delayWindow (snd (kp_Reconcile B W now n k)) = None"
    "kp_panicTime (snd (kp_Reconcile B W now n k)) \<in> {now, kp_panicTime k}"
    "kp_stableWindow (snd (kp_Reconcile B W now n k)) = kp_stableWindow k"
    using p assms(4) mode_count_panic [OF p(1), of st pa] by (simp_all add: eq panicking_def)
qed

text \<open>A sequence of decisions; before each the collector has moved on to \<open>c\<close>.\<close>

fun decisions ::
  "'b buckets \<Rightarrow> 'w window \<Rightarrow> ('b Collector \<times> time \<times> int) list \<Rightarrow> ('b, 'w) KPADecider \<Rightarrow> int list" where
  "decisions B W [] k = []"
| "decisions B W ((c, now, n) # rest) k =
     (let (r, k') = kp_Reconcile B W now n (k\<lparr>kp_Collector := c\<rparr>) in r # decisions B W rest k')"

lemma decisions_panic:
  assumes "panicking k" and "kp_delayWindow k = None" and "p0 \<le> kp_panicTime k" and "0 \<le> p0"
    and "\<And>c now n. (c, now, n) \<in> set ins \<Longrightarrow> p0 \<le> now \<and> 0 < now \<and> now \<le> p0 + kp_stableWindow k"
  shows "sorted (decisions B W ins k) \<and> (\<forall>r \<in> set (decisions B W ins k). kp_maxPanicPods k \<le> r)"
  using assms
proof (induction ins arbitrary: k)
  case (Cons x rest)
  obtain c now n where x: "x = (c, now, n)" by (cases x) auto
  let ?k = "k\<lparr>kp_Collector := c\<rparr>"
  let ?r = "fst (kp_Reconcile B W now n ?k)" and ?k' = "snd (kp_Reconcile B W now n ?k)"
  have now: "p0 \<le> now" "0 < now" "now \<le> p0 + kp_stableWindow k" using Cons.prems(5) [of c now n] x by auto
  have "panicking ?k" "now \<le> kp_panicTime ?k + kp_stableWindow ?k" "kp_delayWindow ?k = None"
    using Cons.prems(1-3) now by (auto simp: panicking_def)
  note R = Reconcile_panic [OF this(1) now(2) this(2,3), of B W n]
  have "sorted (decisions B W rest ?k') \<and> (\<forall>r \<in> set (decisions B W rest ?k'). kp_maxPanicPods ?k' \<le> r)"
    using R(1,4,5,6) Cons.prems(3-5) now by (intro Cons.IH) auto
  with R(2,3) show ?case by (auto simp: x case_prod_beta Let_def)
qed simp

section \<open>Properties\<close>

text \<open>C24: the rate limits hold exactly. With rates of at least one (the up rate at most 2^20), a
  positive target, at most 2^31 pods and bucket averages that are numbers, a decision taken outside panic mode and without a scale-down
  delay lies between the current pods divided by the down rate and the current pods times the
  up rate (current is at least one), rounded outwards in exact arithmetic although the code
  computes in binary64.\<close>

theorem decision_within_rates:
  assumes "rates_ok k u d" and "0 \<le> n" and "n \<le> 2 ^ 31" and "averages_ok B now k"
    and "kp_delayWindow k = None" and "\<not> panicking (snd (kp_Reconcile B W now n k))"
  shows "\<lfloor>of_int (max 1 n) / d\<rfloor> \<le> fst (kp_Reconcile B W now n k) \<and>
         fst (kp_Reconcile B W now n k) \<le> \<lceil>u * of_int (max 1 n)\<rceil>"
proof -
  obtain st pa over where c: "Reconcile_counts B now n k = (st, pa, over)" by (metis prod_cases3)
  note eq = Reconcile_nodelay [OF c assms(5) refl, of W]
  have "kp_panicTime (panic_step now over k) = 0" using assms(6) by (simp add: eq panicking_def)
  then have "fst (kp_Reconcile B W now n k) = st" unfolding eq by (simp add: mode_count_def t_IsZero_def)
  with counts_bounds [OF assms(1-4) c] show ?thesis by auto
qed

definition const_buckets :: "f64 \<Rightarrow> f64 \<Rightarrow> duration buckets" where
  "const_buckets st pa =
     \<lparr> bk_New = (\<lambda>w g. w), bk_Record = (\<lambda>b t v. b), bk_WindowAverage = (\<lambda>b t. if b = 6 * Second then pa else st) \<rparr>"

definition sample_kpa :: "(duration, int) KPADecider" where
  "sample_kpa = NewKPADecider (const_buckets (Fin 0) (Fin 0)) max_window ''default/f'' (Fin 100) (Fin 1000) (Fin 2)
     (60 * Second) (6 * Second) (Fin 2) 0 (2 * Second)"

lemma sample_kpa_ok: "rates_ok sample_kpa 1000 2" "averages_ok (const_buckets (Fin a) (Fin b)) now sample_kpa"
  "kp_delayWindow sample_kpa = None" "kp_panicTime sample_kpa = 0" "kp_maxPanicPods sample_kpa = 0"
  "kp_stableWindow sample_kpa = 60 * Second"
  by (simp_all add: rates_ok_def averages_ok_def sample_kpa_def NewKPADecider_def NewCollector_def const_buckets_def)

lemma sample_kpa_counts:
  "Reconcile_counts (const_buckets (Fin 150) (Fin 150)) now 4 sample_kpa = (2, 2, False)"
proof -
  have q: "f_ceil (f_div (Fin 150) (Fin 100)) = Fin 2"
  proof -
    have "rnd64 (of_int 3 / 2 ^ 1) = Fin (of_int 3 / 2 ^ 1)" by (rule rnd64_dyadic) (simp_all add: emin_scale_def prec_def)
    moreover have "\<lceil>3 / 2 :: rat\<rceil> = 2" by (rule ceiling_unique) simp_all
    ultimately show ?thesis by (simp add: f_div_def)
  qed
  have i: "f_of_int 4 = Fin 4" "f_of_int 2 = Fin 2" using f_of_int_exact [of 4] f_of_int_exact [of 2] by simp_all
  have cur: "f_to_int (Fin 4) = 4" using f_to_int_small [of 4] by simp
  have h: "rnd64 (1 / 2) = Fin (1 / 2)"
    using rnd64_dyadic [of 1 1] by (simp add: emin_scale_def prec_def)
  have "rnd64 (of_int 4000) = Fin (of_int 4000)" "rnd64 (of_int 2) = Fin (of_int 2)" by (rule rnd64_exact; simp)+
  then have b: "scale_bounds sample_kpa 4 False x = (Fin 4000, Fin 2)" for x
    by (simp add: scale_bounds_def sample_kpa_def NewKPADecider_def i f_mul_def f_div_def Let_def)
  have cl: "clamp_count (Fin 2) (Fin 2) (Fin 4000) = 2" using f_to_int_small [of 2] by (simp add: clamp_count_def)
  have k: "kp_targetValue sample_kpa = Fin 100" "kp_panicThreshold sample_kpa = Fin 2"
    by (simp_all add: sample_kpa_def NewKPADecider_def)
  have av: "bk_WindowAverage (const_buckets (Fin 150) (Fin 150)) bb now = Fin 150" for bb by (simp add: const_buckets_def)
  show ?thesis
    by (simp add: Reconcile_counts_def StableAndPanicAndInstantConcurrency_def av k q i cur b cl Let_def)
      (simp add: f_div_def h)
qed

theorem decision_within_rates_witness:
  "2 \<le> fst (kp_Reconcile (const_buckets (Fin 150) (Fin 150)) max_window 7 4 sample_kpa) \<and>
   fst (kp_Reconcile (const_buckets (Fin 150) (Fin 150)) max_window 7 4 sample_kpa) \<le> 4000"
proof -
  note eq = Reconcile_nodelay [OF sample_kpa_counts sample_kpa_ok(3) refl, of max_window 7]
  have "\<not> panicking (snd (kp_Reconcile (const_buckets (Fin 150) (Fin 150)) max_window 7 4 sample_kpa))"
    by (simp add: eq panicking_def panic_step_def sample_kpa_ok t_IsZero_def)
  from decision_within_rates [OF sample_kpa_ok(1) _ _ sample_kpa_ok(2,3) this] show ?thesis by simp
qed

text \<open>C25: no scale-down while panicking. Once in panic mode, and with no scale-down delay, the
  decisions taken within the stable window after the panic began never decrease and never
  fall below the panic maximum, whatever the collector measures in between.\<close>

theorem panic_never_scales_down:
  assumes "panicking k" and "kp_delayWindow k = None" and "0 < kp_panicTime k"
    and "\<And>c now n. (c, now, n) \<in> set ins \<Longrightarrow> kp_panicTime k \<le> now \<and> now \<le> kp_panicTime k + kp_stableWindow k"
  shows "sorted (decisions B W ins k) \<and> (\<forall>r \<in> set (decisions B W ins k). kp_maxPanicPods k \<le> r)"
  using assms(3,4) by (intro decisions_panic [OF assms(1,2) order_refl]) fastforce+

definition panic_kpa :: "(duration, int) KPADecider" where
  "panic_kpa = sample_kpa\<lparr>kp_panicTime := 5, kp_maxPanicPods := 8\<rparr>"

theorem panic_never_scales_down_witness:
  "sorted (decisions (const_buckets (Fin 0) (Fin 0)) max_window
     [(kp_Collector sample_kpa, 6, 4), (kp_Collector sample_kpa, 9, 3)] panic_kpa) \<and>
   list_all (\<lambda>r. 8 \<le> r) (decisions (const_buckets (Fin 0) (Fin 0)) max_window
     [(kp_Collector sample_kpa, 6, 4), (kp_Collector sample_kpa, 9, 3)] panic_kpa)"
proof -
  have k: "panicking panic_kpa" "kp_delayWindow panic_kpa = None" "kp_panicTime panic_kpa = 5"
    "kp_stableWindow panic_kpa = 60 * Second" "kp_maxPanicPods panic_kpa = 8"
    by (simp_all add: panic_kpa_def panicking_def sample_kpa_ok)
  let ?ins = "[(kp_Collector sample_kpa, 6, 4), (kp_Collector sample_kpa, 9, 3)]" and ?B = "const_buckets (Fin 0) (Fin 0)"
  have "sorted (decisions ?B max_window ?ins panic_kpa) \<and>
      (\<forall>r \<in> set (decisions ?B max_window ?ins panic_kpa). kp_maxPanicPods panic_kpa \<le> r)"
    by (rule panic_never_scales_down [OF k(1,2)]) (auto simp: k Second_def)
  then show ?thesis unfolding k(5) list_all_iff .
qed

text \<open>The decider after a sequence of decisions, and whether a decision sees the panic concurrency above the
  threshold.\<close>

fun decided :: "'b buckets \<Rightarrow> 'w window \<Rightarrow> ('b Collector \<times> time \<times> int) list \<Rightarrow> ('b, 'w) KPADecider \<Rightarrow> ('b, 'w) KPADecider" where
  "decided B W [] k = k"
| "decided B W ((c, now, n) # rest) k = decided B W rest (snd (kp_Reconcile B W now n (k\<lparr>kp_Collector := c\<rparr>)))"

fun over_at :: "'b buckets \<Rightarrow> ('b, 'w) KPADecider \<Rightarrow> 'b Collector \<times> time \<times> int \<Rightarrow> bool" where
  "over_at B k (c, now, n) = snd (snd (Reconcile_counts B now n (k\<lparr>kp_Collector := c\<rparr>)))"

text \<open>The last decision above the threshold was taken at \<open>t\<close>, and none since then was taken more than the
  stable window later.\<close>

definition recent_surge :: "'b buckets \<Rightarrow> ('b, 'w) KPADecider \<Rightarrow> ('b Collector \<times> time \<times> int) list \<Rightarrow> time \<Rightarrow> bool" where
  "recent_surge B k ins t \<longleftrightarrow>
     (\<exists>pre c n post. ins = pre @ (c, t, n) # post \<and> over_at B k (c, t, n) \<and>
        (\<forall>x \<in> set post. \<not> over_at B k x \<and> fst (snd x) \<le> t + kp_stableWindow k))"

lemma recent_surge_Nil [simp]: "\<not> recent_surge B k [] t"
  by (simp add: recent_surge_def)

lemma recent_surge_snoc:
  "recent_surge B k (ins @ [(c, now, n)]) t \<longleftrightarrow>
     (if over_at B k (c, now, n) then t = now else recent_surge B k ins t \<and> now \<le> t + kp_stableWindow k)" (is "?l \<longleftrightarrow> ?r")
proof
  assume ?l
  then obtain pre c' n' post where e: "ins @ [(c, now, n)] = pre @ (c', t, n') # post" and o: "over_at B k (c', t, n')"
    and post: "\<forall>x \<in> set post. \<not> over_at B k x \<and> fst (snd x) \<le> t + kp_stableWindow k" by (auto simp: recent_surge_def)
  show ?r
  proof (cases post rule: rev_cases)
    case Nil
    with e o show ?thesis by auto
  next
    case (snoc post' x)
    with e have x: "x = (c, now, n)" "ins = pre @ (c', t, n') # post'" by auto
    moreover have "\<forall>y \<in> set post'. \<not> over_at B k y \<and> fst (snd y) \<le> t + kp_stableWindow k" using post snoc by simp
    ultimately have "recent_surge B k ins t" using o unfolding recent_surge_def by blast
    with post snoc x(1) show ?thesis by auto
  qed
next
  assume r: ?r
  show ?l
  proof (cases "over_at B k (c, now, n)")
    case True
    with r have "ins @ [(c, now, n)] = ins @ (c, t, n) # []" "over_at B k (c, t, n)" by auto
    then show ?thesis unfolding recent_surge_def by fastforce
  next
    case False
    with r obtain pre c' n' post where "ins = pre @ (c', t, n') # post" "over_at B k (c', t, n')"
      "\<forall>x \<in> set post. \<not> over_at B k x \<and> fst (snd x) \<le> t + kp_stableWindow k" "now \<le> t + kp_stableWindow k"
      by (auto simp: recent_surge_def)
    with False have "ins @ [(c, now, n)] = pre @ (c', t, n') # (post @ [(c, now, n)]) \<and> over_at B k (c', t, n') \<and>
        (\<forall>x \<in> set (post @ [(c, now, n)]). \<not> over_at B k x \<and> fst (snd x) \<le> t + kp_stableWindow k)" by auto
    then show ?thesis unfolding recent_surge_def by blast
  qed
qed

lemma decided_snoc:
  "decided B W (ins @ [(c, now, n)]) k = snd (kp_Reconcile B W now n ((decided B W ins k)\<lparr>kp_Collector := c\<rparr>))"
  by (induction B W ins k rule: decided.induct) simp_all

lemma Reconcile_params [simp]:
  "kp_stableWindow (snd (kp_Reconcile B W now n k)) = kp_stableWindow k"
  "kp_targetValue (snd (kp_Reconcile B W now n k)) = kp_targetValue k"
  "kp_maxScaleUpRate (snd (kp_Reconcile B W now n k)) = kp_maxScaleUpRate k"
  "kp_maxScaleDownRate (snd (kp_Reconcile B W now n k)) = kp_maxScaleDownRate k"
  "kp_panicThreshold (snd (kp_Reconcile B W now n k)) = kp_panicThreshold k"
  by (simp_all add: kp_Reconcile_def panic_step_def mode_count_def delay_step_def Let_def case_prod_beta split: option.splits)

lemma decided_params [simp]:
  "kp_stableWindow (decided B W ins k) = kp_stableWindow k" "over_at B (decided B W ins k) x = over_at B k x"
proof -
  have "kp_stableWindow (decided B W ins k) = kp_stableWindow k \<and> kp_targetValue (decided B W ins k) = kp_targetValue k \<and>
      kp_maxScaleUpRate (decided B W ins k) = kp_maxScaleUpRate k \<and> kp_maxScaleDownRate (decided B W ins k) = kp_maxScaleDownRate k \<and>
      kp_panicThreshold (decided B W ins k) = kp_panicThreshold k"
    by (induction B W ins k rule: decided.induct) simp_all
  then show "kp_stableWindow (decided B W ins k) = kp_stableWindow k" "over_at B (decided B W ins k) x = over_at B k x"
    by (cases x; simp add: Reconcile_counts_def scale_bounds_def)+
qed

lemma Reconcile_panicTime:
  "kp_panicTime (snd (kp_Reconcile B W now n (k\<lparr>kp_Collector := c\<rparr>))) =
     (if over_at B k (c, now, n) then now
      else if kp_panicTime k \<noteq> 0 \<and> kp_panicTime k + kp_stableWindow k < now then 0 else kp_panicTime k)"
  "kp_panicTime k = 0 \<longrightarrow> kp_maxPanicPods k = 0 \<Longrightarrow> now \<noteq> 0 \<Longrightarrow>
   kp_panicTime (snd (kp_Reconcile B W now n (k\<lparr>kp_Collector := c\<rparr>))) = 0 \<longrightarrow>
   kp_maxPanicPods (snd (kp_Reconcile B W now n (k\<lparr>kp_Collector := c\<rparr>))) = 0"
  by (auto simp: kp_Reconcile_eq panic_step_def mode_count_def t_IsZero_def t_Before_def t_Add_def Let_def case_prod_beta)

text \<open>C26: panic mode tracks the surges. Of a decider that starts outside panic mode, with a cleared panic maximum, and takes
  any sequence of decisions with whatever measurements: it is in panic mode, since time \<open>t\<close>, exactly when
  the last decision that saw the panic concurrency above the threshold was taken at \<open>t\<close> and no later decision came more than
  the stable window after \<open>t\<close>. Outside panic mode the panic maximum is cleared.\<close>

theorem panic_tracks_surges:
  assumes "\<not> panicking k" and "kp_maxPanicPods k = 0" and "\<And>c now n. (c, now, n) \<in> set ins \<Longrightarrow> now \<noteq> 0"
  shows "(panicking (decided B W ins k) \<and> kp_panicTime (decided B W ins k) = t \<longleftrightarrow> recent_surge B k ins t) \<and>
         (\<not> panicking (decided B W ins k) \<longrightarrow> kp_maxPanicPods (decided B W ins k) = 0)"
  using assms(3)
proof (induction ins arbitrary: t rule: rev_induct)
  case Nil
  with assms show ?case by simp
next
  case (snoc x ins)
  obtain c now n where x: "x = (c, now, n)" by (cases x)
  have now: "now \<noteq> 0" using snoc.prems [of c now n] by (simp add: x)
  have IH: "kp_panicTime (decided B W ins k) \<noteq> 0 \<and> kp_panicTime (decided B W ins k) = t \<longleftrightarrow> recent_surge B k ins t"
    "kp_panicTime (decided B W ins k) = 0 \<longrightarrow> kp_maxPanicPods (decided B W ins k) = 0" for t
    using snoc.IH [of t] snoc.prems by (auto simp: panicking_def)
  let ?k = "decided B W ins k" and ?k' = "snd (kp_Reconcile B W now n ((decided B W ins k)\<lparr>kp_Collector := c\<rparr>))"
  have p: "kp_panicTime ?k' = (if over_at B k (c, now, n) then now
      else if kp_panicTime ?k \<noteq> 0 \<and> kp_panicTime ?k + kp_stableWindow k < now then 0 else kp_panicTime ?k)"
    by (simp add: Reconcile_panicTime(1) del: over_at.simps)
  have "kp_panicTime ?k' \<noteq> 0 \<and> kp_panicTime ?k' = t \<longleftrightarrow> recent_surge B k (ins @ [(c, now, n)]) t"
    unfolding p recent_surge_snoc IH(1) [symmetric] using now by (cases "over_at B k (c, now, n)") (auto simp del: over_at.simps)
  then show ?case
    using Reconcile_panicTime(2) [OF IH(2) now, of B W n c] by (simp add: x decided_snoc panicking_def)
qed

text \<open>A surge at 5 seconds, a calm decision at 30 seconds that is still in panic mode, and the end at 66.\<close>

definition surge_buckets :: "duration buckets" where
  "surge_buckets =
     \<lparr> bk_New = (\<lambda>w g. w), bk_Record = (\<lambda>b t v. b), bk_WindowAverage = (\<lambda>b t. if t < 10 * Second then Fin 1000 else Fin 150) \<rparr>"

definition surge_ins :: "(duration Collector \<times> time \<times> int) list" where
  "surge_ins = [(kp_Collector sample_kpa, 5 * Second, 4), (kp_Collector sample_kpa, 30 * Second, 4)]"

lemma sample_kpa_surge: "over_at surge_buckets sample_kpa (kp_Collector sample_kpa, now, 4) \<longleftrightarrow> now < 10 * Second"
proof -
  have c: "f_to_int (Fin 4) = 4" using f_to_int_small [of 4] by simp
  have i: "f_of_int 4 = Fin 4" using f_of_int_exact [of 4] by simp
  have k: "kp_targetValue sample_kpa = Fin 100" "kp_panicThreshold sample_kpa = Fin 2" "sample_kpa\<lparr>kp_Collector := kp_Collector sample_kpa\<rparr> = sample_kpa"
    by (simp_all add: sample_kpa_def NewKPADecider_def)
  have d: "rnd64 (5 / 2) = Fin (5 / 2)" "rnd64 (3 / 2) = Fin (3 / 2)" "rnd64 (1 / 2) = Fin (1 / 2)"
    using rnd64_dyadic [of 5 1] rnd64_dyadic [of 3 1] rnd64_dyadic [of 1 1] by (simp_all add: emin_scale_def prec_def)
  have e: "rnd64 10 = Fin 10" using rnd64_exact [of 10] by simp
  have "\<lceil>3 / 2 :: rat\<rceil> = 2" by (rule ceiling_unique) simp_all
  then have q: "f_ceil (f_div (Fin 1000) (Fin 100)) = Fin 10" "f_ceil (f_div (Fin 150) (Fin 100)) = Fin 2"
    "f_div (Fin 10) (Fin 4) = Fin (5 / 2)" "f_div (Fin 2) (Fin 4) = Fin (1 / 2)"
    by (simp_all add: f_div_def d e)
  have "over_at surge_buckets sample_kpa (kp_Collector sample_kpa, now, 4) \<longleftrightarrow>
      f_le (Fin 2) (f_div (f_ceil (f_div (if now < 10 * Second then Fin 1000 else Fin 150) (Fin 100))) (Fin 4))"
    by (simp add: k Reconcile_counts_def StableAndPanicAndInstantConcurrency_def i c case_prod_beta Let_def) (simp add: surge_buckets_def)
  then show ?thesis by (simp add: q)
qed

theorem panic_tracks_surges_witness:
  "(panicking (decided surge_buckets max_window surge_ins sample_kpa) \<and>
      kp_panicTime (decided surge_buckets max_window surge_ins sample_kpa) = 5 * Second) \<and>
   \<not> panicking (decided surge_buckets max_window (surge_ins @ [(kp_Collector sample_kpa, 66 * Second, 4)]) sample_kpa)"
proof -
  have k: "\<not> panicking sample_kpa" "kp_maxPanicPods sample_kpa = 0" by (simp_all add: panicking_def sample_kpa_ok)
  let ?ins = "surge_ins @ [(kp_Collector sample_kpa, 66 * Second, 4)]"
  have e: "surge_ins = ([] @ [(kp_Collector sample_kpa, 5 * Second, 4)]) @ [(kp_Collector sample_kpa, 30 * Second, 4)]"
    by (simp add: surge_ins_def)
  have r: "recent_surge surge_buckets sample_kpa surge_ins u \<longleftrightarrow> u = 5 * Second" for u
    unfolding e recent_surge_snoc by (auto simp: sample_kpa_surge sample_kpa_ok Second_def simp del: over_at.simps)
  have "\<not> recent_surge surge_buckets sample_kpa ?ins u" for u
    by (auto simp: recent_surge_snoc r sample_kpa_surge sample_kpa_ok Second_def simp del: over_at.simps)
  moreover have "(panicking (decided surge_buckets max_window ?ins sample_kpa) \<and>
        kp_panicTime (decided surge_buckets max_window ?ins sample_kpa) = u \<longleftrightarrow> recent_surge surge_buckets sample_kpa ?ins u) \<and>
      (\<not> panicking (decided surge_buckets max_window ?ins sample_kpa) \<longrightarrow>
        kp_maxPanicPods (decided surge_buckets max_window ?ins sample_kpa) = 0)" for u
    by (rule panic_tracks_surges [OF k]) (auto simp: surge_ins_def Second_def)
  moreover have "(panicking (decided surge_buckets max_window surge_ins sample_kpa) \<and>
        kp_panicTime (decided surge_buckets max_window surge_ins sample_kpa) = u \<longleftrightarrow> recent_surge surge_buckets sample_kpa surge_ins u) \<and>
      (\<not> panicking (decided surge_buckets max_window surge_ins sample_kpa) \<longrightarrow>
        kp_maxPanicPods (decided surge_buckets max_window surge_ins sample_kpa) = 0)" for u
    by (rule panic_tracks_surges [OF k]) (auto simp: surge_ins_def Second_def)
  ultimately show ?thesis using r by blast
qed

lemma mode_from_zero:
  assumes "rates_ok k u d" and "averages_ok B now k"
    and "f_lt (Fin 0) (InstantConcurrency (co_RequestStats (kp_Collector k)))"
    and "0 \<le> kp_maxPanicPods k" and "kp_maxPanicPods k < 2 ^ 31" and "Reconcile_counts B now 0 k = (st, pa, over)"
  shows "1 \<le> fst (mode_count st pa (panic_step now over k)) \<and> fst (mode_count st pa (panic_step now over k)) < 2 ^ 31"
proof -
  have "u \<le> of_int (2 ^ 20)" using assms(1) by (simp add: rates_ok_def)
  then have cu: "\<lceil>u\<rceil> \<le> 2 ^ 20" by (rule ceiling_le)
  with counts_bounds [OF assms(1) order_refl _ assms(2,6)] assms(3)
  have b: "1 \<le> st" "1 \<le> pa" "st \<le> 2 ^ 20" "pa \<le> 2 ^ 20"
    using order_trans [OF _ cu, of st] order_trans [OF _ cu, of pa] by auto
  let ?p = "panic_step now over k"
  have mp: "0 \<le> kp_maxPanicPods ?p" "kp_maxPanicPods ?p < 2 ^ 31" using assms(4,5) by (auto simp: panic_step_def)
  then show ?thesis using b by (auto simp: mode_count_def Let_def)
qed

lemma delay_step_ge:
  assumes "window_laws W" and "1 \<le> m" and "m < 2 ^ 31"
  shows "m \<le> fst (delay_step W now m k)"
proof -
  have "int32 m = m" using assms(2,3) by (intro int32_id) auto
  then show ?thesis using assms(1) by (auto simp: delay_step_def window_laws_def Let_def split: option.splits)
qed

lemma delay_step_less:
  assumes "window_max_laws W" and "1 \<le> m" and "m < 2 ^ 31" and "\<And>w. kp_delayWindow k = Some w \<Longrightarrow> tw_Current W w < 2 ^ 31"
  shows "fst (delay_step W now m k) < 2 ^ 31"
proof (cases "kp_delayWindow k")
  case None
  with assms(3) show ?thesis by (simp add: delay_step_def)
next
  case (Some w)
  have "int32 m = m" using assms(2,3) by (intro int32_id) auto
  moreover have "tw_Current W (tw_Record W w now m) \<le> max (tw_Current W w) m" using assms(1) by (simp add: window_max_laws_def)
  ultimately show ?thesis using Some assms(3) assms(4) [OF Some] by (simp add: delay_step_def Let_def)
qed

lemma decision_from_zero:
  assumes "rates_ok k u d" and "averages_ok B now k" and "window_laws W" and "window_max_laws W"
    and "f_lt (Fin 0) (InstantConcurrency (co_RequestStats (kp_Collector k)))"
    and "0 \<le> kp_maxPanicPods k" and "kp_maxPanicPods k < 2 ^ 31"
    and "\<And>w. kp_delayWindow k = Some w \<Longrightarrow> tw_Current W w < 2 ^ 31"
  shows "1 \<le> fst (kp_Reconcile B W now 0 k) \<and> fst (kp_Reconcile B W now 0 k) < 2 ^ 31"
proof -
  obtain st pa over where c: "Reconcile_counts B now 0 k = (st, pa, over)" by (metis prod_cases3)
  define m where "m = mode_count st pa (panic_step now over k)"
  have m: "1 \<le> fst m" "fst m < 2 ^ 31" using mode_from_zero [OF assms(1,2,5-7) c] by (simp_all add: m_def)
  have "kp_delayWindow (snd m) = kp_delayWindow k" by (simp add: m_def)
  then show ?thesis
    using m delay_step_ge [OF assms(3) m, of now "snd m"] delay_step_less [OF assms(4) m, of "snd m" now] assms(8)
    by (auto simp: kp_Reconcile_eq c Let_def simp flip: m_def)
qed

text \<open>C27: a target with waiting requests is scaled from zero. With no ready pod and a positive
  instantaneous concurrency every decision is at least one, in stable and in panic mode and
  also behind a scale-down delay, provided the rates are at least one (and the up rate at most \<open>2 ^ 20\<close>), the target
  is positive, the bucket averages are numbers, the panic maximum fits 32 bits and the delay window reports at least the value just
  recorded.\<close>

theorem scale_from_zero:
  assumes "rates_ok k u d" and "averages_ok B now k" and "window_laws W"
    and "f_lt (Fin 0) (InstantConcurrency (co_RequestStats (kp_Collector k)))"
    and "0 \<le> kp_maxPanicPods k" and "kp_maxPanicPods k < 2 ^ 31"
  shows "1 \<le> fst (kp_Reconcile B W now 0 k)"
proof -
  obtain st pa over where c: "Reconcile_counts B now 0 k = (st, pa, over)" by (metis prod_cases3)
  define m where "m = mode_count st pa (panic_step now over k)"
  have m: "1 \<le> fst m" "fst m < 2 ^ 31" using mode_from_zero [OF assms(1,2,4-6) c] by (simp_all add: m_def)
  have "1 \<le> fst (delay_step W now (fst m) (snd m))" using delay_step_ge [OF assms(3) m] m(1) by (rule order_trans [rotated])
  then show ?thesis by (simp add: kp_Reconcile_eq c Let_def flip: m_def)
qed

definition busy_kpa :: "(duration, int) KPADecider" where
  "busy_kpa = (snd (kp_ReqIn 7 sample_kpa))\<lparr>kp_delayWindow := Some 0\<rparr>"

theorem scale_from_zero_witness:
  "1 \<le> fst (kp_Reconcile (const_buckets (Fin 0) (Fin 0)) max_window 9 0 busy_kpa)"
proof -
  have s: "kp_Collector busy_kpa = (kp_Collector sample_kpa)\<lparr>co_RequestStats := snd (stats_ReqIn 7 (NewRequestStats ''default/f''))\<rparr>"
    by (simp add: busy_kpa_def kp_ReqIn_def sample_kpa_def NewKPADecider_def NewCollector_def case_prod_beta Let_def)
  have "f_add (Fin 0) (Fin 1) = Fin 1" using f_add_ints [of 0 1] by simp
  then have "InstantConcurrency (co_RequestStats (kp_Collector busy_kpa)) = Fin 1"
    by (simp add: s InstantConcurrency_def stats_ReqIn_def Move_def NewRequestStats_def t_IsZero_def Let_def)
  moreover have "rates_ok busy_kpa 1000 2" "averages_ok (const_buckets (Fin 0) (Fin 0)) 9 busy_kpa" "kp_maxPanicPods busy_kpa = 0"
    using sample_kpa_ok(1) [unfolded rates_ok_def] sample_kpa_ok(5)
    by (simp_all add: rates_ok_def averages_ok_def const_buckets_def busy_kpa_def kp_ReqIn_def case_prod_beta Let_def)
  ultimately show ?thesis by (intro scale_from_zero [OF _ _ max_window_laws]) auto
qed

end
