(* ===== verification/Autoscaler.thy ===== *)
theory Autoscaler
  imports Decider Workload
begin

text \<open>
  \<open>src/pkg/autoscaler\<close> and \<open>src/pkg/autoscaler/scaler\<close>: the autoscalers of the gateway.
  \<open>scaler/deployment.go\<close> writes the scale of a deployment; \<open>interface.go\<close> and \<open>kpa.go\<close> drive one
  decider per target through a work queue; \<open>onetime.go\<close> scales every target once.

  The answers of the API server during one call are the record \<open>aenv\<close>; queue calls, goroutines
  and scale writes are appended to the log of the state in program order. The locale
  \<open>autoscaler\<close> is the Go interface with what the gateway relies on: for targets it was
  set up with, counting a request in or out returns.
\<close>

section \<open>scaler/deployment.go\<close>

datatype aout =
    AQAdd string
  | AQForget string
  | AQDone string
  | AQShutDown
  | GoTick string
  | GoCollector string
  | GoScaler
  | GoScale string int
  | ScaleUpdate string int

record aenv =
  ae_Get :: "string \<times> string \<Rightarrow> apierr + deployment"
  ae_List :: "string \<Rightarrow> string smap \<Rightarrow> apierr + pod list"
  ae_IsPodReady :: "pod \<Rightarrow> bool"
  ae_now :: time
  ae_ScalerGet :: "string \<times> string \<Rightarrow> apierr + deployment"
  ae_Update :: "deployment \<Rightarrow> int \<Rightarrow> apierr option"

text \<open>\<open>Scale\<close> yields the error or whether it scaled, and the write it made.\<close>

definition Scale :: "aenv \<Rightarrow> string \<Rightarrow> int \<Rightarrow> ((apierr + bool) \<times> aout list) go" where
  "Scale env key desired =
     go_bind (NamespacedNameFromKey key) (\<lambda>nn.
       case ae_ScalerGet env nn of
         Inl err \<Rightarrow> Ret (Inl (OtherErr (''failed to get deployment '' @ key @ '': '' @ err_Error err)), [])
       | Inr deployment \<Rightarrow>
           if om_DeletionTimestamp (dep_Meta deployment) \<noteq> None
           then Ret (Inl (OtherErr (''deployment '' @ key @ '' is being deleted'')), [])
           else if dep_Replicas deployment = Some (int32 desired) then Ret (Inr False, [])
           else
             (case ae_Update env deployment (int32 desired) of
                Some err \<Rightarrow> Ret (Inl err, [ScaleUpdate key (int32 desired)])
              | None \<Rightarrow> Ret (Inr True, [ScaleUpdate key (int32 desired)])))"

section \<open>interface.go\<close>

definition maxConcurrentScalers :: nat where "maxConcurrentScalers = 16"

record KnativeAutoscalerConfig =
  kc_Async :: bool
  kc_TargetConcurrency :: f64
  kc_MaxScaleUpRate :: f64
  kc_MaxScaleDownRate :: f64
  kc_StableWindowSeconds :: f64
  kc_PanicWindowPercentage :: f64
  kc_PanicThresholdPercentage :: f64
  kc_ScaleDownDelaySeconds :: int
  kc_TickIntervalSeconds :: int

record OneTimeAutoscalerConfig =
  oc_InitialScale :: int

record AutoscalerConfig =
  ac_Knative :: "KnativeAutoscalerConfig option"
  ac_OneTime :: "OneTimeAutoscalerConfig option"

text \<open>The file contents and the YAML parser are inputs; the configuration is a pointer.\<close>

definition NewAutoscalerConfigFrom ::
  "(string \<Rightarrow> apierr + string) \<Rightarrow> (string \<Rightarrow> apierr + AutoscalerConfig) \<Rightarrow> string \<Rightarrow> apierr + AutoscalerConfig option" where
  "NewAutoscalerConfigFrom ReadFile Unmarshal configPath =
     (if configPath = [] then Inr None
      else case ReadFile configPath of
        Inl err \<Rightarrow> Inl (OtherErr (''failed to read gateway YAML config: '' @ err_Error err))
      | Inr configYaml \<Rightarrow>
          (case Unmarshal configYaml of
             Inl err \<Rightarrow> Inl (OtherErr (''failed to unmarshal YAML config: '' @ err_Error err))
           | Inr config \<Rightarrow> Inr (Some config)))"

record ('b, 'w) autoscalerImpl =
  ai_framework :: string
  ai_async :: bool
  ai_tickInterval :: duration
  ai_deciders :: "string \<rightharpoonup> ('b, 'w) KPADecider"
  ai_running :: bool
  ai_out :: "aout list"

definition a_emit :: "aout list \<Rightarrow> ('b, 'w) autoscalerImpl \<Rightarrow> ('b, 'w) autoscalerImpl" where
  "a_emit es s = s\<lparr>ai_out := ai_out s @ es\<rparr>"

definition set_decider :: "string \<Rightarrow> ('b, 'w) KPADecider \<Rightarrow> ('b, 'w) autoscalerImpl \<Rightarrow> ('b, 'w) autoscalerImpl" where
  "set_decider key d s = s\<lparr>ai_deciders := (ai_deciders s)(key \<mapsto> d)\<rparr>"

definition as_scale ::
  "'b buckets \<Rightarrow> 'w window \<Rightarrow> aenv \<Rightarrow> string \<Rightarrow> ('b, 'w) autoscalerImpl \<Rightarrow> (apierr option \<times> ('b, 'w) autoscalerImpl) go" where
  "as_scale B W env key s =
     (case ai_deciders s key of
        None \<Rightarrow> Panic (PanicMsg (''Scaling error: no decider for key '' @ key))
      | Some dec \<Rightarrow>
          go_bind (NamespacedNameFromKey key) (\<lambda>nn.
            case ae_Get env nn of
              Inl err \<Rightarrow> Ret (Some (OtherErr (''failed to get deployment '' @ key @ '': '' @ err_Error err)), s)
            | Inr target \<Rightarrow>
                (case ae_List env (om_Namespace (dep_Meta target)) (dep_TemplateLabels target) of
                   Inl err \<Rightarrow> Ret (Some (OtherErr (''failed to list pods for key '' @ key @ '': '' @ err_Error err)), s)
                 | Inr pods \<Rightarrow>
                     (let nReady = int (length (filter (ae_IsPodReady env) pods));
                          (desired, d') = kp_Reconcile B W (ae_now env) nReady dec;
                          s1 = set_decider key d' s
                      in go_bind (Scale env key desired) (\<lambda>(r, outs).
                           let s2 = a_emit outs s1
                           in case r of
                                Inl err \<Rightarrow> Ret (Some (OtherErr (''failed to scale '' @ key @ '': '' @ err_Error err)), s2)
                              | Inr scaled \<Rightarrow>
                                  if scaled \<and> dep_Replicas target = None then Panic NilDeref else Ret (None, s2))))))"

text \<open>\<open>Run\<close>: the context is set, the workers are started, and the queue is shut down in the end.\<close>

definition as_Run :: "('b, 'w) autoscalerImpl \<Rightarrow> ('b, 'w) autoscalerImpl" where
  "as_Run s = a_emit (replicate maxConcurrentScalers GoScaler) (s\<lparr>ai_running := True\<rparr>)"

definition as_stop :: "('b, 'w) autoscalerImpl \<Rightarrow> ('b, 'w) autoscalerImpl" where
  "as_stop s = a_emit [AQShutDown] s"

text \<open>\<open>processNextItem\<close>: the deferred calls run in reverse order, \<open>Forget\<close> before \<open>Done\<close>.\<close>

definition as_processNextItem ::
  "'b buckets \<Rightarrow> 'w window \<Rightarrow> aenv \<Rightarrow> string option \<Rightarrow> ('b, 'w) autoscalerImpl \<Rightarrow> (bool \<times> ('b, 'w) autoscalerImpl) go" where
  "as_processNextItem B W env item s =
     (case item of
        None \<Rightarrow> Ret (False, s)
      | Some key \<Rightarrow>
          go_bind (as_scale B W env key s) (\<lambda>(err, s1).
            case err of
              Some e \<Rightarrow>
                if Contains (err_Error e) ''mvcc'' then Panic (PanicMsg (err_Error e))
                else Ret (True, a_emit [AQForget key, AQDone key] s1)
            | None \<Rightarrow> Ret (True, a_emit [AQForget key, AQDone key] s1)))"

text \<open>The ticker loop over \<open>n\<close> ticks; \<open>time.NewTicker\<close> panics on an interval that is not positive.\<close>

definition tickAutoScaler :: "nat \<Rightarrow> string \<Rightarrow> ('b, 'w) autoscalerImpl \<Rightarrow> ('b, 'w) autoscalerImpl go" where
  "tickAutoScaler n key s =
     (if ai_tickInterval s \<le> 0 then Panic (PanicMsg ''non-positive interval for NewTicker'')
      else Ret (a_emit (replicate n (AQAdd key)) s))"

definition as_ReqIn :: "time \<Rightarrow> Request \<Rightarrow> ('b, 'w) autoscalerImpl \<Rightarrow> ('b, 'w) autoscalerImpl go" where
  "as_ReqIn now req s =
     (if \<not> ai_running s then Panic (PanicMsg ''autoscaler not started'')
      else
        (let key = rq_Target req
         in case ai_deciders s key of
              None \<Rightarrow> Panic (PanicMsg (''Req in id '' @ rq_ID req @ '': no decider for key '' @ key))
            | Some d \<Rightarrow>
                (let d1 = snd (kp_ReqIn now d);
                     (activated, d2) = Activate d1;
                     s1 = set_decider key d2 s;
                     s2 = (if activated then a_emit [GoCollector key, GoTick key] s1 else s1)
                 in Ret (if \<not> ai_async s2 \<and> Desired d2 = 0 then a_emit [AQAdd key] s2 else s2))))"

definition as_ReqOut :: "time \<Rightarrow> Response \<Rightarrow> ('b, 'w) autoscalerImpl \<Rightarrow> ('b, 'w) autoscalerImpl go" where
  "as_ReqOut now res s =
     (if \<not> ai_running s then Panic (PanicMsg ''autoscaler not started'')
      else
        (let key = rq_Target (rs_Source res)
         in case ai_deciders s key of
              None \<Rightarrow> Panic (PanicMsg (''Req out id '' @ rq_ID (rs_Source res) @ '': no decider for key '' @ key))
            | Some d \<Rightarrow> Ret (set_decider key (snd (kp_ReqOut now d)) s)))"

section \<open>kpa.go\<close>

definition kc_Complete :: "KnativeAutoscalerConfig option \<Rightarrow> KnativeAutoscalerConfig go" where
  "kc_Complete cfg =
     (case cfg of
        None \<Rightarrow> Panic NilDeref
      | Some c \<Rightarrow> Ret (if kc_TargetConcurrency c = Fin 0 then c\<lparr>kc_TargetConcurrency := Fin 100\<rparr> else c))"

definition NewKnativeAutoscaler ::
  "'b buckets \<Rightarrow> 'w window \<Rightarrow> KnativeAutoscalerConfig \<Rightarrow> string list \<Rightarrow> ('b, 'w) autoscalerImpl" where
  "NewKnativeAutoscaler B W cfg keys =
     (let tickInterval = int64 (kc_TickIntervalSeconds cfg * Second);
          stableWindow = int64 (f_to_int (kc_StableWindowSeconds cfg) * Second);
          panicWindow = int64 (f_to_int (f_mul (f_div (kc_PanicWindowPercentage cfg) (Fin 100)) (kc_StableWindowSeconds cfg)) * Second);
          scaleDownDelay = int64 (kc_ScaleDownDelaySeconds cfg * Second);
          newDecider = (\<lambda>key. NewKPADecider B W key (kc_TargetConcurrency cfg) (kc_MaxScaleUpRate cfg) (kc_MaxScaleDownRate cfg)
             stableWindow panicWindow (f_div (kc_PanicThresholdPercentage cfg) (Fin 100)) scaleDownDelay tickInterval)
      in \<lparr> ai_framework = ''kpa'', ai_async = kc_Async cfg, ai_tickInterval = tickInterval,
           ai_deciders = foldl (\<lambda>m key. m(key \<mapsto> newDecider key)) Map.empty keys, ai_running = False, ai_out = [] \<rparr>)"

section \<open>onetime.go\<close>

definition onetimeInitialScale :: int where "onetimeInitialScale = 1"

text \<open>\<open>Complete\<close> accepts a nil configuration.\<close>

definition oc_Complete :: "OneTimeAutoscalerConfig option \<Rightarrow> OneTimeAutoscalerConfig" where
  "oc_Complete cfg = (case cfg of None \<Rightarrow> \<lparr> oc_InitialScale = onetimeInitialScale \<rparr> | Some c \<Rightarrow> c)"

record OneTimeAutoscaler =
  ot_running :: bool
  ot_seen :: "string \<rightharpoonup> bool"
  ot_initialScale :: int
  ot_out :: "aout list"

definition NewOneTimeAutoscaler :: "OneTimeAutoscalerConfig \<Rightarrow> string list \<Rightarrow> OneTimeAutoscaler" where
  "NewOneTimeAutoscaler cfg keys =
     \<lparr> ot_running = False, ot_seen = foldl (\<lambda>m key. m(key \<mapsto> False)) Map.empty keys,
       ot_initialScale = oc_InitialScale cfg, ot_out = [] \<rparr>"

definition ot_Run :: "OneTimeAutoscaler \<Rightarrow> OneTimeAutoscaler" where
  "ot_Run s = s\<lparr>ot_running := True\<rparr>"

definition ot_ReqIn :: "Request \<Rightarrow> OneTimeAutoscaler \<Rightarrow> OneTimeAutoscaler" where
  "ot_ReqIn req s =
     (let key = rq_Target req
      in if ot_seen s key \<noteq> Some True
         then s\<lparr>ot_seen := (ot_seen s)(key \<mapsto> True), ot_out := ot_out s @ [GoScale key (ot_initialScale s)]\<rparr>
         else s)"

definition ot_ReqOut :: "Response \<Rightarrow> OneTimeAutoscaler \<Rightarrow> OneTimeAutoscaler" where
  "ot_ReqOut res s = s"

section \<open>The Autoscaler interface\<close>

locale autoscaler =
  fixes req_in :: "time \<Rightarrow> Request \<Rightarrow> 's \<Rightarrow> 's go" and req_out :: "time \<Rightarrow> Response \<Rightarrow> 's \<Rightarrow> 's go"
    and serves :: "'s \<Rightarrow> string \<Rightarrow> bool"
  assumes in_returns: "serves s (rq_Target req) \<Longrightarrow> \<exists>s'. req_in now req s = Ret s'"
    and out_returns: "serves s (rq_Target (rs_Source res)) \<Longrightarrow> \<exists>s'. req_out now res s = Ret s'"
    and in_serves: "req_in now req s = Ret s' \<Longrightarrow> serves s' k = serves s k"
    and out_serves: "req_out now res s = Ret s' \<Longrightarrow> serves s' k = serves s k"
begin

fun counts :: "(time \<times> (Request + Response)) list \<Rightarrow> 's \<Rightarrow> 's go" where
  "counts [] s = Ret s"
| "counts ((now, Inl req) # es) s = go_bind (req_in now req s) (counts es)"
| "counts ((now, Inr res) # es) s = go_bind (req_out now res s) (counts es)"

fun about :: "Request + Response \<Rightarrow> string" where
  "about (Inl req) = rq_Target req" | "about (Inr res) = rq_Target (rs_Source res)"

lemma counts_return:
  "(\<And>t e. (t, e) \<in> set es \<Longrightarrow> serves s (about e)) \<Longrightarrow> \<exists>s'. counts es s = Ret s' \<and> (\<forall>k. serves s' k = serves s k)"
proof (induction es arbitrary: s)
  case (Cons x es)
  obtain now e where x: "x = (now, e)" by (cases x) auto
  have sv: "serves s (about e)" using Cons.prems [of now e] x by simp
  obtain s1 where s1: "(case e of Inl req \<Rightarrow> req_in now req s | Inr res \<Rightarrow> req_out now res s) = Ret s1"
    and k: "\<And>k. serves s1 k = serves s k"
  proof (cases e)
    case (Inl req)
    with sv obtain s1 where "req_in now req s = Ret s1" using in_returns by fastforce
    with Inl in_serves show thesis by (intro that [of s1]) auto
  next
    case (Inr res)
    with sv obtain s1 where "req_out now res s = Ret s1" using out_returns by fastforce
    with Inr out_serves show thesis by (intro that [of s1]) auto
  qed
  have "\<exists>s'. counts es s1 = Ret s' \<and> (\<forall>k. serves s' k = serves s1 k)"
    by (rule Cons.IH) (use Cons.prems k in auto)
  with s1 k show ?case by (cases e) (auto simp: x)
qed simp

end

definition kpa_serves :: "('b, 'w) autoscalerImpl \<Rightarrow> string \<Rightarrow> bool" where
  "kpa_serves s k \<longleftrightarrow> ai_running s \<and> ai_deciders s k \<noteq> None"

lemma a_emit_sel [simp]:
  "ai_deciders (a_emit es s) = ai_deciders s" "ai_running (a_emit es s) = ai_running s" "ai_async (a_emit es s) = ai_async s"
  "ai_out (a_emit es s) = ai_out s @ es" "ai_tickInterval (a_emit es s) = ai_tickInterval s"
  by (simp_all add: a_emit_def)

lemma set_decider_sel [simp]:
  "ai_deciders (set_decider key d s) = (ai_deciders s)(key \<mapsto> d)" "ai_running (set_decider key d s) = ai_running s"
  "ai_async (set_decider key d s) = ai_async s" "ai_out (set_decider key d s) = ai_out s"
  by (simp_all add: set_decider_def)

interpretation kpa_as: autoscaler as_ReqIn as_ReqOut kpa_serves
proof (unfold_locales, goal_cases)
  case (1 s req now)
  then show ?case by (auto simp: kpa_serves_def as_ReqIn_def Let_def split: prod.splits)
next
  case (2 s res now)
  then show ?case by (auto simp: kpa_serves_def as_ReqOut_def Let_def)
next
  case (3 now req s s' k)
  then show ?case
    by (auto simp: kpa_serves_def as_ReqIn_def Let_def split: if_splits option.splits prod.splits)
next
  case (4 now res s s' k)
  then show ?case
    by (auto simp: kpa_serves_def as_ReqOut_def Let_def split: if_splits option.splits)
qed

interpretation onetime_as: autoscaler "\<lambda>now req s. Ret (ot_ReqIn req s)" "\<lambda>now res s. Ret (ot_ReqOut res s)" "\<lambda>s k. True"
  by unfold_locales auto

section \<open>The running autoscaler\<close>

inductive as_step ::
  "'b buckets \<Rightarrow> 'w window \<Rightarrow> ('b, 'w) autoscalerImpl \<Rightarrow> ('b, 'w) autoscalerImpl \<Rightarrow> bool" for B W where
  request: "as_ReqIn now req s = Ret s' \<Longrightarrow> as_step B W s s'"
| response: "as_ReqOut now res s = Ret s' \<Longrightarrow> as_step B W s s'"
| work: "AQAdd key \<in> set (ai_out s) \<Longrightarrow> as_processNextItem B W env (Some key) s = Ret (again, s') \<Longrightarrow> as_step B W s s'"
| tick: "GoTick key \<in> set (ai_out s) \<Longrightarrow> tickAutoScaler n key s = Ret s' \<Longrightarrow> as_step B W s s'"
| collect: "GoCollector key \<in> set (ai_out s) \<Longrightarrow> ai_deciders s key = Some d \<Longrightarrow>
     as_step B W s (set_decider key (d\<lparr>kp_Collector := collect B now (kp_Collector d)\<rparr>) s)"

inductive_cases as_stepE: "as_step B W s s'"

definition as_init :: "'b buckets \<Rightarrow> 'w window \<Rightarrow> string list \<Rightarrow> ('b, 'w) autoscalerImpl \<Rightarrow> bool" where
  "as_init B W keys s \<longleftrightarrow> (\<exists>cfg. s = as_Run (NewKnativeAutoscaler B W cfg keys))"

definition ticking :: "('b, 'w) autoscalerImpl \<Rightarrow> string \<Rightarrow> nat" where
  "ticking s k = (case ai_deciders s k of None \<Rightarrow> 0 | Some d \<Rightarrow> if kp_active d = 0 then 0 else 1)"

definition as_inv :: "string list \<Rightarrow> ('b, 'w) autoscalerImpl \<Rightarrow> bool" where
  "as_inv keys s \<longleftrightarrow>
     ai_running s \<and> (\<forall>k. ai_deciders s k \<noteq> None \<longleftrightarrow> k \<in> set keys) \<and>
     (\<forall>k. count_list (ai_out s) (GoTick k) = ticking s k) \<and> (\<forall>k. AQAdd k \<in> set (ai_out s) \<longrightarrow> k \<in> set keys)"

lemma count_list_append [simp]: "count_list (xs @ ys) x = count_list xs x + count_list ys x"
  by (induction xs) auto

lemma count_list_replicate [simp]: "count_list (replicate n y) x = (if x = y then n else 0)"
  by (induction n) auto

lemma kp_active_frame [simp]:
  "kp_active (snd (kp_Reconcile B W now n k)) = kp_active k" "kp_active (snd (kp_ReqIn now k)) = kp_active k"
  "kp_active (snd (kp_ReqOut now k)) = kp_active k"
  by (simp_all add: kp_Reconcile_eq kp_collector_frame case_prod_beta Let_def)

lemma foldl_upd: "foldl (\<lambda>m key. m(key \<mapsto> f key)) m0 ks = (\<lambda>k. if k \<in> set ks then Some (f k) else m0 k)"
  by (induction ks arbitrary: m0) (auto simp: fun_eq_iff)

lemma as_inv_init: "as_init B W keys s \<Longrightarrow> as_inv keys s"
  by (auto simp: as_init_def as_inv_def as_Run_def NewKnativeAutoscaler_def foldl_upd ticking_def NewKPADecider_def
      Let_def split: if_splits)

text \<open>Replacing a decider by one that is as active as before, and logging neither a ticker nor an
  unknown key, keeps the invariant.\<close>

lemma as_inv_quiet:
  assumes "as_inv keys s" and "ai_deciders s key = Some d" and "kp_active d' = kp_active d"
    and "ai_deciders s' = (ai_deciders s)(key \<mapsto> d')" and "ai_running s' = ai_running s"
    and "ai_out s' = ai_out s @ es" and "\<And>k. GoTick k \<notin> set es" and "\<And>k. AQAdd k \<in> set es \<Longrightarrow> k \<in> set keys"
  shows "as_inv keys s'"
proof -
  have "count_list es (GoTick k) = 0" for k using assms(7) by (simp add: count_list_0_iff)
  then show ?thesis using assms by (auto simp: as_inv_def ticking_def)
qed

lemma Scale_out: "Scale env key n = Ret (r, outs) \<Longrightarrow> set outs \<subseteq> {ScaleUpdate key (int32 n)}"
proof -
  assume a: "Scale env key n = Ret (r, outs)"
  then obtain nn where nn: "NamespacedNameFromKey key = Ret nn" by (auto simp: Scale_def)
  with a show ?thesis
    by (cases "ae_ScalerGet env nn") (auto simp: Scale_def split: if_splits option.splits)
qed

lemma as_scale_Ret:
  assumes "as_scale B W env key s = Ret (err, s')"
  obtains (same) "s' = s"
    | (decided) d n outs where "ai_deciders s key = Some d" "s' = a_emit outs (set_decider key (snd (kp_Reconcile B W (ae_now env) n d)) s)"
        "set outs \<subseteq> {ScaleUpdate key (int32 (fst (kp_Reconcile B W (ae_now env) n d)))}"
proof -
  from assms obtain d nn where d: "ai_deciders s key = Some d" "NamespacedNameFromKey key = Ret nn"
    by (auto simp: as_scale_def split: option.splits)
  show thesis
  proof (cases "s' = s")
    case False
    with assms d obtain target pods where g: "ae_Get env nn = Inr target"
      "ae_List env (om_Namespace (dep_Meta target)) (dep_TemplateLabels target) = Inr pods"
      by (auto simp: as_scale_def split: sum.splits)
    define n where "n = int (length (filter (ae_IsPodReady env) pods))"
    obtain r outs where sc: "Scale env key (fst (kp_Reconcile B W (ae_now env) n d)) = Ret (r, outs)"
      using assms d g by (auto simp: as_scale_def n_def case_prod_beta Let_def)
    have "s' = a_emit outs (set_decider key (snd (kp_Reconcile B W (ae_now env) n d)) s)"
      using assms d g sc by (auto simp: as_scale_def n_def [symmetric] case_prod_beta Let_def split: sum.splits if_splits)
    with d(1) Scale_out [OF sc] decided show thesis by blast
  qed (use same in blast)
qed

lemma as_inv_step:
  assumes "as_step B W s s'" and inv: "as_inv keys s"
  shows "as_inv keys s'"
  using assms(1)
proof cases
  case (request now req)
  define key where "key = rq_Target req"
  from request obtain d where d: "ai_deciders s key = Some d"
    by (auto simp: as_ReqIn_def Let_def key_def split: if_splits option.splits)
  then have "key \<in> set keys" using inv by (auto simp: as_inv_def)
  define d1 where "d1 = snd (kp_ReqIn now d)"
  have a1: "kp_active d1 = kp_active d" by (simp add: d1_def)
  show ?thesis
  proof (cases "kp_active d = 0")
    case False
    then have "s' = set_decider key d1 s \<or> s' = a_emit [AQAdd key] (set_decider key d1 s)"
      using request d a1 by (auto simp: as_ReqIn_def Activate_def Let_def simp flip: key_def d1_def split: if_splits)
    then obtain es where "ai_out s' = ai_out s @ es" "set es \<subseteq> {AQAdd key}"
      "ai_deciders s' = (ai_deciders s)(key \<mapsto> d1)" "ai_running s' = ai_running s"
      by (elim disjE) (fastforce intro: that [of "[]"], fastforce intro: that [of "[AQAdd key]"])
    with \<open>key \<in> set keys\<close> show ?thesis by (auto intro!: as_inv_quiet [OF inv d a1, where es = es])
  next
    case True
    then have "s' = a_emit [GoCollector key, GoTick key] (set_decider key (d1\<lparr>kp_active := 1\<rparr>) s) \<or>
        s' = a_emit [AQAdd key] (a_emit [GoCollector key, GoTick key] (set_decider key (d1\<lparr>kp_active := 1\<rparr>) s))"
      using request d a1 by (auto simp: as_ReqIn_def Activate_def Let_def simp flip: key_def d1_def split: if_splits)
    with inv d True \<open>key \<in> set keys\<close> show ?thesis by (auto simp: as_inv_def ticking_def split: if_splits)
  qed
next
  case (response now res)
  then obtain d where d: "ai_deciders s (rq_Target (rs_Source res)) = Some d"
    "s' = set_decider (rq_Target (rs_Source res)) (snd (kp_ReqOut now d)) s"
    by (auto simp: as_ReqOut_def Let_def split: if_splits option.splits)
  have "kp_active (snd (kp_ReqOut now d)) = kp_active d" by simp
  from as_inv_quiet [OF inv d(1) this, of s' "[]"] d(2) show ?thesis by simp
next
  case (work key env again)
  then obtain err s1 where s1: "as_scale B W env key s = Ret (err, s1)" "s' = a_emit [AQForget key, AQDone key] s1"
    by (auto simp: as_processNextItem_def split: option.splits if_splits)
  from s1(1) show ?thesis
  proof (cases rule: as_scale_Ret)
    case same
    with s1(2) inv show ?thesis by (auto simp: as_inv_def ticking_def)
  next
    case (decided d n outs)
    have "kp_active (snd (kp_Reconcile B W (ae_now env) n d)) = kp_active d" by simp
    from as_inv_quiet [OF inv decided(1) this, of s' "outs @ [AQForget key, AQDone key]"] decided(2,3) s1(2)
    show ?thesis by auto
  qed
next
  case (tick key n)
  then have "s' = a_emit (replicate n (AQAdd key)) s" by (auto simp: tickAutoScaler_def split: if_splits)
  moreover have "key \<in> set keys"
  proof (rule ccontr)
    assume "key \<notin> set keys"
    then have "ticking s key = 0" using inv by (auto simp: as_inv_def ticking_def split: option.splits)
    with tick(1) inv show False by (metis as_inv_def count_list_0_iff)
  qed
  ultimately show ?thesis using inv by (auto simp: as_inv_def ticking_def)
next
  case (collect key d now)
  have "kp_active (d\<lparr>kp_Collector := Metric.collect B now (kp_Collector d)\<rparr>) = kp_active d" by simp
  from as_inv_quiet [OF inv collect(3) this, of s' "[]"] collect(1) show ?thesis by simp
qed

interpretation as_system: inductive_invariant "as_init B W keys" "as_step B W" "as_inv keys" for B W keys
  by unfold_locales (auto intro: as_inv_init as_inv_step)

section \<open>Properties\<close>

text \<open>C28: one ticker per target, and only known targets are queued. In every run of the Knative
  autoscaler, with requests, responses, workers, tickers and collectors interleaved in any
  order, at most one ticker goroutine is started for a target, it is started exactly when the
  target's decider has been activated, and every key that was ever queued has a decider, so a
  worker never meets a key without one.\<close>

theorem autoscaler_ticks_once:
  assumes "reachable (as_init B W keys) (as_step B W) s"
  shows "count_list (ai_out s) (GoTick k) \<le> 1 \<and>
     (count_list (ai_out s) (GoTick k) = 1 \<longleftrightarrow> (\<exists>d. ai_deciders s k = Some d \<and> kp_active d \<noteq> 0)) \<and>
     (AQAdd k \<in> set (ai_out s) \<longrightarrow> kpa_serves s k)"
proof -
  have inv: "as_inv keys s" by (rule as_system.inv_reachable [OF assms])
  then have "count_list (ai_out s) (GoTick k) = ticking s k" by (simp add: as_inv_def)
  moreover have "AQAdd k \<in> set (ai_out s) \<Longrightarrow> kpa_serves s k" using inv by (auto simp: as_inv_def kpa_serves_def)
  ultimately show ?thesis by (auto simp: ticking_def split: option.splits if_splits)
qed

definition sample_kc :: KnativeAutoscalerConfig where
  "sample_kc =
     \<lparr> kc_Async = False, kc_TargetConcurrency = Fin 100, kc_MaxScaleUpRate = Fin 1000, kc_MaxScaleDownRate = Fin 2,
       kc_StableWindowSeconds = Fin 60, kc_PanicWindowPercentage = Fin 10, kc_PanicThresholdPercentage = Fin 200,
       kc_ScaleDownDelaySeconds = 0, kc_TickIntervalSeconds = 2 \<rparr>"

definition key_f :: string where "key_f = ''default/f''"

definition sample_as :: "(duration, int) autoscalerImpl" where
  "sample_as = as_Run (NewKnativeAutoscaler (const_buckets (Fin 0) (Fin 0)) max_window sample_kc [key_f])"

definition req_f :: Request where
  "req_f = \<lparr> rq_ID = ''r1'', rq_Target = key_f, rq_DurationMilliSec = 10, rq_ClientSendTS = 1, rq_GatewayRecvTS = 0,
     rq_GatewaySendTS = 0, rq_ClientRelTime = 1, rq_TraceRelTime = 1 \<rparr>"

lemma sample_as_decider: "\<exists>d. ai_deciders sample_as key_f = Some d \<and> kp_active d = 0 \<and> Desired d = 0"
  by (simp add: sample_as_def as_Run_def NewKnativeAutoscaler_def NewKPADecider_def sample_kc_def Desired_def Let_def)

lemma sample_as_first:
  "\<exists>s. as_ReqIn 7 req_f sample_as = Ret s \<and> ai_out s = ai_out sample_as @ [GoCollector key_f, GoTick key_f, AQAdd key_f]"
proof -
  obtain d where d: "ai_deciders sample_as key_f = Some d" "kp_active d = 0" "Desired d = 0" using sample_as_decider by blast
  have t: "rq_Target req_f = key_f" "ai_running sample_as" "\<not> ai_async sample_as"
    by (simp_all add: req_f_def sample_as_def as_Run_def NewKnativeAutoscaler_def sample_kc_def Let_def)
  have "Desired ((snd (kp_ReqIn 7 d))\<lparr>kp_active := 1\<rparr>) = 0" using d(3) by (simp add: Desired_def kp_collector_frame)
  then show ?thesis using d t by (simp add: as_ReqIn_def Activate_def Let_def)
qed

theorem autoscaler_ticks_once_witness:
  "\<exists>s. as_ReqIn 7 req_f sample_as = Ret s \<and> count_list (ai_out s) (GoTick key_f) \<le> 1 \<and> kpa_serves s key_f"
proof -
  obtain s where s: "as_ReqIn 7 req_f sample_as = Ret s" "AQAdd key_f \<in> set (ai_out s)" using sample_as_first by auto
  have "as_init (const_buckets (Fin 0) (Fin 0)) max_window [key_f] sample_as" by (auto simp: as_init_def sample_as_def)
  then have "reachable (as_init (const_buckets (Fin 0) (Fin 0)) max_window [key_f])
      (as_step (const_buckets (Fin 0) (Fin 0)) max_window) sample_as" by (rule reach_init)
  from autoscaler_ticks_once [OF reach_step [OF this as_step.request [OF s(1)]], of key_f] s show ?thesis by blast
qed

text \<open>C29: the first request of a target at zero brings it up. With a running synchronous autoscaler and a
  target whose last decision is zero, counting a request in queues the target; if the worker that takes it
  then finds the deployment at zero replicas with no ready pod, it writes a scale of at least
  one and marks the item done, with or without a scale-down delay. This is for rates of at least one (the up rate at most
  \<open>2 ^ 20\<close>), a positive target, bucket averages that are numbers, a concurrency below \<open>2 ^ 53\<close>, 32-bit values in
  the panic maximum and the delay window, a window that reports the maximum, and an API server that answers.\<close>

theorem first_request_scales_up:
  assumes "ai_running s" and "\<not> ai_async s" and "ai_deciders s key = Some d" and "rq_Target req = key" and "Desired d = 0"
    and "rates_ok d u v" and "\<And>w. kp_delayWindow d = Some w \<Longrightarrow> tw_Current W w < 2 ^ 31"
    and "0 \<le> kp_maxPanicPods d" and "kp_maxPanicPods d < 2 ^ 31"
    and "rs_concurrency (co_RequestStats (kp_Collector d)) = Fin (of_int c)" and "0 \<le> c" and "c < 2 ^ 53"
    and "averages_ok B (ae_now env) d" and "window_laws W" and "window_max_laws W" and "NamespacedNameFromKey key = Ret nn"
    and "ae_Get env nn = Inr dep" and "ae_ScalerGet env nn = Inr dep" and "om_DeletionTimestamp (dep_Meta dep) = None"
    and "dep_Replicas dep = Some 0" and "ae_List env (om_Namespace (dep_Meta dep)) (dep_TemplateLabels dep) = Inr pods"
    and "\<And>p. p \<in> set pods \<Longrightarrow> \<not> ae_IsPodReady env p" and "\<And>n. ae_Update env dep n = None"
  shows "\<exists>s1 s2 n. as_ReqIn now req s = Ret s1 \<and> last (ai_out s1) = AQAdd key \<and>
     as_processNextItem B W env (Some key) s1 = Ret (True, s2) \<and>
     ai_out s2 = ai_out s1 @ [ScaleUpdate key n, AQForget key, AQDone key] \<and> 1 \<le> n"
proof -
  define d1 where "d1 = snd (kp_ReqIn now d)"
  define d2 where "d2 = snd (Activate d1)"
  define s0 where "s0 = set_decider key d2 s"
  define s1 where "s1 = a_emit [AQAdd key] (if fst (Activate d1) then a_emit [GoCollector key, GoTick key] s0 else s0)"
  have "Desired d2 = 0" using assms(5) by (simp add: d2_def d1_def Desired_def Activate_def kp_collector_frame)
  then have in1: "as_ReqIn now req s = Ret s1"
    using assms(1-4) by (simp add: as_ReqIn_def case_prod_beta Let_def s1_def s0_def d2_def d1_def)
  have fr: "kp_Collector d2 = (kp_Collector d)\<lparr>co_RequestStats := snd (stats_ReqIn now (co_RequestStats (kp_Collector d)))\<rparr>"
    by (simp add: d2_def d1_def Activate_def kp_ReqIn_def case_prod_beta Let_def)
  have "f_add (Fin (of_int c)) (Fin 1) = Fin (of_int (c + 1))" using f_add_ints [of c 1] assms(11,12) by simp
  then have "InstantConcurrency (co_RequestStats (kp_Collector d2)) = Fin (of_int (c + 1))"
    using assms(10) by (simp add: fr InstantConcurrency_def stats_ReqIn_def Move_def Let_def)
  then have pos: "f_lt (Fin 0) (InstantConcurrency (co_RequestStats (kp_Collector d2)))" using assms(11) by simp
  have keep: "rates_ok d2 u v" "averages_ok B (ae_now env) d2" "0 \<le> kp_maxPanicPods d2" "kp_maxPanicPods d2 < 2 ^ 31"
    "kp_delayWindow d2 = kp_delayWindow d"
    using assms(6,8,9,13) by (auto simp: rates_ok_def averages_ok_def fr) (auto simp: d2_def d1_def Activate_def kp_ReqIn_def case_prod_beta Let_def)
  let ?R = "kp_Reconcile B W (ae_now env) 0 d2"
  have n: "1 \<le> fst ?R \<and> fst ?R < 2 ^ 31" by (rule decision_from_zero [OF keep(1,2) assms(14,15) pos keep(3,4)]) (use keep(5) assms(7) in simp)
  then have n32: "int32 (fst ?R) = fst ?R" by (intro int32_id) auto
  have "filter (ae_IsPodReady env) pods = []" using assms(22) by (simp add: filter_empty_conv)
  moreover have "ai_deciders s1 key = Some d2" by (simp add: s1_def s0_def)
  moreover have "Scale env key (fst ?R) = Ret (Inr True, [ScaleUpdate key (fst ?R)])"
    using assms(16,18,19,20,23) n by (simp add: Scale_def n32)
  ultimately have "as_scale B W env key s1 = Ret (None, a_emit [ScaleUpdate key (fst ?R)] (set_decider key (snd ?R) s1))"
    using assms(16,17,20,21) by (simp add: as_scale_def case_prod_beta Let_def)
  then have "as_processNextItem B W env (Some key) s1 =
      Ret (True, a_emit [AQForget key, AQDone key] (a_emit [ScaleUpdate key (fst ?R)] (set_decider key (snd ?R) s1)))"
    by (simp add: as_processNextItem_def)
  with in1 n show ?thesis
    by (intro exI [of _ s1] exI conjI) (auto simp: s1_def)
qed

definition dep_f :: deployment where
  "dep_f = \<lparr> dep_Meta = sample_meta, dep_Replicas = Some 0, dep_TemplateLabels = [''app'' \<mapsto> ''f''] \<rparr>"

definition aenv_f :: aenv where
  "aenv_f = \<lparr> ae_Get = (\<lambda>_. Inr dep_f), ae_List = (\<lambda>_ _. Inr []), ae_IsPodReady = (\<lambda>_. False), ae_now = 9,
     ae_ScalerGet = (\<lambda>_. Inr dep_f), ae_Update = (\<lambda>_ _. None) \<rparr>"

lemma key_f_name: "NamespacedNameFromKey key_f = Ret (''default'', ''f'')"
  by (simp add: NamespacedNameFromKey_def key_f_def go_index_def Let_def)

text \<open>The synchronous configuration of the trace experiment: a target of one and a scale-down delay of 30 seconds.\<close>

definition sync_as :: "(duration, int) autoscalerImpl" where
  "sync_as = as_Run (NewKnativeAutoscaler (const_buckets (Fin 0) (Fin 0)) max_window
     (sample_kc\<lparr>kc_TargetConcurrency := Fin 1, kc_ScaleDownDelaySeconds := 30\<rparr>) [key_f])"

theorem first_request_scales_up_witness:
  "\<exists>s1 s2 n. as_ReqIn 7 req_f sync_as = Ret s1 \<and>
     as_processNextItem (const_buckets (Fin 0) (Fin 0)) max_window aenv_f (Some key_f) s1 = Ret (True, s2) \<and>
     ScaleUpdate key_f n \<in> set (ai_out s2) \<and> 1 \<le> n"
proof -
  let ?B = "const_buckets (Fin 0) (Fin 0)"
  obtain d where d: "ai_deciders sync_as key_f = Some d" by (simp add: sync_as_def as_Run_def NewKnativeAutoscaler_def Let_def)
  then obtain th tick where dd: "d = NewKPADecider ?B max_window key_f (Fin 1) (Fin 1000) (Fin 2)
      (int64 (f_to_int (Fin 60) * Second)) (int64 (f_to_int (f_mul (f_div (Fin 10) (Fin 100)) (Fin 60)) * Second)) th (int64 (30 * Second)) tick"
    by (auto simp: sync_as_def as_Run_def NewKnativeAutoscaler_def sample_kc_def Let_def)
  have delay: "0 < int64 (30 * Second)" by (subst int64_id) (simp_all add: Second_def)
  have ok: "Desired d = 0" "rates_ok d 1000 2" "kp_delayWindow d = Some 0" "kp_maxPanicPods d = 0"
    "rs_concurrency (co_RequestStats (kp_Collector d)) = Fin (of_int 0)" "averages_ok ?B (ae_now aenv_f) d"
    by (simp_all add: dd delay NewKPADecider_def Desired_def rates_ok_def averages_ok_def const_buckets_def NewCollector_def
        NewRequestStats_def max_window_def Let_def)
  have s: "ai_running sync_as" "\<not> ai_async sync_as" "rq_Target req_f = key_f"
    by (simp_all add: req_f_def sync_as_def as_Run_def NewKnativeAutoscaler_def sample_kc_def Let_def)
  have e: "ae_Get aenv_f nn = Inr dep_f" "ae_ScalerGet aenv_f nn = Inr dep_f" "om_DeletionTimestamp (dep_Meta dep_f) = None"
    "dep_Replicas dep_f = Some 0" "ae_List aenv_f ns l = Inr []" "ae_Update aenv_f dep_f n = None" for nn ns l n
    by (simp_all add: aenv_f_def dep_f_def sample_meta_def)
  have w: "tw_Current max_window w < 2 ^ 31" if "kp_delayWindow d = Some w" for w using that ok(3) by (simp add: max_window_def)
  have "0 \<le> kp_maxPanicPods d" "kp_maxPanicPods d < 2 ^ 31" using ok(4) by simp_all
  from first_request_scales_up [OF s(1,2) d s(3) ok(1,2) w this ok(5) _ _ ok(6) max_window_laws max_window_max_laws key_f_name e(1,2,3,4,5) _ e(6), of 7]
  show ?thesis by auto
qed

text \<open>The targets of a request sequence in the order of their first appearance.\<close>

fun first_seen :: "string list \<Rightarrow> string list \<Rightarrow> string list" where
  "first_seen [] acc = acc"
| "first_seen (k # ks) acc = first_seen ks (if k \<in> set acc then acc else acc @ [k])"

text \<open>The one-time autoscaler scales every target once. After any sequence of requests on a
  fresh autoscaler exactly the targets of the requests have been scaled, each once, to the
  initial scale, in the order in which they first appeared.\<close>

theorem onetime_scales_once:
  "ot_out (foldl (\<lambda>s req. ot_ReqIn req s) (NewOneTimeAutoscaler cfg keys) reqs) =
     map (\<lambda>k. GoScale k (oc_InitialScale cfg)) (first_seen (map rq_Target reqs) []) \<and>
   distinct (first_seen (map rq_Target reqs) []) \<and> set (first_seen (map rq_Target reqs) []) = rq_Target ` set reqs"
proof -
  have fs: "distinct acc \<Longrightarrow> distinct (first_seen ks acc) \<and> set (first_seen ks acc) = set ks \<union> set acc" for ks acc
  proof (induction ks arbitrary: acc)
    case (Cons k ks)
    show ?case using Cons.IH [of "if k \<in> set acc then acc else acc @ [k]"] Cons.prems by auto
  qed simp
  have run: "ot_out (foldl (\<lambda>s req. ot_ReqIn req s) s reqs) = map (\<lambda>k. GoScale k (ot_initialScale s)) (first_seen (map rq_Target reqs) acc)"
    if "\<And>k. ot_seen s k = Some True \<longleftrightarrow> k \<in> set acc" and "ot_out s = map (\<lambda>k. GoScale k (ot_initialScale s)) acc" for s acc
    using that
  proof (induction reqs arbitrary: s acc)
    case (Cons req reqs)
    let ?s = "ot_ReqIn req s" and ?acc = "if rq_Target req \<in> set acc then acc else acc @ [rq_Target req]"
    have i: "ot_initialScale ?s = ot_initialScale s" by (simp add: ot_ReqIn_def Let_def)
    have "ot_seen ?s k = Some True \<longleftrightarrow> k \<in> set ?acc" for k using Cons.prems(1) by (auto simp: ot_ReqIn_def Let_def)
    moreover have "ot_out ?s = map (\<lambda>k. GoScale k (ot_initialScale ?s)) ?acc"
      using Cons.prems by (auto simp: ot_ReqIn_def Let_def)
    ultimately show ?case using Cons.IH [of ?s ?acc] i by simp
  qed simp
  have "ot_seen (NewOneTimeAutoscaler cfg keys) k \<noteq> Some True" for k
    by (simp add: NewOneTimeAutoscaler_def foldl_upd [of "\<lambda>_. False"])
  from run [of "NewOneTimeAutoscaler cfg keys" "[]"] this fs [of "[]" "map rq_Target reqs"]
  show ?thesis by (simp add: NewOneTimeAutoscaler_def)
qed

end
