(* ===== verification/Gateway.thy ===== *)
theory Gateway
  imports Dispatcher Autoscaler
begin

text \<open>
  \<open>src/pkg/gateway\<close>: the gateway between the trace client and the dispatchers. \<open>interface.go\<close> keeps
  three buffers per target (external input, internal input, internal output) and one external
  output, and relays between them, calling the autoscaler on the way; \<open>k8s.go\<close> is the gateway
  over deployments, \<open>knative.go\<close> the one over Knative services.

  Buffers are \<open>chann\<close> objects (parameters \<open>RQ\<close>, \<open>RS\<close>). One iteration of the \<open>relay\<close> loop is
  \<open>relay_request\<close> or \<open>relay_response\<close>; \<open>gw_step\<close> interleaves them with the client and with
  a dispatcher of which only its contract is used: one response per request taken, for the
  same invocation.
\<close>

section \<open>interface.go\<close>

definition tracingOutputPeriod0 :: duration where "tracingOutputPeriod0 = 5 * Second"

definition StartTracing :: "int \<Rightarrow> duration" where "StartTracing period = int64 (period * Second)"

record ('rq, 'rs) gatewayImpl =
  g_internalInputBuffers :: "string \<rightharpoonup> 'rq"
  g_internalOutputBuffers :: "string \<rightharpoonup> 'rs"
  g_externalInputs :: "string \<rightharpoonup> 'rq"
  g_externalOutput :: 'rs
  g_closed :: bool

definition newGatewayImpl :: "('rs, Response) chann \<Rightarrow> ('rq, 'rs) gatewayImpl" where
  "newGatewayImpl RS =
     \<lparr> g_internalInputBuffers = Map.empty, g_internalOutputBuffers = Map.empty, g_externalInputs = Map.empty,
       g_externalOutput = ch_New RS, g_closed = False \<rparr>"

text \<open>Sending on \<open>RequestChan(target)\<close>: for an unknown target the buffer is nil, and after \<open>Close\<close> the
  channel is closed.\<close>

definition RequestChan_send :: "('rq, Request) chann \<Rightarrow> string \<Rightarrow> Request \<Rightarrow> ('rq, 'rs) gatewayImpl \<Rightarrow> ('rq, 'rs) gatewayImpl go" where
  "RequestChan_send RQ target req g =
     (case g_externalInputs g target of
        None \<Rightarrow> Panic NilDeref
      | Some q \<Rightarrow>
          if g_closed g then Panic (PanicMsg ''send on closed channel'')
          else Ret (g\<lparr>g_externalInputs := (g_externalInputs g)(target \<mapsto> ch_Send RQ q req)\<rparr>))"

definition ResponseChan_recv :: "('rs, Response) chann \<Rightarrow> ('rq, 'rs) gatewayImpl \<Rightarrow> (Response \<times> ('rq, 'rs) gatewayImpl) option" where
  "ResponseChan_recv RS g =
     (case ch_Recv RS (g_externalOutput g) of None \<Rightarrow> None | Some (res, q) \<Rightarrow> Some (res, g\<lparr>g_externalOutput := q\<rparr>))"

text \<open>\<open>Close\<close> closes the external output and all external inputs. It is called after the context is
  cancelled, when the relays have returned; what is in the external output can still be
  received, and then the receiver sees the end.\<close>

definition gw_Close :: "('rq, 'rs) gatewayImpl \<Rightarrow> ('rq, 'rs) gatewayImpl" where
  "gw_Close g = g\<lparr>g_closed := True\<rparr>"

definition remaining :: "('rs, Response) chann \<Rightarrow> ('rq, 'rs) gatewayImpl \<Rightarrow> Response list" where
  "remaining RS g = ch_Items RS (g_externalOutput g)"

definition register :: "('rq, Request) chann \<Rightarrow> ('rs, Response) chann \<Rightarrow> string \<Rightarrow> ('rq, 'rs) gatewayImpl \<Rightarrow> ('rq, 'rs) gatewayImpl" where
  "register RQ RS key g =
     g\<lparr>g_externalInputs := (g_externalInputs g)(key \<mapsto> ch_New RQ),
       g_internalInputBuffers := (g_internalInputBuffers g)(key \<mapsto> ch_New RQ),
       g_internalOutputBuffers := (g_internalOutputBuffers g)(key \<mapsto> ch_New RS)\<rparr>"

text \<open>The locals of one relay loop.\<close>

record relay =
  rl_nSend :: int
  rl_nRecv :: int
  rl_lastTraceSendTime :: time
  rl_lastTraceRecvTime :: time

definition relay0 :: "time \<Rightarrow> time \<Rightarrow> relay" where
  "relay0 t1 t2 = \<lparr> rl_nSend = 0, rl_nRecv = 0, rl_lastTraceSendTime = t1, rl_lastTraceRecvTime = t2 \<rparr>"

text \<open>The first case of the \<open>select\<close>: \<open>None\<close> when the external input has nothing. The callback is
  the gateway's \<open>onReqIn\<close> on the autoscaler state \<open>a\<close>.\<close>

definition relay_request ::
  "('rq, Request) chann \<Rightarrow> ('rs, Response) chann \<Rightarrow> duration \<Rightarrow> (Request \<Rightarrow> 'a \<Rightarrow> 'a go) \<Rightarrow> time \<Rightarrow> string \<Rightarrow>
   ('rq, 'rs) gatewayImpl \<Rightarrow> relay \<Rightarrow> 'a \<Rightarrow> (('rq, 'rs) gatewayImpl \<times> relay \<times> 'a) go option" where
  "relay_request RQ RS period onReqIn now key g rl a =
     (case (g_externalInputs g key, g_internalInputBuffers g key) of
        (Some xin, Some iin) \<Rightarrow>
          (case ch_Recv RQ xin of
             None \<Rightarrow> None
           | Some (req, xin') \<Rightarrow>
               (let g1 = g\<lparr>g_externalInputs := (g_externalInputs g)(key \<mapsto> xin')\<rparr>
                in if rq_Target req \<noteq> key then
                     Some (Ret (g1\<lparr>g_externalOutput := ch_Send RS (g_externalOutput g1) (new_Response req INVALID_TARGET)\<rparr>, rl, a))
                   else
                     Some (go_bind (onReqIn req a) (\<lambda>a'.
                       let req' = req\<lparr>rq_GatewayRecvTS := now\<rparr>;
                           rl1 = rl\<lparr>rl_nSend := rl_nSend rl + 1\<rparr>;
                           rl2 = (if t_Sub now (rl_lastTraceSendTime rl1) > period then rl1\<lparr>rl_lastTraceSendTime := now\<rparr> else rl1)
                       in Ret (g1\<lparr>g_internalInputBuffers := (g_internalInputBuffers g1)(key \<mapsto> ch_Send RQ iin req')\<rparr>, rl2, a')))))
      | _ \<Rightarrow> Some (Panic NilDeref))"

definition relay_response ::
  "('rs, Response) chann \<Rightarrow> duration \<Rightarrow> (Response \<Rightarrow> 'a \<Rightarrow> 'a go) \<Rightarrow> string \<Rightarrow>
   ('rq, 'rs) gatewayImpl \<Rightarrow> relay \<Rightarrow> 'a \<Rightarrow> (('rq, 'rs) gatewayImpl \<times> relay \<times> 'a) go option" where
  "relay_response RS period onReqOut key g rl a =
     (case g_internalOutputBuffers g key of
        None \<Rightarrow> Some (Panic NilDeref)
      | Some iout \<Rightarrow>
          (case ch_Recv RS iout of
             None \<Rightarrow> None
           | Some (res, iout') \<Rightarrow>
               Some (go_bind (onReqOut res a) (\<lambda>a'.
                 let rl1 = rl\<lparr>rl_nRecv := rl_nRecv rl + 1\<rparr>;
                     rl2 = (if t_Sub (rs_GatewayRecvTS res) (rl_lastTraceRecvTime rl1) > period
                            then rl1\<lparr>rl_lastTraceRecvTime := rs_GatewayRecvTS res\<rparr> else rl1)
                 in Ret (g\<lparr>g_internalOutputBuffers := (g_internalOutputBuffers g)(key \<mapsto> iout'),
                           g_externalOutput := ch_Send RS (g_externalOutput g) res\<rparr>, rl2, a')))))"

section \<open>k8s.go\<close>

text \<open>\<open>autoscaler.Autoscaler\<close> is an interface value; the gateway starts with nil.\<close>

datatype ('b, 'w) as_obj = NilAutoscaler | KpaAutoscaler "('b, 'w) autoscalerImpl" | OneTimeObj OneTimeAutoscaler

fun obj_ReqIn :: "time \<Rightarrow> Request \<Rightarrow> ('b, 'w) as_obj \<Rightarrow> ('b, 'w) as_obj go" where
  "obj_ReqIn now req NilAutoscaler = Panic NilDeref"
| "obj_ReqIn now req (KpaAutoscaler s) = go_bind (as_ReqIn now req s) (\<lambda>s'. Ret (KpaAutoscaler s'))"
| "obj_ReqIn now req (OneTimeObj s) = Ret (OneTimeObj (ot_ReqIn req s))"

fun obj_ReqOut :: "time \<Rightarrow> Response \<Rightarrow> ('b, 'w) as_obj \<Rightarrow> ('b, 'w) as_obj go" where
  "obj_ReqOut now res NilAutoscaler = Panic NilDeref"
| "obj_ReqOut now res (KpaAutoscaler s) = go_bind (as_ReqOut now res s) (\<lambda>s'. Ret (KpaAutoscaler s'))"
| "obj_ReqOut now res (OneTimeObj s) = Ret (OneTimeObj (ot_ReqOut res s))"

fun obj_Run :: "('b, 'w) as_obj \<Rightarrow> ('b, 'w) as_obj" where
  "obj_Run NilAutoscaler = NilAutoscaler"
| "obj_Run (KpaAutoscaler s) = KpaAutoscaler (as_Run s)"
| "obj_Run (OneTimeObj s) = OneTimeObj (ot_Run s)"

text \<open>The constructor function chosen by the framework flag, with the configuration pointer.\<close>

datatype new_as = NoAutoscalerFn | KpaFn "AutoscalerConfig option" | OneTimeFn "AutoscalerConfig option"

record ('rq, 'rs, 'm, 'q, 'p, 'b, 'w) k8sGateway =
  kg_impl :: "('rq, 'rs) gatewayImpl"
  kg_dispatchTimeout :: duration
  kg_dispatchers :: "string \<rightharpoonup> ('m, 'q, 'p) PodDispatcher"
  kg_autoscaler :: "('b, 'w) as_obj"
  kg_newAutoscalerFn :: new_as

definition NewK8sGateway ::
  "('rs, Response) chann \<Rightarrow> duration \<Rightarrow> string \<Rightarrow> apierr + AutoscalerConfig option \<Rightarrow>
   apierr + ('rq, 'rs, 'm, 'q, 'p, 'b, 'w) k8sGateway" where
  "NewK8sGateway RS dispatchTimeout asFramework config =
     (case config of
        Inl err \<Rightarrow> Inl (OtherErr (''failed to parse autoscaler config: '' @ err_Error err))
      | Inr asConfig \<Rightarrow>
          Inr \<lparr> kg_impl = newGatewayImpl RS, kg_dispatchTimeout = dispatchTimeout, kg_dispatchers = Map.empty,
                kg_autoscaler = NilAutoscaler,
                kg_newAutoscalerFn =
                  (if asFramework = ''kpa'' then KpaFn asConfig
                   else if asFramework = ''one-time'' then OneTimeFn asConfig else NoAutoscalerFn) \<rparr>)"

text \<open>Calling the constructor function: selecting a field of a nil configuration panics.\<close>

fun newAutoscaler :: "'b buckets \<Rightarrow> 'w window \<Rightarrow> new_as \<Rightarrow> string list \<Rightarrow> ('b, 'w) as_obj go" where
  "newAutoscaler B W NoAutoscalerFn keys = Ret NilAutoscaler"
| "newAutoscaler B W (KpaFn cfg) keys =
     (case cfg of
        None \<Rightarrow> Panic NilDeref
      | Some c \<Rightarrow> go_bind (kc_Complete (ac_Knative c)) (\<lambda>kc. Ret (KpaAutoscaler (NewKnativeAutoscaler B W kc keys))))"
| "newAutoscaler B W (OneTimeFn cfg) keys =
     (case cfg of
        None \<Rightarrow> Panic NilDeref
      | Some c \<Rightarrow> Ret (OneTimeObj (NewOneTimeAutoscaler (oc_Complete (ac_OneTime c)) keys)))"

definition add_target ::
  "('rq, Request) chann \<Rightarrow> ('rs, Response) chann \<Rightarrow> ('m, nat) shared_map \<Rightarrow> ('q, string) chann \<Rightarrow> objmeta \<Rightarrow>
   ('rq, 'rs, 'm, 'q, 'p, 'b, 'w) k8sGateway \<Rightarrow> ('rq, 'rs, 'm, 'q, 'p, 'b, 'w) k8sGateway" where
  "add_target RQ RS S T target g =
     (let key = KeyFromObject target
      in g\<lparr>kg_impl := register RQ RS key (kg_impl g),
           kg_dispatchers := (kg_dispatchers g)(key \<mapsto> NewPodDispatcher S T key (kg_dispatchTimeout g))\<rparr>)"

definition SetUpWithManager ::
  "('rq, Request) chann \<Rightarrow> ('rs, Response) chann \<Rightarrow> ('m, nat) shared_map \<Rightarrow> ('q, string) chann \<Rightarrow> 'b buckets \<Rightarrow> 'w window \<Rightarrow>
   apierr + objmeta list \<Rightarrow> apierr option \<Rightarrow> ('rq, 'rs, 'm, 'q, 'p, 'b, 'w) k8sGateway \<Rightarrow>
   (apierr option \<times> ('rq, 'rs, 'm, 'q, 'p, 'b, 'w) k8sGateway) go" where
  "SetUpWithManager RQ RS S T B W listed built g =
     (case listed of
        Inl err \<Rightarrow> Ret (Some (OtherErr (''error listing deployments in k8s gateway: '' @ err_Error err)), g)
      | Inr targets \<Rightarrow>
          (let g1 = foldl (\<lambda>g t. add_target RQ RS S T t g) g targets
           in go_bind (newAutoscaler B W (kg_newAutoscalerFn g1) (map KeyFromObject targets)) (\<lambda>a.
                Ret (built, g1\<lparr>kg_autoscaler := a\<rparr>))))"

definition FilterEvent :: "objmeta \<Rightarrow> bool" where "FilterEvent obj = IsTraceWorkload obj"

text \<open>The goroutines \<open>Start\<close> launches, in this order: a relay and a dispatcher per target, then the
  autoscaler. \<open>Start\<close> itself changes nothing: \<open>obj_Run\<close> is what the goroutine of the autoscaler does
  when it is scheduled (\<open>ka_step\<close> below).\<close>

datatype gw_go = GoRelay string | GoDispatcher string | GoAutoscaler

definition kg_Start :: "(string set \<Rightarrow> string list) \<Rightarrow> ('rq, 'rs, 'm, 'q, 'p, 'b, 'w) k8sGateway \<Rightarrow> gw_go list" where
  "kg_Start rng g =
     concat (map (\<lambda>k. [GoRelay k, GoDispatcher k]) (rng (dom (kg_dispatchers g)))) @
     (case kg_autoscaler g of NilAutoscaler \<Rightarrow> [] | _ \<Rightarrow> [GoAutoscaler])"

text \<open>The autoscaler of a started gateway, with whether its goroutine has begun to run. Nothing orders
  \<open>Run\<close> and the callbacks of the relays.\<close>

inductive ka_step ::
  "'b buckets \<Rightarrow> 'w window \<Rightarrow> bool \<times> ('b, 'w) as_obj \<Rightarrow> bool \<times> ('b, 'w) as_obj \<Rightarrow> bool" for B W where
  begin_run: "ka_step B W (False, a) (True, obj_Run a)"
| kpa_work: "as_step B W s s' \<Longrightarrow> ka_step B W (begun, KpaAutoscaler s) (begun, KpaAutoscaler s')"

text \<open>\<open>Reconcile\<close> of a target; \<open>get\<close> and \<open>listPods\<close> answer for the API server. A failed listing is
  only logged, and the empty pod list goes on.\<close>

definition kg_Reconcile ::
  "('m, nat) shared_map \<Rightarrow> ('q, string) chann \<Rightarrow> ('p, 'c) chann \<Rightarrow> backend_cfg \<Rightarrow> (string \<Rightarrow> apierr + 'c) \<Rightarrow>
   (string smap \<Rightarrow> string list) \<Rightarrow> (nat smap \<Rightarrow> string list) \<Rightarrow> (string \<times> string \<Rightarrow> apierr + deployment) \<Rightarrow>
   (string \<Rightarrow> string smap \<Rightarrow> apierr + pod list) \<Rightarrow> (pod \<Rightarrow> bool) \<Rightarrow> string \<times> string \<Rightarrow>
   ('rq, 'rs, 'm, 'q, 'p, 'b, 'w) k8sGateway \<Rightarrow> (apierr list \<times> ('rq, 'rs, 'm, 'q, 'p, 'b, 'w) k8sGateway) go" where
  "kg_Reconcile S T C cfg dial rng1 rng2 get listPods ready nn g =
     (let key = NamespacedName_String nn
      in case get nn of
           Inl err \<Rightarrow> if IsNotFound err then Ret ([], g) else Ret ([err], g)
         | Inr target \<Rightarrow>
             (let pods = (case listPods (om_Namespace (dep_Meta target)) (dep_TemplateLabels target) of Inl _ \<Rightarrow> [] | Inr ps \<Rightarrow> ps);
                  readyPods = filter ready pods
              in case kg_dispatchers g key of
                   None \<Rightarrow> Ret ([], g)
                 | Some pd \<Rightarrow>
                     go_bind (Reconcile S T C cfg dial rng1 rng2 readyPods pd) (\<lambda>(errs, closed, pd').
                       Ret (errs, g\<lparr>kg_dispatchers := (kg_dispatchers g)(key \<mapsto> pd')\<rparr>))))"

section \<open>knative.go\<close>

record ('rq, 'rs, 'p) knativeGateway =
  ng_impl :: "('rq, 'rs) gatewayImpl"
  ng_dispatchTimeout :: duration
  ng_dispatchers :: "string \<rightharpoonup> 'p KnServiceDispatcher"

definition NewKnativeGateway :: "('rs, Response) chann \<Rightarrow> duration \<Rightarrow> ('rq, 'rs, 'p) knativeGateway" where
  "NewKnativeGateway RS dispatchTimeout =
     \<lparr> ng_impl = newGatewayImpl RS, ng_dispatchTimeout = dispatchTimeout, ng_dispatchers = Map.empty \<rparr>"

definition ng_onReqIn :: "Request \<Rightarrow> 'a \<Rightarrow> 'a go" where "ng_onReqIn req a = Ret a"

definition ng_onReqOut :: "Response \<Rightarrow> 'a \<Rightarrow> 'a go" where "ng_onReqOut res a = Ret a"

definition ng_Start :: "(string set \<Rightarrow> string list) \<Rightarrow> ('rq, 'rs, 'p) knativeGateway \<Rightarrow> gw_go list" where
  "ng_Start rng g = concat (map (\<lambda>k. [GoRelay k, GoDispatcher k]) (rng (dom (ng_dispatchers g))))"

text \<open>The services that the label selector lists, with their URL; setting up stops at the first
  dispatcher that cannot be created.\<close>

fun ng_add ::
  "('rq, Request) chann \<Rightarrow> ('rs, Response) chann \<Rightarrow> ('p, 'c) chann \<Rightarrow> backend_cfg \<Rightarrow> (string \<Rightarrow> apierr + 'c) \<Rightarrow>
   (objmeta \<times> string) list \<Rightarrow> ('rq, 'rs, 'p) knativeGateway \<Rightarrow> (apierr option \<times> ('rq, 'rs, 'p) knativeGateway) go" where
  "ng_add RQ RS C cfg dial [] g = Ret (None, g)"
| "ng_add RQ RS C cfg dial ((service, url) # rest) g =
     (let key = KeyFromObject service; g1 = g\<lparr>ng_impl := register RQ RS key (ng_impl g)\<rparr>
      in go_bind (NewKnServiceDispatcher C cfg (dial url) key (ng_dispatchTimeout g) url) (\<lambda>r.
           case r of
             Inl err \<Rightarrow> Ret (Some (OtherErr (''failed to create knative service dispatcher for '' @ om_Namespace service @ ''/'' @
                             om_Name service @ '' ('' @ url @ ''): '' @ err_Error err)), g1)
           | Inr kd \<Rightarrow> ng_add RQ RS C cfg dial rest (g1\<lparr>ng_dispatchers := (ng_dispatchers g1)(key \<mapsto> kd)\<rparr>)))"

definition ng_SetUpWithManager ::
  "('rq, Request) chann \<Rightarrow> ('rs, Response) chann \<Rightarrow> ('p, 'c) chann \<Rightarrow> backend_cfg \<Rightarrow> (string \<Rightarrow> apierr + 'c) \<Rightarrow>
   apierr + (objmeta \<times> string) list \<Rightarrow> ('rq, 'rs, 'p) knativeGateway \<Rightarrow> (apierr option \<times> ('rq, 'rs, 'p) knativeGateway) go" where
  "ng_SetUpWithManager RQ RS C cfg dial listed g =
     (case listed of
        Inl err \<Rightarrow> Ret (Some (OtherErr (''error listing kn services in knative gateway: '' @ err_Error err)), g)
      | Inr services \<Rightarrow> ng_add RQ RS C cfg dial services g)"

section \<open>The running relay of one target\<close>

text \<open>Relays of different targets share only the external output, to which each appends. The
  history: \<open>gs_sent\<close> and \<open>gs_received\<close> are the client's requests and responses, \<open>gs_pending\<close> the
  requests a dispatcher has taken and not yet answered.\<close>

record ('rq, 'rs, 'a) gw_sys =
  gs_g :: "('rq, 'rs) gatewayImpl"
  gs_rl :: relay
  gs_a :: 'a
  gs_sent :: "Request multiset"
  gs_pending :: "Request multiset"
  gs_received :: "Response multiset"

definition gw_init :: "('rq, Request) chann \<Rightarrow> ('rs, Response) chann \<Rightarrow> string \<Rightarrow> ('rq, 'rs, 'a) gw_sys \<Rightarrow> bool" where
  "gw_init RQ RS key s \<longleftrightarrow>
     gs_g s = register RQ RS key (newGatewayImpl RS) \<and> (\<exists>t1 t2. gs_rl s = relay0 t1 t2) \<and>
     gs_sent s = {#} \<and> gs_pending s = {#} \<and> gs_received s = {#}"

inductive gw_step ::
  "('rq, Request) chann \<Rightarrow> ('rs, Response) chann \<Rightarrow> duration \<Rightarrow> (Request \<Rightarrow> 'a \<Rightarrow> 'a go) \<Rightarrow> (Response \<Rightarrow> 'a \<Rightarrow> 'a go) \<Rightarrow> string \<Rightarrow>
   ('rq, 'rs, 'a) gw_sys \<Rightarrow> ('rq, 'rs, 'a) gw_sys \<Rightarrow> bool" for RQ RS period onIn onOut key where
  client_send: "RequestChan_send RQ key req (gs_g s) = Ret g' \<Longrightarrow>
     gw_step RQ RS period onIn onOut key s (s\<lparr>gs_g := g', gs_sent := add_mset req (gs_sent s)\<rparr>)"
| relay_in: "relay_request RQ RS period onIn now key (gs_g s) (gs_rl s) (gs_a s) = Some (Ret (g', rl', a')) \<Longrightarrow>
     gw_step RQ RS period onIn onOut key s (s\<lparr>gs_g := g', gs_rl := rl', gs_a := a'\<rparr>)"
| take_req: "g_internalInputBuffers (gs_g s) key = Some q \<Longrightarrow> ch_Recv RQ q = Some (req, q') \<Longrightarrow>
     gw_step RQ RS period onIn onOut key s
       (s\<lparr>gs_g := (gs_g s)\<lparr>g_internalInputBuffers := (g_internalInputBuffers (gs_g s))(key \<mapsto> q')\<rparr>,
          gs_pending := add_mset req (gs_pending s)\<rparr>)"
| answer: "gs_pending s = add_mset req P \<Longrightarrow> same_invocation (rs_Source res) req \<Longrightarrow>
     g_internalOutputBuffers (gs_g s) key = Some q \<Longrightarrow>
     gw_step RQ RS period onIn onOut key s
       (s\<lparr>gs_g := (gs_g s)\<lparr>g_internalOutputBuffers := (g_internalOutputBuffers (gs_g s))(key \<mapsto> ch_Send RS q res)\<rparr>,
          gs_pending := P\<rparr>)"
| relay_out: "relay_response RS period onOut key (gs_g s) (gs_rl s) (gs_a s) = Some (Ret (g', rl', a')) \<Longrightarrow>
     gw_step RQ RS period onIn onOut key s (s\<lparr>gs_g := g', gs_rl := rl', gs_a := a'\<rparr>)"
| client_recv: "ResponseChan_recv RS (gs_g s) = Some (res, g') \<Longrightarrow>
     gw_step RQ RS period onIn onOut key s (s\<lparr>gs_g := g', gs_received := add_mset res (gs_received s)\<rparr>)"

inductive_cases gw_stepE: "gw_step RQ RS period onIn onOut key s t"

abbreviation req_ids :: "Request multiset \<Rightarrow> string multiset" where "req_ids M \<equiv> image_mset rq_ID M"

abbreviation res_ids :: "Response multiset \<Rightarrow> string multiset" where "res_ids M \<equiv> image_mset (\<lambda>r. rq_ID (rs_Source r)) M"

text \<open>What the buffers hold: requests not relayed yet, requests relayed, responses not relayed yet,
  responses not delivered yet.\<close>

definition gw_inv :: "('rq, Request) chann \<Rightarrow> ('rs, Response) chann \<Rightarrow> string \<Rightarrow> ('rq, 'rs, 'a) gw_sys \<Rightarrow> bool" where
  "gw_inv RQ RS key s \<longleftrightarrow>
     (\<exists>xin iin iout.
        g_externalInputs (gs_g s) key = Some xin \<and> g_internalInputBuffers (gs_g s) key = Some iin \<and>
        g_internalOutputBuffers (gs_g s) key = Some iout \<and>
        req_ids (gs_sent s) = req_ids (mset (ch_Items RQ xin)) + req_ids (mset (ch_Items RQ iin)) + req_ids (gs_pending s) +
          res_ids (mset (ch_Items RS iout)) + res_ids (mset (ch_Items RS (g_externalOutput (gs_g s)))) + res_ids (gs_received s) \<and>
        rl_nSend (gs_rl s) - rl_nRecv (gs_rl s) =
          int (length (ch_Items RQ iin)) + int (size (gs_pending s)) + int (length (ch_Items RS iout)))"

lemma gw_inv_init: "chann_laws RQ \<Longrightarrow> chann_laws RS \<Longrightarrow> gw_init RQ RS key s \<Longrightarrow> gw_inv RQ RS key s"
  by (auto simp: gw_init_def gw_inv_def register_def newGatewayImpl_def relay0_def chann_New)

lemma relay_request_Some:
  assumes "relay_request RQ RS period onIn now key g rl a = Some (Ret (g', rl', a'))"
    and "g_externalInputs g key = Some xin" and "g_internalInputBuffers g key = Some iin"
  obtains (invalid) req xin' where "ch_Recv RQ xin = Some (req, xin')" "rq_Target req \<noteq> key" "rl' = rl" "a' = a"
      "g' = g\<lparr>g_externalInputs := (g_externalInputs g)(key \<mapsto> xin'),
              g_externalOutput := ch_Send RS (g_externalOutput g) (new_Response req INVALID_TARGET)\<rparr>"
    | (relayed) req xin' where "ch_Recv RQ xin = Some (req, xin')" "rq_Target req = key" "onIn req a = Ret a'"
      "rl_nSend rl' = rl_nSend rl + 1" "rl_nRecv rl' = rl_nRecv rl"
      "g' = g\<lparr>g_externalInputs := (g_externalInputs g)(key \<mapsto> xin'),
              g_internalInputBuffers := (g_internalInputBuffers g)(key \<mapsto> ch_Send RQ iin (req\<lparr>rq_GatewayRecvTS := now\<rparr>))\<rparr>"
  using assms by (auto simp: relay_request_def Let_def split: option.splits if_splits)

lemma relay_response_Some:
  assumes "relay_response RS period onOut key g rl a = Some (Ret (g', rl', a'))"
    and "g_internalOutputBuffers g key = Some iout"
  obtains res iout' where "ch_Recv RS iout = Some (res, iout')" "onOut res a = Ret a'"
      "rl_nSend rl' = rl_nSend rl" "rl_nRecv rl' = rl_nRecv rl + 1"
      "g' = g\<lparr>g_internalOutputBuffers := (g_internalOutputBuffers g)(key \<mapsto> iout'),
              g_externalOutput := ch_Send RS (g_externalOutput g) res\<rparr>"
  using assms by (auto simp: relay_response_def Let_def split: option.splits)

lemma gw_inv_step:
  assumes "gw_step RQ RS period onIn onOut key s t" and RQ: "chann_laws RQ" and RS: "chann_laws RS" and inv: "gw_inv RQ RS key s"
  shows "gw_inv RQ RS key t"
proof -
  from inv obtain xin iin iout where b: "g_externalInputs (gs_g s) key = Some xin" "g_internalInputBuffers (gs_g s) key = Some iin"
    "g_internalOutputBuffers (gs_g s) key = Some iout"
    and c: "req_ids (gs_sent s) = req_ids (mset (ch_Items RQ xin)) + req_ids (mset (ch_Items RQ iin)) + req_ids (gs_pending s) +
          res_ids (mset (ch_Items RS iout)) + res_ids (mset (ch_Items RS (g_externalOutput (gs_g s)))) + res_ids (gs_received s)"
    and n: "rl_nSend (gs_rl s) - rl_nRecv (gs_rl s) =
          int (length (ch_Items RQ iin)) + int (size (gs_pending s)) + int (length (ch_Items RS iout))"
    unfolding gw_inv_def by blast
  note ch = chann_Send [OF RQ] chann_Send [OF RS]
  from assms(1) show ?thesis
  proof cases
    case (client_send req g')
    with b c n show ?thesis by (auto simp: gw_inv_def RequestChan_send_def ch split: if_splits)
  next
    case (relay_in now g' rl' a')
    from relay_in(2) b(1,2) show ?thesis
    proof (cases rule: relay_request_Some)
      case (invalid req xin')
      with relay_in(1) b c n chann_Recv_Some [OF RQ invalid(1)] show ?thesis
        by (auto simp: gw_inv_def ch new_Response_def)
    next
      case (relayed req xin')
      with relay_in(1) b c n chann_Recv_Some [OF RQ relayed(1)] show ?thesis
        by (auto simp: gw_inv_def ch)
    qed
  next
    case (take_req q req q')
    with b c n chann_Recv_Some [OF RQ take_req(3)] show ?thesis by (auto simp: gw_inv_def)
  next
    case (answer req P res q)
    with b c n show ?thesis by (auto simp: gw_inv_def ch same_invocation_def)
  next
    case (relay_out g' rl' a')
    from relay_out(2) b(3) obtain res iout' where r: "ch_Recv RS iout = Some (res, iout')" "rl_nSend rl' = rl_nSend (gs_rl s)"
      "rl_nRecv rl' = rl_nRecv (gs_rl s) + 1"
      "g' = (gs_g s)\<lparr>g_internalOutputBuffers := (g_internalOutputBuffers (gs_g s))(key \<mapsto> iout'),
              g_externalOutput := ch_Send RS (g_externalOutput (gs_g s)) res\<rparr>"
      by (rule relay_response_Some)
    with relay_out(1) b c n chann_Recv_Some [OF RS r(1)] show ?thesis by (auto simp: gw_inv_def ch)
  next
    case (client_recv res g')
    then obtain q where q: "ch_Recv RS (g_externalOutput (gs_g s)) = Some (res, q)" "g' = (gs_g s)\<lparr>g_externalOutput := q\<rparr>"
      by (auto simp: ResponseChan_recv_def split: option.splits)
    with client_recv(1) b c n chann_Recv_Some [OF RS q(1)] show ?thesis by (auto simp: gw_inv_def)
  qed
qed

interpretation gw_system: inductive_invariant "gw_init RQ RS key" "gw_step RQ RS period onIn onOut key"
  "\<lambda>s. chann_laws RQ \<and> chann_laws RS \<longrightarrow> gw_inv RQ RS key s" for RQ RS key period onIn onOut
  by unfold_locales (auto intro: gw_inv_init gw_inv_step)

section \<open>The gateway as a service\<close>

definition gw_service :: "('rq, 'rs, 'a) gw_sys \<Rightarrow> service" where
  "gw_service s = \<lparr> sv_submitted = req_ids (gs_sent s), sv_answered = res_ids (gs_received s) \<rparr>"

lemma gw_service_step:
  assumes "gw_step RQ RS period onIn onOut key s t" and RS: "chann_laws RS" and inv: "gw_inv RQ RS key s"
  shows "gw_service t = gw_service s \<or> sv_step (gw_service s) (gw_service t)"
  using assms(1)
proof cases
  case (client_send req g')
  then show ?thesis using sv_step.submit [of "gw_service s" "rq_ID req"] by (simp add: gw_service_def)
next
  case (client_recv res g')
  then obtain q where "ch_Recv RS (g_externalOutput (gs_g s)) = Some (res, q)"
    by (auto simp: ResponseChan_recv_def split: option.splits)
  from chann_Recv_Some [OF RS this] inv have "rq_ID (rs_Source res) \<in># req_ids (gs_sent s) - res_ids (gs_received s)"
    by (auto simp: gw_inv_def)
  then show ?thesis using client_recv(1) sv_step.answer [of "rq_ID (rs_Source res)" "gw_service s"] by (simp add: gw_service_def)
qed (simp_all add: gw_service_def)

interpretation gw_serves: refines_service
  "\<lambda>s. chann_laws RQ \<and> chann_laws RS \<and> gw_init RQ RS key s" "gw_step RQ RS period onIn onOut key"
  "\<lambda>s. chann_laws RQ \<and> chann_laws RS \<and> gw_inv RQ RS key s" gw_service for RQ RS key period onIn onOut
proof unfold_locales
  fix s
  assume "chann_laws RQ \<and> chann_laws RS \<and> gw_init RQ RS key s"
  then show "sv_init (gw_service s)" by (auto simp: gw_init_def sv_init_def gw_service_def)
qed (auto intro: gw_inv_init gw_inv_step dest: gw_service_step)

section \<open>Properties\<close>

text \<open>The gateway promises its client what the dispatcher promises the gateway. If the
  dispatcher behind it answers every request it takes, every run of a target's relay is a run
  of the abstract service: what the client sends is submitted, what it receives answers a
  request that was submitted and not answered yet, and all other steps are invisible, whatever
  the callbacks of the autoscaler do.\<close>

theorem gateway_refines_service:
  assumes "chann_laws RQ" and "chann_laws RS" and "reachable (gw_init RQ RS key) (gw_step RQ RS period onIn onOut key) s"
  shows "reachable sv_init sv_step (gw_service s) \<and>
     (\<forall>t. gw_step RQ RS period onIn onOut key s t \<longrightarrow> gw_service t = gw_service s \<or> sv_step (gw_service s) (gw_service t))"
proof -
  have "reachable (\<lambda>s. chann_laws RQ \<and> chann_laws RS \<and> gw_init RQ RS key s) (gw_step RQ RS period onIn onOut key) s"
    using reachable_mono [OF assms(3)] assms(1,2) by simp
  from gw_serves.simulates [OF this] gw_serves.step_simulated [OF this] show ?thesis by blast
qed

text \<open>C22: the gateway neither loses nor duplicates a request. In every reachable state of a relay
  every request the client sent is in exactly one place: waiting in a buffer, with the
  dispatcher, in a response under way, or answered; the counters of the relay differ by the
  requests that are between the two internal buffers. When all buffers are empty and nothing
  is pending, the client has received exactly one response per request.\<close>

theorem relay_conserves:
  assumes "chann_laws RQ" and "chann_laws RS" and "reachable (gw_init RQ RS key) (gw_step RQ RS period onIn onOut key) s"
  shows "\<exists>xin iin iout.
     g_externalInputs (gs_g s) key = Some xin \<and> g_internalInputBuffers (gs_g s) key = Some iin \<and>
     g_internalOutputBuffers (gs_g s) key = Some iout \<and>
     req_ids (gs_sent s) = req_ids (mset (ch_Items RQ xin)) + req_ids (mset (ch_Items RQ iin)) + req_ids (gs_pending s) +
       res_ids (mset (ch_Items RS iout)) + res_ids (mset (ch_Items RS (g_externalOutput (gs_g s)))) + res_ids (gs_received s) \<and>
     rl_nSend (gs_rl s) - rl_nRecv (gs_rl s) =
       int (length (ch_Items RQ iin)) + int (size (gs_pending s)) + int (length (ch_Items RS iout)) \<and>
     (ch_Items RQ xin = [] \<longrightarrow> rl_nSend (gs_rl s) = rl_nRecv (gs_rl s) \<longrightarrow> ch_Items RS (g_externalOutput (gs_g s)) = [] \<longrightarrow>
        res_ids (gs_received s) = req_ids (gs_sent s))"
proof -
  have "gw_inv RQ RS key s" using gw_system.inv_reachable [OF assms(3)] assms(1,2) by simp
  then obtain xin iin iout where b: "g_externalInputs (gs_g s) key = Some xin" "g_internalInputBuffers (gs_g s) key = Some iin"
    "g_internalOutputBuffers (gs_g s) key = Some iout"
    and c: "req_ids (gs_sent s) = req_ids (mset (ch_Items RQ xin)) + req_ids (mset (ch_Items RQ iin)) + req_ids (gs_pending s) +
          res_ids (mset (ch_Items RS iout)) + res_ids (mset (ch_Items RS (g_externalOutput (gs_g s)))) + res_ids (gs_received s)"
    and n: "rl_nSend (gs_rl s) - rl_nRecv (gs_rl s) =
          int (length (ch_Items RQ iin)) + int (size (gs_pending s)) + int (length (ch_Items RS iout))"
    unfolding gw_inv_def by blast
  have "rl_nSend (gs_rl s) = rl_nRecv (gs_rl s) \<Longrightarrow> ch_Items RQ iin = [] \<and> gs_pending s = {#} \<and> ch_Items RS iout = []"
    using n by (auto simp: add_nonneg_eq_0_iff)
  with b c n show ?thesis by auto
qed

definition gw0 :: "(Request list, Response list, unit) gw_sys" where
  "gw0 = \<lparr> gs_g = register fifo fifo key_f (newGatewayImpl fifo), gs_rl = relay0 1 1, gs_a = (), gs_sent = {#}, gs_pending = {#},
           gs_received = {#} \<rparr>"

definition gw1 :: "(Request list, Response list, unit) gw_sys" where
  "gw1 = gw0\<lparr>gs_g := (gs_g gw0)\<lparr>g_externalInputs := [key_f \<mapsto> [req_f]]\<rparr>, gs_sent := {#req_f#}\<rparr>"

lemma gw1_reach: "reachable (gw_init fifo fifo key_f) (gw_step fifo fifo tracingOutputPeriod0 ng_onReqIn ng_onReqOut key_f) gw1"
proof (rule reach_step)
  show "reachable (gw_init fifo fifo key_f) (gw_step fifo fifo tracingOutputPeriod0 ng_onReqIn ng_onReqOut key_f) gw0"
    by (rule reach_init) (auto simp: gw_init_def gw0_def)
  have "RequestChan_send fifo key_f req_f (gs_g gw0) = Ret ((gs_g gw0)\<lparr>g_externalInputs := [key_f \<mapsto> [req_f]]\<rparr>)"
    by (simp add: RequestChan_send_def gw0_def register_def newGatewayImpl_def fifo_def)
  from gw_step.client_send [OF this, of fifo tracingOutputPeriod0 ng_onReqIn ng_onReqOut]
  show "gw_step fifo fifo tracingOutputPeriod0 ng_onReqIn ng_onReqOut key_f gw0 gw1" by (simp add: gw1_def gw0_def)
qed

theorem relay_conserves_witness:
  "\<exists>xin. g_externalInputs (gs_g gw1) key_f = Some xin \<and> {#''r1''#} = req_ids (mset xin) + res_ids (gs_received gw1)"
  using relay_conserves [OF fifo_laws fifo_laws gw1_reach]
  by (auto simp: gw1_def gw0_def register_def newGatewayImpl_def fifo_def req_f_def)

lemma kpa_reachable_serves:
  "reachable (as_init B W keys) (as_step B W) s \<Longrightarrow> k \<in> set keys \<Longrightarrow> kpa_serves s k"
  using as_system.inv_reachable [of B W keys s] by (simp add: as_inv_def kpa_serves_def)

definition buffered :: "('rq, 'rs) gatewayImpl \<Rightarrow> string \<Rightarrow> bool" where
  "buffered g k \<longleftrightarrow> g_externalInputs g k \<noteq> None \<and> g_internalInputBuffers g k \<noteq> None \<and> g_internalOutputBuffers g k \<noteq> None"

lemma relay_request_safe:
  assumes "buffered g key" and "kpa_serves s key"
    and "relay_request RQ RS period (obj_ReqIn now) now key g rl (KpaAutoscaler s) = Some r"
  shows "\<exists>x. r = Ret x"
proof -
  have "\<exists>s'. as_ReqIn now req s = Ret s'" if "rq_Target req = key" for req
    using kpa_as.in_returns assms(2) that by blast
  with assms(1,3) show ?thesis by (fastforce simp: buffered_def relay_request_def Let_def split: option.splits if_splits)
qed

lemma relay_response_safe:
  assumes "buffered g key" and "kpa_serves s key"
    and "\<And>q res q'. g_internalOutputBuffers g key = Some q \<Longrightarrow> ch_Recv RS q = Some (res, q') \<Longrightarrow> rq_Target (rs_Source res) = key"
    and "relay_response RS period (obj_ReqOut now) key g rl (KpaAutoscaler s) = Some r"
  shows "\<exists>x. r = Ret x"
proof -
  have "\<exists>s'. as_ReqOut now res s = Ret s'" if "rq_Target (rs_Source res) = key" for res
    using kpa_as.out_returns assms(2) that by blast
  with assms(1,3,4) show ?thesis by (fastforce simp: buffered_def relay_response_def Let_def split: option.splits)
qed

lemma add_targets_reg:
  fixes g :: "('rq, 'rs, 'm, 'q, 'p, 'b, 'w) k8sGateway"
  shows "k \<in> KeyFromObject ` set ts \<or> (buffered (kg_impl g) k \<and> kg_dispatchers g k \<noteq> None) \<Longrightarrow>
   buffered (kg_impl (foldl (\<lambda>g t. add_target RQ RS S T t g) g ts)) k \<and>
   kg_dispatchers (foldl (\<lambda>g t. add_target RQ RS S T t g) g ts) k \<noteq> None"
  by (induction ts arbitrary: g) (auto simp: add_target_def register_def buffered_def Let_def)

lemma add_targets_fn:
  "kg_newAutoscalerFn (foldl (\<lambda>g t. add_target RQ RS S T t g) g ts) = kg_newAutoscalerFn g"
  by (induction ts arbitrary: g) (simp_all add: add_target_def Let_def)

text \<open>Until its goroutine begins to run, the autoscaler is as it was constructed: nothing is queued and
  every callback panics, so that no step of it is possible.\<close>

definition ka_inv :: "'b buckets \<Rightarrow> 'w window \<Rightarrow> KnativeAutoscalerConfig \<Rightarrow> string list \<Rightarrow> bool \<times> ('b, 'w) as_obj \<Rightarrow> bool" where
  "ka_inv B W kc keys x \<longleftrightarrow>
     (case x of
        (False, a) \<Rightarrow> a = KpaAutoscaler (NewKnativeAutoscaler B W kc keys)
      | (True, a) \<Rightarrow> \<exists>s. a = KpaAutoscaler s \<and> reachable (as_init B W keys) (as_step B W) s)"

lemma new_as_no_step: "\<not> as_step B W (NewKnativeAutoscaler B W kc keys) s'"
  by (auto elim!: as_stepE simp: NewKnativeAutoscaler_def as_ReqIn_def as_ReqOut_def Let_def)

interpretation ka_system: inductive_invariant "\<lambda>x. x = (False, KpaAutoscaler (NewKnativeAutoscaler B W kc keys))" "ka_step B W"
  "ka_inv B W kc keys" for B W kc keys
proof unfold_locales
  fix x y
  assume "ka_inv B W kc keys x" "ka_step B W x y"
  from this(2,1) show "ka_inv B W kc keys y"
  proof cases
    case (begin_run a)
    with \<open>ka_inv B W kc keys x\<close> have "y = (True, KpaAutoscaler (as_Run (NewKnativeAutoscaler B W kc keys)))" by (simp add: ka_inv_def)
    moreover have "as_init B W keys (as_Run (NewKnativeAutoscaler B W kc keys))" by (auto simp: as_init_def)
    ultimately show ?thesis by (auto simp: ka_inv_def intro: reach_init)
  next
    case (kpa_work s s' begun)
    with \<open>ka_inv B W kc keys x\<close> show ?thesis
      by (cases begun) (auto simp: ka_inv_def new_as_no_step intro: reach_step)
  qed
qed (simp add: ka_inv_def)

lemma relay_request_unstarted:
  assumes "buffered g key" and "g_externalInputs g key = Some q" and "ch_Recv RQ q = Some (req, q')" and "rq_Target req = key"
  shows "relay_request RQ RS period (obj_ReqIn now) now key g rl (KpaAutoscaler (NewKnativeAutoscaler B W kc keys)) =
     Some (Panic (PanicMsg ''autoscaler not started''))"
  using assms by (auto simp: buffered_def relay_request_def as_ReqIn_def NewKnativeAutoscaler_def Let_def)

lemma relay_request_foreign:
  assumes "buffered g key" and "g_externalInputs g key = Some q" and "ch_Recv RQ q = Some (req, q')" and "rq_Target req \<noteq> key"
  shows "\<exists>y. relay_request RQ RS period onIn now key g rl a = Some (Ret y)"
  using assms by (auto simp: buffered_def relay_request_def Let_def)

lemma relay_response_unstarted:
  assumes "g_internalOutputBuffers g key = Some q" and "ch_Recv RS q = Some (res, q')"
  shows "relay_response RS period (obj_ReqOut now) key g rl (KpaAutoscaler (NewKnativeAutoscaler B W kc keys)) =
     Some (Panic (PanicMsg ''autoscaler not started''))"
  using assms by (simp add: relay_response_def as_ReqOut_def NewKnativeAutoscaler_def Let_def)

lemma relay_defined:
  "buffered g key \<Longrightarrow> g_externalInputs g key = Some q \<Longrightarrow> ch_Recv RQ q = Some x \<Longrightarrow>
     \<exists>r. relay_request RQ RS period onIn now key g rl a = Some r"
  "g_internalOutputBuffers g key = Some q' \<Longrightarrow> ch_Recv RS q' = Some x' \<Longrightarrow> \<exists>r. relay_response RS period onOut key g rl a = Some r"
  by (auto simp: buffered_def relay_request_def relay_response_def Let_def split: prod.splits)

text \<open>C34: relaying with the Knative autoscaler is safe exactly from the moment the autoscaler's goroutine
  runs. After setting up with a usable configuration every listed deployment has its buffers and its
  dispatcher, and the autoscaler is the last goroutine \<open>Start\<close> launches. In whatever state the buffers
  are and for every state the autoscaler can reach: once its goroutine has begun, relaying a request,
  or a response that carries the target of the relay, returns; before that, relaying a request of the
  target, or such a response, panics because the autoscaler is not started, and only a request for
  another target is answered. \<open>Start\<close> does nothing to rule that out; \<open>main\<close> only waits five seconds
  before it starts the client.\<close>

theorem relay_needs_run:
  assumes "NewK8sGateway RS timeout ''kpa'' (Inr (Some cfg)) = Inr g0" and "ac_Knative cfg = Some kc"
    and "SetUpWithManager RQ RS S T B W (Inr targets) None g0 = Ret (None, g1)" and "key \<in> KeyFromObject ` set targets"
  shows "buffered (kg_impl g1) key \<and> kg_dispatchers g1 key \<noteq> None \<and> last (kg_Start rng g1) = GoAutoscaler \<and>
     (\<forall>begun a g rl now q. reachable (\<lambda>x. x = (False, kg_autoscaler g1)) (ka_step B W) (begun, a) \<longrightarrow> buffered g key \<longrightarrow>
        (\<forall>req q'. g_externalInputs g key = Some q \<longrightarrow> ch_Recv RQ q = Some (req, q') \<longrightarrow>
           (if begun \<or> rq_Target req \<noteq> key then \<exists>y. relay_request RQ RS period (obj_ReqIn now) now key g rl a = Some (Ret y)
            else relay_request RQ RS period (obj_ReqIn now) now key g rl a = Some (Panic (PanicMsg ''autoscaler not started'')))))
     \<and> (\<forall>begun a g rl now q. reachable (\<lambda>x. x = (False, kg_autoscaler g1)) (ka_step B W) (begun, a) \<longrightarrow> buffered g key \<longrightarrow>
        (\<forall>res q'. g_internalOutputBuffers g key = Some q \<longrightarrow> ch_Recv RS q = Some (res, q') \<longrightarrow> rq_Target (rs_Source res) = key \<longrightarrow>
           (if begun then \<exists>y. relay_response RS period (obj_ReqOut now) key g rl a = Some (Ret y)
            else relay_response RS period (obj_ReqOut now) key g rl a = Some (Panic (PanicMsg ''autoscaler not started'')))))"
proof -
  let ?g = "foldl (\<lambda>g t. add_target RQ RS S T t g) g0 targets" and ?keys = "map KeyFromObject targets"
  have "kg_newAutoscalerFn g0 = KpaFn (Some cfg)" using assms(1) by (auto simp: NewK8sGateway_def)
  then obtain kc' where g1: "g1 = ?g\<lparr>kg_autoscaler := KpaAutoscaler (NewKnativeAutoscaler B W kc' ?keys)\<rparr>"
    using assms(2,3) by (auto simp: SetUpWithManager_def add_targets_fn kc_Complete_def Let_def)
  have reg: "buffered (kg_impl g1) key" "kg_dispatchers g1 key \<noteq> None"
    using add_targets_reg [where k = key and g = g0 and ts = targets] assms(4) by (simp_all add: g1)
  have last: "last (kg_Start rng g1) = GoAutoscaler" by (simp add: kg_Start_def g1)
  have inv: "ka_inv B W kc' ?keys (begun, a)" if "reachable (\<lambda>x. x = (False, kg_autoscaler g1)) (ka_step B W) (begun, a)" for begun a
    using ka_system.inv_reachable that by (simp add: g1)
  have run: "\<exists>s. a = KpaAutoscaler s \<and> kpa_serves s key" if "ka_inv B W kc' ?keys (True, a)" for a
    using that kpa_reachable_serves [of B W ?keys _ key] assms(4) by (auto simp: ka_inv_def)
  have req: "if begun \<or> rq_Target req \<noteq> key then \<exists>y. relay_request RQ RS period (obj_ReqIn now) now key g rl a = Some (Ret y)
      else relay_request RQ RS period (obj_ReqIn now) now key g rl a = Some (Panic (PanicMsg ''autoscaler not started''))"
    if "ka_inv B W kc' ?keys (begun, a)" "buffered g key" "g_externalInputs g key = Some q" "ch_Recv RQ q = Some (req, q')"
    for begun a g rl now q req q'
  proof (cases "rq_Target req = key")
    case t: True
    show ?thesis
    proof (cases begun)
      case True
      with that(1) have "ka_inv B W kc' ?keys (True, a)" by simp
      then obtain s where "a = KpaAutoscaler s" "kpa_serves s key" using run [of a] by blast
      with True relay_defined(1) [OF that(2-4)] relay_request_safe [OF that(2)] show ?thesis by fastforce
    next
      case False
      with that(1) relay_request_unstarted [OF that(2-4) t] t show ?thesis by (simp add: ka_inv_def)
    qed
  qed (use relay_request_foreign [OF that(2-4)] in simp)
  have res: "if begun then \<exists>y. relay_response RS period (obj_ReqOut now) key g rl a = Some (Ret y)
      else relay_response RS period (obj_ReqOut now) key g rl a = Some (Panic (PanicMsg ''autoscaler not started''))"
    if "ka_inv B W kc' ?keys (begun, a)" "buffered g key" "g_internalOutputBuffers g key = Some q" "ch_Recv RS q = Some (res, q')"
      "rq_Target (rs_Source res) = key" for begun a g rl now q res q'
  proof (cases begun)
    case True
    with that(1) have "ka_inv B W kc' ?keys (True, a)" by simp
    then obtain s where s: "a = KpaAutoscaler s" "kpa_serves s key" using run [of a] by blast
    from relay_defined(2) [OF that(3,4), where period = period and onOut = "obj_ReqOut now" and rl = rl and a = a] obtain r where r: "relay_response RS period (obj_ReqOut now) key g rl a = Some r" by blast
    then have "\<exists>y. r = Ret y" unfolding s(1) by (rule relay_response_safe [OF that(2) s(2), rotated]) (use that(3-5) in auto)
    with True r show ?thesis by auto
  next
    case False
    with that(1) relay_response_unstarted [OF that(3,4)] show ?thesis by (simp add: ka_inv_def)
  qed
  show ?thesis by (intro conjI allI impI) (assumption | rule reg last req [OF inv] res [OF inv])+
qed

type_synonym sample_gateway = "(Request list, Response list, nat smap, string list, nat list, duration, int) k8sGateway"

text \<open>A request that is relayed before the goroutine of the autoscaler runs crashes the program, the same
  request relayed after it does not.\<close>

theorem relay_needs_run_witness:
  "\<exists>(g0 :: sample_gateway) g1 g. NewK8sGateway fifo (15 * Second) ''kpa'' (Inr (Some \<lparr> ac_Knative = Some sample_kc, ac_OneTime = None \<rparr>)) = Inr g0 \<and>
     SetUpWithManager fifo fifo go_map fifo (const_buckets (Fin 0) (Fin 0)) max_window (Inr [sample_meta]) None g0 = Ret (None, g1) \<and>
     RequestChan_send fifo key_f req_f (kg_impl g1) = Ret g \<and>
     relay_request fifo fifo 1 (obj_ReqIn 7) 7 key_f g (relay0 1 1) (kg_autoscaler g1) = Some (Panic (PanicMsg ''autoscaler not started'')) \<and>
     (\<exists>y. relay_request fifo fifo 1 (obj_ReqIn 7) 7 key_f g (relay0 1 1) (obj_Run (kg_autoscaler g1)) = Some (Ret y))"
proof -
  let ?cfg = "\<lparr> ac_Knative = Some sample_kc, ac_OneTime = None \<rparr>" and ?B = "const_buckets (Fin 0) (Fin 0)"
  obtain g0 :: sample_gateway where g0: "NewK8sGateway fifo (15 * Second) ''kpa'' (Inr (Some ?cfg)) = Inr g0"
    and fn: "kg_newAutoscalerFn g0 = KpaFn (Some ?cfg)" and cl: "\<not> g_closed (kg_impl g0)" by (simp add: NewK8sGateway_def newGatewayImpl_def)
  obtain g1 where g1: "SetUpWithManager fifo fifo go_map fifo ?B max_window (Inr [sample_meta]) None g0 = Ret (None, g1)"
    and i: "g_externalInputs (kg_impl g1) key_f = Some []" "\<not> g_closed (kg_impl g1)"
    using fn cl by (simp add: SetUpWithManager_def add_target_def kc_Complete_def register_def KeyFromObject_def sample_meta_def key_f_def fifo_def Let_def)
  have k: "key_f \<in> KeyFromObject ` set [sample_meta]" by (simp add: KeyFromObject_def sample_meta_def key_f_def)
  let ?g = "(kg_impl g1)\<lparr>g_externalInputs := (g_externalInputs (kg_impl g1))(key_f \<mapsto> [req_f])\<rparr>"
  have send: "RequestChan_send fifo key_f req_f (kg_impl g1) = Ret ?g" using i by (simp add: RequestChan_send_def fifo_def)
  have r0: "reachable (\<lambda>x. x = (False, kg_autoscaler g1)) (ka_step ?B max_window) (False, kg_autoscaler g1)" by (rule reach_init) simp
  from reach_step [OF r0 ka_step.begin_run]
  have r1: "reachable (\<lambda>x. x = (False, kg_autoscaler g1)) (ka_step ?B max_window) (True, obj_Run (kg_autoscaler g1))" .
  have kc: "ac_Knative ?cfg = Some sample_kc" by simp
  note rel = relay_needs_run [OF g0 kc g1 k, where period = 1 and rng = sorted_list_of_set]
  have "buffered (kg_impl g1) key_f" using rel by (elim conjE)
  then have b: "buffered ?g key_f" by (simp add: buffered_def)
  have q: "g_externalInputs ?g key_f = Some [req_f]" "ch_Recv fifo [req_f] = Some (req_f, [])" "rq_Target req_f = key_f"
    by (simp_all add: fifo_def req_f_def)
  note round = rel [THEN conjunct2, THEN conjunct2, THEN conjunct2, THEN conjunct1, rule_format, OF _ b q(1,2), where now = 7 and rl = "relay0 1 1"]
  have "relay_request fifo fifo 1 (obj_ReqIn 7) 7 key_f ?g (relay0 1 1) (kg_autoscaler g1) = Some (Panic (PanicMsg ''autoscaler not started''))"
    using round [OF r0] q(3) by simp
  moreover have "\<exists>y. relay_request fifo fifo 1 (obj_ReqIn 7) 7 key_f ?g (relay0 1 1) (obj_Run (kg_autoscaler g1)) = Some (Ret y)"
    using round [OF r1] by simp
  ultimately show ?thesis using g0 g1 send by blast
qed

text \<open>A failed pod listing empties the dispatcher. \<open>Reconcile\<close> of the gateway logs a listing
  error and goes on with an empty list, so the dispatcher of the target loses all its
  endpoints although the pods still run, and no error is returned.\<close>

theorem list_error_drops_endpoints:
  assumes "shared_map_laws S" and "chann_laws T" and "valid_framework cfg" and "range_laws rng1" and "range_laws rng2"
    and "get nn = Inr target" and "listPods (om_Namespace (dep_Meta target)) (dep_TemplateLabels target) = Inl err"
    and "kg_dispatchers g (NamespacedName_String nn) = Some pd" and "heap_ok S pd"
  shows "\<exists>g' pd'. kg_Reconcile S T C cfg dial rng1 rng2 get listPods ready nn g = Ret ([], g') \<and>
     kg_dispatchers g' (NamespacedName_String nn) = Some pd' \<and> sm_Inner S (pd_endpoints pd') = Map.empty"
proof -
  have w: "wanted [] = Map.empty" by (simp add: wanted_def)
  from Reconcile_effect [OF assms(1-5,9), of C dial "[]"] obtain errs closed pd' where
    r: "Reconcile S T C cfg dial rng1 rng2 [] pd = Ret (errs, closed, pd')"
    and d: "\<And>k. sm_Inner S (pd_endpoints pd') k = None" and e: "errs = []"
    by (auto simp: w)
  then have "sm_Inner S (pd_endpoints pd') = Map.empty" by auto
  with r e assms(6-8) show ?thesis by (simp add: kg_Reconcile_def)
qed

definition gw_two :: sample_gateway where
  "gw_two = \<lparr> kg_impl = newGatewayImpl fifo, kg_dispatchTimeout = 15 * Second,
     kg_dispatchers = [''default/f'' \<mapsto> pd_at [sample_key \<mapsto> 0] [sample_key] [0 \<mapsto> FakeBackend] 1],
     kg_autoscaler = NilAutoscaler, kg_newAutoscalerFn = NoAutoscalerFn \<rparr>"

theorem list_error_drops_endpoints_witness:
  "\<exists>g' pd'. kg_Reconcile go_map fifo fifo fake_cfg no_dial sorted_range sorted_range (\<lambda>_. Inr dep_f) (\<lambda>_ _. Inl (OtherErr ''etcd''))
       (\<lambda>_. True) (''default'', ''f'') gw_two = Ret ([], g') \<and>
     kg_dispatchers g' ''default/f'' = Some pd' \<and> sm_Inner go_map (pd_endpoints pd') = Map.empty"
proof -
  let ?pd = "pd_at [sample_key \<mapsto> 0] [sample_key] [0 \<mapsto> FakeBackend] 1"
  have k: "NamespacedName_String (''default'', ''f'') = ''default/f''" by (simp add: NamespacedName_String_def)
  have pd: "kg_dispatchers gw_two (NamespacedName_String (''default'', ''f'')) = Some ?pd" by (simp add: gw_two_def k)
  have h: "heap_ok go_map ?pd" by (auto simp: heap_ok_def pd_at_def go_map_sel split: if_splits)
  from list_error_drops_endpoints [where get = "\<lambda>_. Inr dep_f" and listPods = "\<lambda>_ _. Inl (OtherErr ''etcd'')" and ready = "\<lambda>_. True"
      and C = "fifo :: (nat list, nat) chann" and dial = no_dial, OF go_map_laws fifo_laws fake_cfg_valid sorted_range_laws sorted_range_laws refl refl pd h]
  show ?thesis unfolding k .
qed

end
