(* ===== verification/Serving.thy ===== *)
theory Serving
  imports Gateway
begin

text \<open>
  The relay of a target in \<open>src/pkg/gateway/interface.go\<close> composed with the dispatcher of that target,
  which is the one of \<open>dispatcher/pod.go\<close> for a deployment and that of \<open>dispatcher/ksvc.go\<close> for a Knative
  service: the relay and the dispatcher share the two internal buffers. What \<open>Gateway\<close> assumes of a
  dispatcher (it answers the requests it has taken) is the locale \<open>serves_requests\<close>; the models of
  both dispatchers satisfy it, and what the client sees is proved once in it.
\<close>

section \<open>The composed system\<close>

record ('rq, 'rs, 'a, 'd) serving =
  se_gw :: "('rq, 'rs, 'a) gw_sys"
  se_pd :: 'd

definition se_init ::
  "('rq, Request) chann \<Rightarrow> ('rs, Response) chann \<Rightarrow> string \<Rightarrow> ('d \<Rightarrow> bool) \<Rightarrow> ('rq, 'rs, 'a, 'd) serving \<Rightarrow> bool" where
  "se_init RQ RS key dinit s \<longleftrightarrow> gw_init RQ RS key (se_gw s) \<and> dinit (se_pd s)"

text \<open>The client and the relay take their own steps (those that leave the dispatcher's requests
  alone). \<open>Run\<close> of the dispatcher takes a request from the internal input buffer and starts a
  goroutine for it; a goroutine that has a response sends it to the internal output buffer; the
  other steps of the dispatcher are its own. Of the dispatcher's state the composition reads the
  requests it holds, those it has accepted and the responses it has given.\<close>

inductive se_step ::
  "('rq, Request) chann \<Rightarrow> ('rs, Response) chann \<Rightarrow> duration \<Rightarrow> (Request \<Rightarrow> 'a \<Rightarrow> 'a go) \<Rightarrow> (Response \<Rightarrow> 'a \<Rightarrow> 'a go) \<Rightarrow> string \<Rightarrow>
   ('d \<Rightarrow> 'd \<Rightarrow> bool) \<Rightarrow> ('d \<Rightarrow> Request multiset) \<Rightarrow> ('d \<Rightarrow> Request multiset) \<Rightarrow> ('d \<Rightarrow> Response multiset) \<Rightarrow>
   ('rq, 'rs, 'a, 'd) serving \<Rightarrow> ('rq, 'rs, 'a, 'd) serving \<Rightarrow> bool"
  for RQ RS period onIn onOut key dstep holds accepted replied where
  relay: "gw_step RQ RS period onIn onOut key (se_gw s) g' \<Longrightarrow> gs_pending g' = gs_pending (se_gw s) \<Longrightarrow>
     se_step RQ RS period onIn onOut key dstep holds accepted replied s (s\<lparr>se_gw := g'\<rparr>)"
| run: "g_internalInputBuffers (gs_g (se_gw s)) key = Some q \<Longrightarrow> ch_Recv RQ q = Some (req, q') \<Longrightarrow>
     dstep (se_pd s) p' \<Longrightarrow> accepted p' = add_mset req (accepted (se_pd s)) \<Longrightarrow> holds p' = add_mset req (holds (se_pd s)) \<Longrightarrow>
     se_step RQ RS period onIn onOut key dstep holds accepted replied s
       (s\<lparr>se_gw := (se_gw s)\<lparr>gs_g := (gs_g (se_gw s))\<lparr>g_internalInputBuffers := (g_internalInputBuffers (gs_g (se_gw s)))(key \<mapsto> q')\<rparr>,
                            gs_pending := holds p'\<rparr>,
          se_pd := p'\<rparr>)"
| respond: "dstep (se_pd s) p' \<Longrightarrow> replied p' = add_mset res (replied (se_pd s)) \<Longrightarrow>
     g_internalOutputBuffers (gs_g (se_gw s)) key = Some q \<Longrightarrow>
     se_step RQ RS period onIn onOut key dstep holds accepted replied s
       (s\<lparr>se_gw := (se_gw s)\<lparr>gs_g := (gs_g (se_gw s))\<lparr>g_internalOutputBuffers := (g_internalOutputBuffers (gs_g (se_gw s)))(key \<mapsto> ch_Send RS q res)\<rparr>,
                            gs_pending := holds p'\<rparr>,
          se_pd := p'\<rparr>)"
| internal: "dstep (se_pd s) p' \<Longrightarrow> accepted p' = accepted (se_pd s) \<Longrightarrow> replied p' = replied (se_pd s) \<Longrightarrow>
     se_step RQ RS period onIn onOut key dstep holds accepted replied s (s\<lparr>se_pd := p'\<rparr>)"

section \<open>The contract of a dispatcher\<close>

locale serves_requests =
  fixes dinit :: "'d \<Rightarrow> bool" and dstep :: "'d \<Rightarrow> 'd \<Rightarrow> bool"
    and holds :: "'d \<Rightarrow> Request multiset" and accepted :: "'d \<Rightarrow> Request multiset" and replied :: "'d \<Rightarrow> Response multiset"
  assumes holds_init: "dinit d \<Longrightarrow> holds d = {#}"
    and respond_holds: "dstep d d' \<Longrightarrow> replied d' = add_mset res (replied d) \<Longrightarrow>
      \<exists>req. holds d = add_mset req (holds d') \<and> same_invocation (rs_Source res) req"
    and internal_holds: "dstep d d' \<Longrightarrow> accepted d' = accepted d \<Longrightarrow> replied d' = replied d \<Longrightarrow> holds d' = holds d"
begin

text \<open>The requests that are pending for the gateway are those the dispatcher holds, and each of the two
  parts is in a state of its own system.\<close>

definition se_inv where
  "se_inv RQ RS period onIn onOut key s \<longleftrightarrow>
     gs_pending (se_gw s) = holds (se_pd s) \<and>
     reachable (gw_init RQ RS key) (gw_step RQ RS period onIn onOut key) (se_gw s) \<and> reachable dinit dstep (se_pd s)"

lemma se_inv_step:
  assumes inv: "se_inv RQ RS period onIn onOut key s"
    and "se_step RQ RS period onIn onOut key dstep holds accepted replied s t"
  shows "se_inv RQ RS period onIn onOut key t"
proof -
  have pend: "gs_pending (se_gw s) = holds (se_pd s)"
    and gw: "reachable (gw_init RQ RS key) (gw_step RQ RS period onIn onOut key) (se_gw s)"
    and pd: "reachable dinit dstep (se_pd s)"
    using inv by (simp_all add: se_inv_def)
  from assms(2) show ?thesis
  proof cases
    case (relay g')
    then show ?thesis using pend pd reach_step [OF gw relay(2)] by (simp add: se_inv_def)
  next
    case (run q req q' p')
    from gw_step.take_req [OF run(2,3)] have "gw_step RQ RS period onIn onOut key (se_gw s) (se_gw t)" by (simp add: run(1,6) pend)
    from reach_step [OF gw this] reach_step [OF pd run(4)] show ?thesis by (simp add: se_inv_def run(1))
  next
    case (respond p' res q)
    from respond_holds [OF respond(2,3)] obtain req where r: "gs_pending (se_gw s) = add_mset req (holds p')"
      "same_invocation (rs_Source res) req" using pend by auto
    from gw_step.answer [OF r respond(4)] have "gw_step RQ RS period onIn onOut key (se_gw s) (se_gw t)" by (simp add: respond(1))
    from reach_step [OF gw this] reach_step [OF pd respond(2)] show ?thesis by (simp add: se_inv_def respond(1))
  next
    case (internal p')
    then show ?thesis using pend gw reach_step [OF pd internal(2)] internal_holds [OF internal(2-4)] by (simp add: se_inv_def)
  qed
qed

lemma se_inv_init: "se_init RQ RS key dinit s \<Longrightarrow> se_inv RQ RS period onIn onOut key s"
  using reach_init [of "gw_init RQ RS key" "se_gw s"] by (auto simp: se_init_def se_inv_def holds_init reach_init) (auto simp: gw_init_def)

lemma se_inv_reachable:
  assumes "reachable (se_init RQ RS key dinit) (se_step RQ RS period onIn onOut key dstep holds accepted replied) s"
  shows "se_inv RQ RS period onIn onOut key s"
  using assms by (induction rule: reachable.induct) (auto intro: se_inv_init se_inv_step)

text \<open>What the client sees of the two parts together.\<close>

lemma served_once:
  assumes "chann_laws RQ" and "chann_laws RS"
    and "reachable (se_init RQ RS key dinit) (se_step RQ RS period onIn onOut key dstep holds accepted replied) s"
  shows "reachable sv_init sv_step (gw_service (se_gw s)) \<and>
     (\<exists>xin iin iout. g_externalInputs (gs_g (se_gw s)) key = Some xin \<and> g_internalInputBuffers (gs_g (se_gw s)) key = Some iin \<and>
        g_internalOutputBuffers (gs_g (se_gw s)) key = Some iout \<and>
        (ch_Items RQ xin = [] \<longrightarrow> ch_Items RQ iin = [] \<longrightarrow> ch_Items RS iout = [] \<longrightarrow> ch_Items RS (g_externalOutput (gs_g (se_gw s))) = [] \<longrightarrow>
         holds (se_pd s) = {#} \<longrightarrow> res_ids (gs_received (se_gw s)) = req_ids (gs_sent (se_gw s))))"
proof -
  from se_inv_reachable [OF assms(3)] have pend: "gs_pending (se_gw s) = holds (se_pd s)"
    and gw: "reachable (gw_init RQ RS key) (gw_step RQ RS period onIn onOut key) (se_gw s)"
    by (simp_all add: se_inv_def)
  have "gw_inv RQ RS key (se_gw s)" using gw_system.inv_reachable [OF gw] assms(1,2) by simp
  then show ?thesis using gateway_refines_service [OF assms(1,2) gw] pend by (auto simp: gw_inv_def)
qed

end

section \<open>Both dispatchers keep it\<close>

text \<open>The requests the pod dispatcher holds.\<close>

definition held :: "('m, 'q, 'p) pd_sys \<Rightarrow> Request multiset" where
  "held p = ps_waiting p + image_mset (\<lambda>(k, a, r). r) (ps_inflight p)"

lemma held_init: "pd_init S T p \<Longrightarrow> held p = {#}"
  by (auto simp: pd_init_def held_def)

lemma pd_step_respond:
  assumes "pd_step S T C cfg p p'" and "ps_done p' = add_mset res (ps_done p)"
  shows "\<exists>req. held p = add_mset req (held p') \<and> same_invocation (rs_Source res) req"
  using assms(1)
proof cases
  case (timeout req W)
  then show ?thesis using assms(2) by (auto simp: held_def new_Response_def intro!: exI [of _ req])
next
  case (finish k a req F x env res' x')
  then show ?thesis using assms(2) any_exec.exec_source [OF finish(4)] by (auto simp: held_def intro!: exI [of _ req])
qed (use assms(2) in simp_all)

lemma pd_step_internal:
  assumes "pd_step S T C cfg p p'" and "ps_accepted p' = ps_accepted p" and "ps_done p' = ps_done p"
  shows "held p' = held p"
  using assms by cases (auto simp: held_def)

interpretation pod_serving: serves_requests "pd_init S T" "pd_step S T C cfg" held ps_accepted ps_done for S T C cfg
  by unfold_locales (fact held_init, fact pd_step_respond, fact pd_step_internal)

lemma kn_step_respond:
  assumes "kn_step C cfg d d'" and "ks_replied d' = add_mset res (ks_replied d)"
  shows "\<exists>req. ks_running d = add_mset req (ks_running d') \<and> same_invocation (rs_Source res) req"
  using assms(1)
proof cases
  case (kn_reply req F env res' kd')
  have "same_invocation (rs_Source res') req" using kn_reply(3) any_exec.exec_source by (fastforce simp: kn_Dispatch_def)
  then show ?thesis using assms(2) kn_reply by (auto intro!: exI [of _ req])
qed (use assms(2) in simp)

lemma kn_step_internal:
  assumes "kn_step C cfg d d'" and "ks_taken d' = ks_taken d" and "ks_replied d' = ks_replied d"
  shows "ks_running d' = ks_running d"
  using assms by cases auto

interpretation kn_serving: serves_requests kn_init "kn_step C cfg" ks_running ks_taken ks_replied for C cfg
  by unfold_locales (simp add: kn_init_def, fact kn_step_respond, fact kn_step_internal)

section \<open>Properties\<close>

text \<open>C4: from the client to the executors and back, every request is answered exactly once. In every
  reachable state of a target's relay composed with its dispatcher, whatever the interleaving of
  client, relay, dispatch goroutines, executions, timeouts and reconciliations, the client's
  view is a run of the abstract service (no answer without a request, none twice); and when the
  buffers and the dispatcher are empty, the client has received exactly one response per
  request. Nothing is assumed of the dispatcher or the backends beyond their models.\<close>

theorem serving_exactly_once:
  assumes "chann_laws RQ" and "chann_laws RS"
    and "reachable (se_init RQ RS key (pd_init S T)) (se_step RQ RS period onIn onOut key (pd_step S T C cfg) held ps_accepted ps_done) s"
  shows "reachable sv_init sv_step (gw_service (se_gw s)) \<and>
     (\<exists>xin iin iout. g_externalInputs (gs_g (se_gw s)) key = Some xin \<and> g_internalInputBuffers (gs_g (se_gw s)) key = Some iin \<and>
        g_internalOutputBuffers (gs_g (se_gw s)) key = Some iout \<and>
        (ch_Items RQ xin = [] \<longrightarrow> ch_Items RQ iin = [] \<longrightarrow> ch_Items RS iout = [] \<longrightarrow> ch_Items RS (g_externalOutput (gs_g (se_gw s))) = [] \<longrightarrow>
         ps_waiting (se_pd s) = {#} \<longrightarrow> ps_inflight (se_pd s) = {#} \<longrightarrow>
         res_ids (gs_received (se_gw s)) = req_ids (gs_sent (se_gw s))))"
  using pod_serving.served_once [OF assms] by (auto simp: held_def)

text \<open>C9: requests to a Knative service are answered exactly once as well. The same holds of the relay
  composed with the Knative dispatcher, in which every request has its own goroutine and all
  share one executor: the client's view is a run of the abstract service, and when the buffers
  are empty and no goroutine runs, the client has exactly one response per request.\<close>

theorem knative_serving_exactly_once:
  assumes "chann_laws RQ" and "chann_laws RS"
    and "reachable (se_init RQ RS key kn_init) (se_step RQ RS period onIn onOut key (kn_step C cfg) ks_running ks_taken ks_replied) s"
  shows "reachable sv_init sv_step (gw_service (se_gw s)) \<and>
     (\<exists>xin iin iout. g_externalInputs (gs_g (se_gw s)) key = Some xin \<and> g_internalInputBuffers (gs_g (se_gw s)) key = Some iin \<and>
        g_internalOutputBuffers (gs_g (se_gw s)) key = Some iout \<and>
        (ch_Items RQ xin = [] \<longrightarrow> ch_Items RQ iin = [] \<longrightarrow> ch_Items RS iout = [] \<longrightarrow> ch_Items RS (g_externalOutput (gs_g (se_gw s))) = [] \<longrightarrow>
         ks_running (se_pd s) = {#} \<longrightarrow> res_ids (gs_received (se_gw s)) = req_ids (gs_sent (se_gw s))))"
  using assms by (rule kn_serving.served_once)

section \<open>Runs with one request\<close>

definition ser_gw ::
  "Request list \<Rightarrow> Request list \<Rightarrow> Response list \<Rightarrow> Response list \<Rightarrow> relay \<Rightarrow> Request multiset \<Rightarrow> Request multiset \<Rightarrow> Response multiset \<Rightarrow>
   (Request list, Response list, unit) gw_sys" where
  "ser_gw xin iin iout xout rl sent pend rec =
     \<lparr> gs_g = \<lparr> g_internalInputBuffers = [key_f \<mapsto> iin], g_internalOutputBuffers = [key_f \<mapsto> iout], g_externalInputs = [key_f \<mapsto> xin],
          g_externalOutput = xout, g_closed = False \<rparr>, gs_rl = rl, gs_a = (), gs_sent = sent, gs_pending = pend, gs_received = rec \<rparr>"

abbreviation ser_gw_step where "ser_gw_step \<equiv> gw_step fifo fifo tracingOutputPeriod0 ng_onReqIn ng_onReqOut key_f"

abbreviation ser_step where "ser_step \<equiv> se_step fifo fifo tracingOutputPeriod0 ng_onReqIn ng_onReqOut key_f"

abbreviation ser_reach where
  "ser_reach di ds h ac re g p \<equiv> reachable (se_init fifo fifo key_f di) (ser_step ds h ac re) \<lparr> se_gw = g, se_pd = p \<rparr>"

abbreviation req_f3 :: Request where "req_f3 \<equiv> req_f\<lparr>rq_GatewayRecvTS := 3\<rparr>"

lemma ser_relay:
  "ser_reach di ds h ac re g p \<Longrightarrow> ser_gw_step g g' \<Longrightarrow> gs_pending g' = gs_pending g \<Longrightarrow> ser_reach di ds h ac re g' p"
  by (erule reach_step) (drule se_step.relay [where s = "\<lparr> se_gw = g, se_pd = p \<rparr>", simplified], simp_all)

text \<open>The client sends the request and the relay passes it on.\<close>

lemma ser_sent:
  assumes "di p"
  shows "\<exists>rl. ser_reach di ds h ac re (ser_gw [] [req_f3] [] [] rl {#req_f#} {#} {#}) p"
proof -
  let ?rl = "relay0 1 1"
  note g = ser_gw_def fifo_def
  have "ser_reach di ds h ac re (ser_gw [] [] [] [] ?rl {#} {#} {#}) p"
    by (rule reach_init) (use assms in \<open>auto simp: se_init_def gw_init_def g register_def newGatewayImpl_def\<close>)
  moreover have "ser_gw_step (ser_gw [] [] [] [] ?rl {#} {#} {#}) (ser_gw [req_f] [] [] [] ?rl {#req_f#} {#} {#})"
    using gw_step.client_send [where s = "ser_gw [] [] [] [] ?rl {#} {#} {#}" and req = req_f and key = key_f and RQ = fifo]
    by (simp add: g RequestChan_send_def)
  ultimately have "ser_reach di ds h ac re (ser_gw [req_f] [] [] [] ?rl {#req_f#} {#} {#}) p"
    by (rule ser_relay) (simp add: ser_gw_def)
  moreover obtain rl where "ser_gw_step (ser_gw [req_f] [] [] [] ?rl {#req_f#} {#} {#}) (ser_gw [] [req_f3] [] [] rl {#req_f#} {#} {#})"
    using gw_step.relay_in [where s = "ser_gw [req_f] [] [] [] ?rl {#req_f#} {#} {#}" and key = key_f and RQ = fifo and RS = fifo
        and now = 3 and period = tracingOutputPeriod0 and onIn = ng_onReqIn]
    by (auto simp: g relay_request_def req_f_def ng_onReqIn_def Let_def)
  ultimately have "ser_reach di ds h ac re (ser_gw [] [req_f3] [] [] rl {#req_f#} {#} {#}) p"
    by (rule ser_relay) (simp add: ser_gw_def)
  then show ?thesis by blast
qed

text \<open>The dispatcher takes it and gives a response.\<close>

lemma ser_run:
  assumes "ser_reach di ds h ac re (ser_gw [] [req_f3] [] [] rl {#req_f#} {#} {#}) p"
    and "ds p p'" and "ac p' = add_mset req_f3 (ac p)" and "h p' = add_mset req_f3 (h p)" and "h p' = {#req_f3#}"
  shows "ser_reach di ds h ac re (ser_gw [] [] [] [] rl {#req_f#} {#req_f3#} {#}) p'"
proof (rule reach_step [OF assms(1)])
  let ?s = "\<lparr> se_gw = ser_gw [] [req_f3] [] [] rl {#req_f#} {#} {#}, se_pd = p \<rparr>"
  have "g_internalInputBuffers (gs_g (se_gw ?s)) key_f = Some [req_f3]" "ch_Recv fifo [req_f3] = Some (req_f3, [])" "ds (se_pd ?s) p'"
    using assms(2) by (simp_all add: ser_gw_def fifo_def)
  from se_step.run [where accepted = ac and holds = h and replied = re and dstep = ds, OF this]
  show "ser_step ds h ac re ?s \<lparr> se_gw = ser_gw [] [] [] [] rl {#req_f#} {#req_f3#} {#}, se_pd = p' \<rparr>"
    using assms(3-5) by (simp add: ser_gw_def)
qed

lemma ser_respond:
  assumes "ser_reach di ds h ac re (ser_gw [] [] [] [] rl {#req_f#} {#req_f3#} {#}) p"
    and "ds p p'" and "re p' = add_mset res (re p)" and "h p' = {#}"
  shows "ser_reach di ds h ac re (ser_gw [] [] [res] [] rl {#req_f#} {#} {#}) p'"
proof (rule reach_step [OF assms(1)])
  let ?s = "\<lparr> se_gw = ser_gw [] [] [] [] rl {#req_f#} {#req_f3#} {#}, se_pd = p \<rparr>"
  have "ds (se_pd ?s) p'" "re p' = add_mset res (re (se_pd ?s))" "g_internalOutputBuffers (gs_g (se_gw ?s)) key_f = Some []"
    using assms(2,3) by (simp_all add: ser_gw_def)
  from se_step.respond [where RS = fifo and dstep = ds and replied = re and holds = h and accepted = ac, OF this]
  show "ser_step ds h ac re ?s \<lparr> se_gw = ser_gw [] [] [res] [] rl {#req_f#} {#} {#}, se_pd = p' \<rparr>"
    using assms(4) by (simp add: ser_gw_def fifo_def)
qed

text \<open>The relay passes the response on and the client receives it.\<close>

lemma ser_received:
  assumes "ser_reach di ds h ac re (ser_gw [] [] [res] [] rl {#req_f#} {#} {#}) p"
  shows "\<exists>rl. ser_reach di ds h ac re (ser_gw [] [] [] [] rl {#req_f#} {#} {#res#}) p"
proof -
  note g = ser_gw_def fifo_def
  obtain rl' where "ser_gw_step (ser_gw [] [] [res] [] rl {#req_f#} {#} {#}) (ser_gw [] [] [] [res] rl' {#req_f#} {#} {#})"
    using gw_step.relay_out [where s = "ser_gw [] [] [res] [] rl {#req_f#} {#} {#}" and key = key_f and RS = fifo
        and period = tracingOutputPeriod0 and onOut = ng_onReqOut]
    by (auto simp: g relay_response_def ng_onReqOut_def Let_def)
  with assms have "ser_reach di ds h ac re (ser_gw [] [] [] [res] rl' {#req_f#} {#} {#}) p" by (rule ser_relay) (simp add: ser_gw_def)
  moreover have "ser_gw_step (ser_gw [] [] [] [res] rl' {#req_f#} {#} {#}) (ser_gw [] [] [] [] rl' {#req_f#} {#} {#res#})"
    using gw_step.client_recv [where s = "ser_gw [] [] [] [res] rl' {#req_f#} {#} {#}" and RS = fifo]
    by (simp add: g ResponseChan_recv_def)
  ultimately have "ser_reach di ds h ac re (ser_gw [] [] [] [] rl' {#req_f#} {#} {#res#}) p" by (rule ser_relay) (simp add: ser_gw_def)
  then show ?thesis by blast
qed

text \<open>A request that times out in the pod dispatcher.\<close>

definition ser_pd :: "Request multiset \<Rightarrow> Response multiset \<Rightarrow> Request multiset \<Rightarrow> (nat smap, string list, nat list) pd_sys" where
  "ser_pd w d acc =
     \<lparr> ps_pd = NewPodDispatcher go_map fifo key_f (15 * Second), ps_waiting = w, ps_inflight = {#}, ps_done = d, ps_accepted = acc,
       ps_added = (\<lambda>_. 0) \<rparr>"

abbreviation pod_reach where
  "pod_reach \<equiv> ser_reach (pd_init go_map fifo) (pd_step go_map fifo (fifo :: (nat list, nat) chann) fake_cfg) held ps_accepted ps_done"

lemma pod_timed_out:
  "\<exists>rl. pod_reach (ser_gw [] [] [] [] rl {#req_f#} {#} {#new_Response req_f3 FAIL_DISPATCH#})
     (ser_pd {#} {#new_Response req_f3 FAIL_DISPATCH#} {#req_f3#})"
proof -
  let ?res = "new_Response req_f3 FAIL_DISPATCH"
  have "pd_init go_map fifo (ser_pd {#} {#} {#})" by (auto simp: pd_init_def ser_pd_def)
  from ser_sent [where di = "pd_init go_map fifo", OF this] obtain rl where "pod_reach (ser_gw [] [req_f3] [] [] rl {#req_f#} {#} {#}) (ser_pd {#} {#} {#})" by blast
  moreover have "pd_step go_map fifo (fifo :: (nat list, nat) chann) fake_cfg (ser_pd {#} {#} {#}) (ser_pd {#req_f3#} {#} {#req_f3#})"
    using pd_step.accept [of go_map fifo "fifo :: (nat list, nat) chann" fake_cfg "ser_pd {#} {#} {#}" req_f3] by (simp add: ser_pd_def)
  ultimately have "pod_reach (ser_gw [] [] [] [] rl {#req_f#} {#req_f3#} {#}) (ser_pd {#req_f3#} {#} {#req_f3#})"
    by (rule ser_run) (simp_all add: ser_pd_def held_def)
  moreover have "pd_step go_map fifo (fifo :: (nat list, nat) chann) fake_cfg (ser_pd {#req_f3#} {#} {#req_f3#}) (ser_pd {#} {#?res#} {#req_f3#})"
    using pd_step.timeout [where s = "ser_pd {#req_f3#} {#} {#req_f3#}" and req = req_f3 and W = "{#}"] by (simp add: ser_pd_def)
  ultimately have "pod_reach (ser_gw [] [] [?res] [] rl {#req_f#} {#} {#}) (ser_pd {#} {#?res#} {#req_f3#})"
    by (rule ser_respond) (simp_all add: ser_pd_def held_def)
  then show ?thesis by (rule ser_received)
qed

theorem serving_exactly_once_witness:
  "\<exists>rl. reachable sv_init sv_step (gw_service (ser_gw [] [] [] [] rl {#req_f#} {#} {#new_Response req_f3 FAIL_DISPATCH#})) \<and>
     res_ids {#new_Response req_f3 FAIL_DISPATCH#} = req_ids {#req_f#}"
proof -
  obtain rl where r: "pod_reach (ser_gw [] [] [] [] rl {#req_f#} {#} {#new_Response req_f3 FAIL_DISPATCH#})
     (ser_pd {#} {#new_Response req_f3 FAIL_DISPATCH#} {#req_f3#})" using pod_timed_out by blast
  from serving_exactly_once [OF fifo_laws fifo_laws r] show ?thesis
    by (intro exI [of _ rl]) (simp add: ser_gw_def ser_pd_def fifo_def)
qed

text \<open>A request that the Knative dispatcher sends over the one idle connection of its pool.\<close>

definition ser_kn :: "Request multiset \<Rightarrow> Response multiset \<Rightarrow> Request multiset \<Rightarrow> nat list kn_sys" where
  "ser_kn w d acc =
     \<lparr> ks_kd = \<lparr> kd_target = key_f, kd_timeout = 15 * Second, kd_endpoint = ''f:80'',
          kd_executor = GrpcBackend \<lparr> gb_endpoint = ''f:80'', gb_pool = [7], gb_closed = False \<rparr> \<rparr>,
       ks_running = w, ks_replied = d, ks_taken = acc \<rparr>"

definition kn_env :: "nat exec_env" where
  "kn_env = \<lparr> ee_now1 = 4, ee_now2 = 5, ee_now3 = 5, ee_dial = Inr 7, ee_call = (\<lambda>_ _. Inr 11) \<rparr>"

definition kn_res :: Response where
  "kn_res = \<lparr> rs_Source = req_f3\<lparr>rq_GatewaySendTS := 4\<rparr>, rs_Status = SUCCESS, rs_GatewayRecvTS = 5, rs_ClientRecvTS = 0,
     rs_RuntimeMicroSec = 11 \<rparr>"

abbreviation kn_reach where
  "kn_reach \<equiv> ser_reach kn_init (kn_step (fifo :: (nat list, nat) chann) backend_cfg0) ks_running ks_taken ks_replied"

lemma kn_served:
  "\<exists>rl. kn_reach (ser_gw [] [] [] [] rl {#req_f#} {#} {#kn_res#}) (ser_kn {#} {#kn_res#} {#req_f3#})"
proof -
  have "kn_init (ser_kn {#} {#} {#})" by (simp add: kn_init_def ser_kn_def)
  from ser_sent [where di = kn_init, OF this] obtain rl where "kn_reach (ser_gw [] [req_f3] [] [] rl {#req_f#} {#} {#}) (ser_kn {#} {#} {#})" by blast
  moreover have "kn_step fifo backend_cfg0 (ser_kn {#} {#} {#}) (ser_kn {#req_f3#} {#} {#req_f3#})"
    using kn_step.kn_accept [of fifo backend_cfg0 "ser_kn {#} {#} {#}" req_f3] by (simp add: ser_kn_def)
  ultimately have "kn_reach (ser_gw [] [] [] [] rl {#req_f#} {#req_f3#} {#}) (ser_kn {#req_f3#} {#} {#req_f3#})"
    by (rule ser_run) (simp_all add: ser_kn_def)
  moreover have "kn_Dispatch fifo backend_cfg0 (\<lambda>_. kn_env) (ks_kd (ser_kn {#req_f3#} {#} {#req_f3#})) req_f3 =
      Ret (kn_res, ks_kd (ser_kn {#req_f3#} {#} {#req_f3#}))"
    by (simp add: kn_Dispatch_def ser_kn_def grpc_Execute_def getOrCreateClient_def grpc_call_def fifo_def kn_env_def kn_res_def
        new_Response_def)
  then have "kn_step fifo backend_cfg0 (ser_kn {#req_f3#} {#} {#req_f3#}) (ser_kn {#} {#kn_res#} {#req_f3#})"
    using kn_step.kn_reply [where s = "ser_kn {#req_f3#} {#} {#req_f3#}" and req = req_f3 and F = "{#}"] by (simp add: ser_kn_def)
  ultimately have "kn_reach (ser_gw [] [] [kn_res] [] rl {#req_f#} {#} {#}) (ser_kn {#} {#kn_res#} {#req_f3#})"
    by (rule ser_respond) (simp_all add: ser_kn_def)
  then show ?thesis by (rule ser_received)
qed

theorem knative_serving_exactly_once_witness:
  "\<exists>rl. reachable sv_init sv_step (gw_service (ser_gw [] [] [] [] rl {#req_f#} {#} {#kn_res#})) \<and>
     res_ids {#kn_res#} = req_ids {#req_f#}"
proof -
  obtain rl where r: "kn_reach (ser_gw [] [] [] [] rl {#req_f#} {#} {#kn_res#}) (ser_kn {#} {#kn_res#} {#req_f3#})" using kn_served by blast
  from knative_serving_exactly_once [OF fifo_laws fifo_laws r] show ?thesis
    by (intro exI [of _ rl]) (simp add: ser_gw_def ser_kn_def fifo_def)
qed

end
