(* ===== verification/Replay.thy ===== *)
theory Replay
  imports Gateway
begin

text \<open>
  \<open>src/pkg/replay\<close>: the client that replays a trace. \<open>worker.go\<close> shards the invocations of a
  target over senders and sends each request at its time; \<open>client.go\<close> assigns traces to targets
  and writes the responses.

  \<open>time.After\<close> is the parameter \<open>after\<close>: at clock \<open>cur\<close> with delay \<open>d\<close> it fires at \<open>after cur d\<close>,
  never before the delay has passed (\<open>after_laws\<close>).
\<close>

section \<open>worker.go\<close>

definition maxInvocationsPerSecondPerSender :: f64 where "maxInvocationsPerSecondPerSender = Fin 1000"

record worker =
  wk_target :: string
  wk_trace :: TraceSpec
  wk_clientStartTime :: time
  wk_nSenders :: int
  wk_senderInvocations :: "InvocationSpec list list"

definition nSenders_of :: "nat \<Rightarrow> int" where
  "nSenders_of n = f_to_int (f_ceil (f_div (f_div (f_of_int (int n)) (Fin 60)) maxInvocationsPerSecondPerSender))"

text \<open>The loop over the invocations from index \<open>i\<close> on; \<open>i % nSenders\<close> panics on zero.\<close>

fun shard :: "int \<Rightarrow> nat \<Rightarrow> InvocationSpec list \<Rightarrow> InvocationSpec list list \<Rightarrow> InvocationSpec list list go" where
  "shard n i [] bins = Ret bins"
| "shard n i (ivc # rest) bins =
     (if n = 0 then Panic DivideByZero
      else
        (let senderBin = int i mod n
         in go_bind (go_index bins senderBin) (\<lambda>bin.
              shard n (Suc i) rest (bins[nat senderBin := bin @ [ivc]]))))"

definition newWorker :: "string \<Rightarrow> TraceSpec \<Rightarrow> worker go" where
  "newWorker target trace =
     (let n = nSenders_of (length (Invocations trace))
      in if n < 0 then Panic (PanicMsg ''makeslice: len out of range'')
         else go_bind (shard n 0 (Invocations trace) (replicate (nat n) [])) (\<lambda>bins.
                Ret \<lparr> wk_target = target, wk_trace = trace, wk_clientStartTime = 0, wk_nSenders = n,
                      wk_senderInvocations = bins \<rparr>))"

text \<open>\<open>time.Duration(sec * float64(time.Second))\<close>.\<close>

definition trace_offset :: "f64 \<Rightarrow> duration" where
  "trace_offset sec = f_to_int (f_mul sec (Fin 1000000000))"

definition w_next :: "(time \<Rightarrow> duration \<Rightarrow> time) \<Rightarrow> worker \<Rightarrow> time \<Rightarrow> f64 \<Rightarrow> time" where
  "w_next after w cur nextRequestTime =
     after cur (t_Until cur (t_Add (wk_clientStartTime w) (trace_offset nextRequestTime)))"

definition request_id :: "string \<Rightarrow> nat \<Rightarrow> nat \<Rightarrow> string" where
  "request_id target senderID reqID = target @ ''-'' @ itoa (int senderID) @ ''/'' @ itoa (int reqID)"

fun send_from :: "(time \<Rightarrow> duration \<Rightarrow> time) \<Rightarrow> worker \<Rightarrow> nat \<Rightarrow> nat \<Rightarrow> time \<Rightarrow> InvocationSpec list \<Rightarrow> Request list" where
  "send_from after w senderID reqID cur [] = []"
| "send_from after w senderID reqID cur (spec # rest) =
     (let now = w_next after w cur (ArrivalTimeSec spec)
      in \<lparr> rq_ID = request_id (wk_target w) senderID reqID, rq_Target = wk_target w,
           rq_DurationMilliSec = RuntimeMilliSec spec, rq_ClientSendTS = now, rq_GatewayRecvTS = 0, rq_GatewaySendTS = 0,
           rq_ClientRelTime = t_Sub now (wk_clientStartTime w), rq_TraceRelTime = trace_offset (ArrivalTimeSec spec) \<rparr>
         # send_from after w senderID (Suc reqID) now rest)"

definition w_send :: "(time \<Rightarrow> duration \<Rightarrow> time) \<Rightarrow> worker \<Rightarrow> nat \<Rightarrow> time \<Rightarrow> Request list go" where
  "w_send after w senderID cur =
     go_bind (go_index (wk_senderInvocations w) (int senderID)) (\<lambda>invs. Ret (send_from after w senderID 0 cur invs))"

text \<open>\<open>replay\<close>: what every sender goroutine sends, by sender.\<close>

fun collect_sends :: "(nat \<Rightarrow> Request list go) \<Rightarrow> nat list \<Rightarrow> Request list list go" where
  "collect_sends f [] = Ret []"
| "collect_sends f (i # is) = go_bind (f i) (\<lambda>rs. go_bind (collect_sends f is) (\<lambda>rest. Ret (rs # rest)))"

definition w_replay :: "(time \<Rightarrow> duration \<Rightarrow> time) \<Rightarrow> time \<Rightarrow> worker \<Rightarrow> Request list list go" where
  "w_replay after start w =
     (let w' = w\<lparr>wk_clientStartTime := start\<rparr>
      in collect_sends (\<lambda>i. w_send after w' i start) [0..<nat (wk_nSenders w')])"

section \<open>client.go\<close>

record replay_client =
  cl_traces :: "TraceSpec list"
  cl_workers :: "string \<rightharpoonup> worker"
  cl_output :: "string list"

text \<open>\<open>NewClient\<close> on the loaded traces and the result of creating the output file.\<close>

definition NewClient :: "TraceSpec list go \<Rightarrow> string \<Rightarrow> apierr option \<Rightarrow> (apierr + replay_client) go" where
  "NewClient traces outputPath created =
     go_bind traces (\<lambda>ts.
       Ret (case created of
              Some err \<Rightarrow> Inl (OtherErr (''failed to create output file '' @ outputPath @ '': '' @ err_Error err))
            | None \<Rightarrow> Inr \<lparr> cl_traces = ts, cl_workers = Map.empty, cl_output = [] \<rparr>))"

fun add_workers ::
  "('rq, 'rs) gatewayImpl \<Rightarrow> nat \<Rightarrow> objmeta list \<Rightarrow> replay_client \<Rightarrow> replay_client go" where
  "add_workers g i [] c = Ret c"
| "add_workers g i (target # rest) c =
     (let key = KeyFromObject target
      in case g_externalInputs g key of
           None \<Rightarrow> Panic NilDeref
         | Some _ \<Rightarrow>
             go_bind (go_index (cl_traces c) (int i)) (\<lambda>tr.
               go_bind (newWorker key tr) (\<lambda>wrk.
                 add_workers g (Suc i) rest (c\<lparr>cl_workers := (cl_workers c)(key \<mapsto> wrk)\<rparr>))))"

definition cl_SetupWithManager ::
  "('rq, 'rs) gatewayImpl \<Rightarrow> apierr + objmeta list \<Rightarrow> replay_client \<Rightarrow> (apierr option \<times> replay_client) go" where
  "cl_SetupWithManager g listed c =
     (case listed of
        Inl err \<Rightarrow> Ret (Some (OtherErr (''error listing deployments in client: '' @ err_Error err)), c)
      | Inr targets \<Rightarrow>
          if length targets > length (cl_traces c) then
            Ret (Some (OtherErr (''mismatched deployments and traces: expected '' @ itoa (int (length (cl_traces c))) @
                        '', got '' @ itoa (int (length targets)))), c)
          else go_bind (add_workers g 0 targets c) (\<lambda>c'. Ret (None, c')))"

text \<open>\<open>recv\<close> stamps every response it forwards to the writer.\<close>

definition cl_recv :: "(Response \<times> time) list \<Rightarrow> Response list" where
  "cl_recv rs = map (\<lambda>(r, now). r\<lparr>rs_ClientRecvTS := now\<rparr>) rs"

text \<open>\<open>write\<close>: a nil response ends the loop; \<open>wr\<close> says whether writing a line succeeds.\<close>

fun write_loop ::
  "int \<Rightarrow> (string \<Rightarrow> apierr option) \<Rightarrow> Response option list \<Rightarrow> int \<Rightarrow> int \<Rightarrow> string list \<Rightarrow> (int \<times> int \<times> string list) go" where
  "write_loop factor wr [] nTotal nFailed acc = Ret (nTotal, nFailed, acc)"
| "write_loop factor wr (None # rest) nTotal nFailed acc = Ret (nTotal, nFailed, acc)"
| "write_loop factor wr (Some res # rest) nTotal nFailed acc =
     (let nTotal' = nTotal + 1;
          nFailed' = (if rs_Status res \<noteq> SUCCESS then nFailed + 1 else nFailed)
      in if factor = 0 then Panic DivideByZero
         else if nTotal' smod factor = 0 then
           (case wr (Summary res) of
              Some err \<Rightarrow> Panic (PanicMsg (''Failed to write response: '' @ err_Error err))
            | None \<Rightarrow> write_loop factor wr rest nTotal' nFailed' (acc @ [Summary res]))
         else write_loop factor wr rest nTotal' nFailed' acc)"

definition summary_line :: "int \<Rightarrow> int \<Rightarrow> string" where
  "summary_line nTotal nFailed =
     ''Summary: total '' @ itoa nTotal @ '' success '' @ itoa (nTotal - nFailed) @ '' fail '' @ itoa nFailed @ [CHR 0x0A]"

definition cl_write :: "int \<Rightarrow> (string \<Rightarrow> apierr option) \<Rightarrow> Response option list \<Rightarrow> replay_client \<Rightarrow> replay_client go" where
  "cl_write factor wr responses c =
     go_bind (write_loop factor wr responses 0 0 []) (\<lambda>(nTotal, nFailed, lines).
       case wr (summary_line nTotal nFailed) of
         Some err \<Rightarrow> Panic (PanicMsg (''Failed to write request summary: '' @ err_Error err))
       | None \<Rightarrow> Ret (c\<lparr>cl_output := cl_output c @ lines @ [summary_line nTotal nFailed]\<rparr>))"

text \<open>\<open>Start\<close>: every worker replays its trace from the same start time, the receiver is launched, and
  when all workers are done the end of sending is signalled. The result is what each worker
  sent, in the order \<open>rng\<close> of the range over the map.\<close>

definition cl_Start ::
  "(time \<Rightarrow> duration \<Rightarrow> time) \<Rightarrow> time \<Rightarrow> (worker smap \<Rightarrow> string list) \<Rightarrow> replay_client \<Rightarrow> Request list list list go" where
  "cl_Start after start rng c =
     go_traverse (\<lambda>key. case cl_workers c key of None \<Rightarrow> Panic NilDeref | Some w \<Rightarrow> w_replay after start w) (rng (cl_workers c))"

section \<open>Sharding\<close>

lemma nSenders_bounds:
  assumes "1 \<le> n" and "int n \<le> 2 ^ 53"
  shows "1 \<le> nSenders_of n \<and> nSenders_of n \<le> int n"
proof -
  have n1: "(1 :: rat) \<le> of_nat n" using assms(1) by simp
  have n: "f_of_int (int n) = Fin (of_nat n)" using f_of_int_exact [of "int n"] assms by simp
  have d1: "rnd64 (of_int 1 / 2 ^ 6) = Fin (of_int 1 / 2 ^ 6)" "rnd64 (of_int 1 / 2 ^ 16) = Fin (of_int 1 / 2 ^ 16)"
    by (rule rnd64_dyadic; simp add: prec_def emin_scale_def)+
  have "f_le (rnd64 (of_int 1 / 2 ^ 6)) (rnd64 (of_nat n / 60))"
    using n1 by (intro go_round.rnd_mono) (simp add: field_simps)
  moreover have "f_le (rnd64 (of_nat n / 60)) (Fin (of_int (int n)))"
    using n1 assms(2) by (intro go_round.rnd_le_int) (auto simp: field_simps)
  ultimately obtain q where q: "rnd64 (of_nat n / 60) = Fin q" "1 / 64 \<le> q" "q \<le> of_nat n"
    unfolding d1 by (auto dest: f_le_FinD)
  have "f_le (rnd64 (of_int 1 / 2 ^ 16)) (rnd64 (q / 1000))"
    using q(2) by (intro go_round.rnd_mono) (simp add: field_simps)
  moreover have "f_le (rnd64 (q / 1000)) (Fin (of_int (int n)))"
    using q n1 assms(2) by (intro go_round.rnd_le_int) (auto simp: field_simps)
  ultimately obtain r where r: "rnd64 (q / 1000) = Fin r" "1 / 65536 \<le> r" "r \<le> of_nat n"
    unfolding d1 by (auto dest: f_le_FinD)
  have c: "1 \<le> \<lceil>r\<rceil>" "\<lceil>r\<rceil> \<le> int n" using r(2,3) by (simp_all add: ceiling_le_iff one_le_ceiling)
  have "nSenders_of n = f_to_int (Fin (of_int \<lceil>r\<rceil>))"
    by (simp add: nSenders_of_def n f_div_def q r maxInvocationsPerSecondPerSender_def)
  also have "\<dots> = \<lceil>r\<rceil>" by (rule f_to_int_small) (use order_trans [OF c(2) assms(2)] c(1) in simp)
  finally show ?thesis using c by simp
qed

text \<open>The invocations whose index falls into bin \<open>j\<close>, in order.\<close>

fun bin_of :: "nat \<Rightarrow> nat \<Rightarrow> nat \<Rightarrow> 'a list \<Rightarrow> 'a list" where
  "bin_of n j i [] = []"
| "bin_of n j i (x # xs) = (if i mod n = j then x # bin_of n j (Suc i) xs else bin_of n j (Suc i) xs)"

lemma shard_bins:
  assumes "0 < n" and "length bins = n"
  shows "\<exists>bins'. shard (int n) i xs bins = Ret bins' \<and> length bins' = n \<and> (\<forall>j < n. bins' ! j = bins ! j @ bin_of n j i xs)"
  using assms(2)
proof (induction xs arbitrary: i bins)
  case (Cons x xs)
  let ?b = "i mod n"
  have b: "?b < n" using assms(1) by simp
  have "int i mod int n = int ?b" by (simp add: zmod_int)
  then have "shard (int n) i (x # xs) bins = shard (int n) (Suc i) xs (bins[?b := bins ! ?b @ [x]])"
    using assms(1) Cons.prems b by simp
  moreover obtain bins' where "shard (int n) (Suc i) xs (bins[?b := bins ! ?b @ [x]]) = Ret bins'" "length bins' = n"
    "\<forall>j < n. bins' ! j = bins[?b := bins ! ?b @ [x]] ! j @ bin_of n j (Suc i) xs"
    using Cons.IH [of "bins[?b := bins ! ?b @ [x]]" "Suc i"] Cons.prems by auto
  ultimately show ?case using Cons.prems by (auto simp: nth_list_update)
qed simp

lemma bins_partition:
  assumes "0 < n"
  shows "(\<Sum>j<n. mset (bin_of n j i xs)) = mset xs"
proof (induction xs arbitrary: i)
  case (Cons x xs)
  have "(\<Sum>j<n. mset (bin_of n j i (x # xs))) = (\<Sum>j<n. mset (bin_of n j (Suc i) xs) + (if j = i mod n then {#x#} else {#}))"
    by (rule sum.cong) auto
  also have "\<dots> = mset xs + {#x#}"
    using assms Cons.IH [of "Suc i"] by (simp add: sum.distrib sum.delta)
  finally show ?case by simp
qed simp

section \<open>Requests\<close>

definition after_laws :: "(time \<Rightarrow> duration \<Rightarrow> time) \<Rightarrow> bool" where
  "after_laws after \<longleftrightarrow> (\<forall>cur d. cur + max 0 d \<le> after cur d)"

lemma trace_offset_range: "min_duration \<le> trace_offset x \<and> trace_offset x \<le> max_duration"
  by (auto simp: trace_offset_def f_to_int_def min_duration_def max_duration_def Let_def split: f64.splits)

lemma w_next_time:
  assumes "after_laws after" and "wk_clientStartTime w \<le> cur"
  shows "cur \<le> w_next after w cur x" and "wk_clientStartTime w + trace_offset x \<le> w_next after w cur x"
proof -
  let ?ts = "wk_clientStartTime w + trace_offset x"
  have a: "cur + max 0 (t_Until cur ?ts) \<le> w_next after w cur x"
    using assms(1) by (simp add: after_laws_def w_next_def t_Add_def)
  then show "cur \<le> w_next after w cur x" by linarith
  have "?ts - cur \<le> max 0 (t_Until cur ?ts)"
    using assms(2) trace_offset_range [of x] by (auto simp: t_Until_def t_Sub_def max_def min_def)
  with a show "?ts \<le> w_next after w cur x" by linarith
qed

lemma send_from_facts:
  assumes "after_laws after" and "wk_clientStartTime w \<le> cur"
  shows "map rq_ID (send_from after w i k cur xs) = map (\<lambda>m. request_id (wk_target w) i (k + m)) [0..<length xs]"
    and "map (\<lambda>r. (rq_DurationMilliSec r, rq_TraceRelTime r)) (send_from after w i k cur xs) =
         map (\<lambda>v. (RuntimeMilliSec v, trace_offset (ArrivalTimeSec v))) xs"
    and "r \<in> set (send_from after w i k cur xs) \<Longrightarrow> rq_Target r = wk_target w \<and> rq_TraceRelTime r \<le> rq_ClientRelTime r"
  using assms(2)
proof (induction xs arbitrary: k cur)
  case (Cons x xs)
  {
    case 1
    from order_trans [OF 1 w_next_time(1) [OF assms(1) 1]]
    have "wk_clientStartTime w \<le> w_next after w cur (ArrivalTimeSec x)" .
    from Cons.IH(1) [OF this, of "Suc k"] show ?case by (simp add: map_upt_Suc Let_def del: upt_Suc)
  next
    case 2
    from order_trans [OF 2 w_next_time(1) [OF assms(1) 2]]
    have "wk_clientStartTime w \<le> w_next after w cur (ArrivalTimeSec x)" .
    from Cons.IH(2) [OF this, of "Suc k"] show ?case by (simp add: Let_def)
  next
    case 3
    let ?now = "w_next after w cur (ArrivalTimeSec x)"
    have le: "wk_clientStartTime w \<le> ?now" by (rule order_trans [OF 3(2) w_next_time(1) [OF assms(1) 3(2)]])
    have "trace_offset (ArrivalTimeSec x) \<le> t_Sub ?now (wk_clientStartTime w)"
      using w_next_time(2) [OF assms(1) 3(2), of "ArrivalTimeSec x"] trace_offset_range [of "ArrivalTimeSec x"]
      by (auto simp: t_Sub_def)
    with 3(1) Cons.IH(3) [OF _ le, of "Suc k"] show ?case by (auto simp: Let_def)
  }
qed simp_all

lemma rev_request_id:
  "rev (request_id t i k) = rev (itoa_nat k) @ CHR ''/'' # rev (itoa_nat i) @ CHR ''-'' # rev t"
  by (simp add: request_id_def itoa_def)

lemma request_id_inject: "request_id t i k = request_id t' i' k' \<longleftrightarrow> t = t' \<and> i = i' \<and> k = k'"
proof
  assume "request_id t i k = request_id t' i' k'"
  then have "rev (request_id t i k) = rev (request_id t' i' k')" by simp
  then have "rev (itoa_nat k) = rev (itoa_nat k') \<and> rev (itoa_nat i) @ CHR ''-'' # rev t = rev (itoa_nat i') @ CHR ''-'' # rev t'"
    unfolding rev_request_id by (subst (asm) sep_append_inject) (simp_all add: itoa_nat_no_sep)
  moreover from this have "rev (itoa_nat i) = rev (itoa_nat i') \<and> rev t = rev t'"
    using sep_append_inject [of "CHR ''-''" "rev (itoa_nat i)" "rev (itoa_nat i')" "rev t" "rev t'"] itoa_nat_no_sep by simp
  ultimately show "t = t' \<and> i = i' \<and> k = k'" by simp
qed simp

lemma collect_sends_Ret:
  "(\<And>i. i \<in> set is \<Longrightarrow> f i = Ret (g i)) \<Longrightarrow> collect_sends f is = Ret (map g is)"
  by (induction "is") auto

text \<open>What a worker with bins sends.\<close>

lemma w_replay_Ret:
  assumes "length (wk_senderInvocations w) = n" and "wk_nSenders w = int n"
  shows "w_replay after start w =
     Ret (map (\<lambda>i. send_from after (w\<lparr>wk_clientStartTime := start\<rparr>) i 0 start (wk_senderInvocations w ! i)) [0..<n])"
  unfolding w_replay_def Let_def using assms by (simp, intro collect_sends_Ret) (simp add: w_send_def)

lemma distinct_concat_ids:
  assumes "\<And>i. i < n \<Longrightarrow> map f (g i) = map (\<lambda>m. request_id t i m) [0..<length (g i)]"
  shows "distinct (map f (concat (map g [0..<n])))"
  using assms
proof (induction n)
  case (Suc n)
  have "distinct (map f (g n))" using Suc.prems [of n] by (simp add: distinct_map inj_on_def request_id_inject)
  moreover have "set (map f (concat (map g [0..<n]))) \<subseteq> {request_id t i m | i m. i < n}"
  proof
    fix y
    assume "y \<in> set (map f (concat (map g [0..<n])))"
    then obtain i where i: "i < n" "y \<in> set (map f (g i))" by auto
    then show "y \<in> {request_id t i m | i m. i < n}" using Suc.prems [of i] by auto
  qed
  moreover have "set (map f (g n)) \<subseteq> {request_id t n m | m. True}" using Suc.prems [of n] by auto
  moreover have "{request_id t i m | i m. i < n} \<inter> {request_id t n m | m. True} = {}" by (auto simp: request_id_inject)
  ultimately have "set (map f (concat (map g [0..<n]))) \<inter> set (map f (g n)) = {}" by blast
  with \<open>distinct (map f (g n))\<close> Suc.IH Suc.prems show ?case by simp
qed simp

lemma mset_concat_sum: "mset (concat (map g [0..<n])) = (\<Sum>i<n. mset (g i))"
  by (induction n) (simp_all add: add.commute)

lemma image_mset_sum: "image_mset h (\<Sum>i<n. M i) = (\<Sum>i<n. image_mset h (M i))" for n :: nat
  by (induction n) simp_all

section \<open>What a worker sends\<close>

text \<open>A worker replays a trace if it sends exactly one request per invocation, with its runtime and
  trace time, to the target, with different identifiers, and none before its arrival time.\<close>

definition sends_trace :: "(time \<Rightarrow> duration \<Rightarrow> time) \<Rightarrow> time \<Rightarrow> string \<Rightarrow> TraceSpec \<Rightarrow> worker \<Rightarrow> Request list list \<Rightarrow> bool" where
  "sends_trace after start target trace w rss \<longleftrightarrow>
     newWorker target trace = Ret w \<and> w_replay after start w = Ret rss \<and>
     image_mset (\<lambda>r. (rq_DurationMilliSec r, rq_TraceRelTime r)) (mset (concat rss)) =
       image_mset (\<lambda>v. (RuntimeMilliSec v, trace_offset (ArrivalTimeSec v))) (mset (Invocations trace)) \<and>
     distinct (map rq_ID (concat rss)) \<and>
     (\<forall>r \<in> set (concat rss). rq_Target r = target \<and> rq_TraceRelTime r \<le> rq_ClientRelTime r \<and>
        (\<exists>i k. rq_ID r = request_id target i k))"

text \<open>A worker for a trace of up to 2 to the 53 invocations (an empty one included) is built without a
  panic and replays it.\<close>

lemma worker_sends_trace:
  assumes "after_laws after" and "int (length (Invocations trace)) \<le> 2 ^ 53"
  shows "\<exists>w rss. sends_trace after start target trace w rss"
proof -
  let ?xs = "Invocations trace" and ?N = "nSenders_of (length (Invocations trace))"
  have N: "0 \<le> ?N \<and> (?xs \<noteq> [] \<longrightarrow> 1 \<le> ?N)"
  proof (cases "?xs = []")
    case True
    have "nSenders_of 0 = 0"
      by (simp add: nSenders_of_def f_of_int_def f_div_def maxInvocationsPerSecondPerSender_def f_to_int_def f_trunc_def)
    with True show ?thesis by simp
  next
    case False
    then show ?thesis using nSenders_bounds [of "length ?xs"] assms(2) by (simp add: Suc_le_eq)
  qed
  define n where "n = nat ?N"
  have nN: "?N = int n" using N by (simp add: n_def)
  obtain bins where bins: "shard (int n) 0 ?xs (replicate n []) = Ret bins" "length bins = n"
    "\<forall>j < n. bins ! j = bin_of n j 0 ?xs"
  proof (cases "n = 0")
    case True
    then have "?xs = []" using N nN by auto
    with True that [of "[]"] show thesis by simp
  next
    case False
    with shard_bins [of n "replicate n []" 0 ?xs] that show thesis by auto
  qed
  define w where "w = \<lparr> wk_target = target, wk_trace = trace, wk_clientStartTime = 0, wk_nSenders = int n, wk_senderInvocations = bins \<rparr>"
  let ?w = "w\<lparr>wk_clientStartTime := start\<rparr>"
  let ?g = "\<lambda>i. send_from after ?w i 0 start (bins ! i)"
  have new: "newWorker target trace = Ret w" using nN bins(1) by (simp add: newWorker_def Let_def w_def)
  have rep: "w_replay after start w = Ret (map ?g [0..<n])"
    using w_replay_Ret [of w n after start] bins(2) by (simp add: w_def)
  have st: "wk_clientStartTime ?w \<le> start" by simp
  note F = send_from_facts [OF assms(1) st]
  have ids: "map rq_ID (?g i) = map (\<lambda>m. request_id target i m) [0..<length (?g i)]" for i
    using F(1) [of i 0 "bins ! i"] by (simp add: w_def) (metis (no_types, lifting) diff_zero length_map length_upt)
  have msg: "image_mset (\<lambda>r. (rq_DurationMilliSec r, rq_TraceRelTime r)) (mset (?g i)) =
      image_mset (\<lambda>v. (RuntimeMilliSec v, trace_offset (ArrivalTimeSec v))) (mset (bins ! i))" for i
    using arg_cong [OF F(2) [of i 0 "bins ! i"], of mset] by simp
  have "image_mset (\<lambda>r. (rq_DurationMilliSec r, rq_TraceRelTime r)) (mset (concat (map ?g [0..<n]))) =
      (\<Sum>i<n. image_mset (\<lambda>v. (RuntimeMilliSec v, trace_offset (ArrivalTimeSec v))) (mset (bins ! i)))"
    unfolding mset_concat_sum by (simp add: image_mset_sum msg)
  also have "\<dots> = image_mset (\<lambda>v. (RuntimeMilliSec v, trace_offset (ArrivalTimeSec v))) (\<Sum>i<n. mset (bin_of n i 0 ?xs))"
    using bins(3) by (simp add: image_mset_sum)
  also have "(\<Sum>i<n. mset (bin_of n i 0 ?xs)) = mset ?xs"
    using bins_partition [of n 0 ?xs] N nN by (cases "n = 0") auto
  finally have ms: "image_mset (\<lambda>r. (rq_DurationMilliSec r, rq_TraceRelTime r)) (mset (concat (map ?g [0..<n]))) =
      image_mset (\<lambda>v. (RuntimeMilliSec v, trace_offset (ArrivalTimeSec v))) (mset ?xs)" .
  have id: "\<exists>i k. rq_ID r = request_id target i k" if "r \<in> set (?g j)" for r j
  proof -
    from that have "rq_ID r \<in> set (map rq_ID (?g j))" by simp
    then show ?thesis unfolding ids [of j] by auto
  qed
  have "\<forall>r \<in> set (concat (map ?g [0..<n])). rq_Target r = target \<and> rq_TraceRelTime r \<le> rq_ClientRelTime r \<and>
      (\<exists>i k. rq_ID r = request_id target i k)"
    using F(3) id by (fastforce simp: w_def)
  with new rep ms distinct_concat_ids [of n rq_ID ?g target, OF ids] show ?thesis unfolding sends_trace_def by blast
qed

definition sample_trace :: TraceSpec where
  "sample_trace = \<lparr> DurationMinutes = 1, Invocations =
     [\<lparr> ArrivalTimeSec = Fin 0, RuntimeMilliSec = 10 \<rparr>, \<lparr> ArrivalTimeSec = Fin 1, RuntimeMilliSec = 20 \<rparr>] \<rparr>"

text \<open>Lists that are concatenated by key, when the key can be read off every element.\<close>

lemma filter_concat_tag:
  assumes "distinct ks" and "\<And>k x. k \<in> set ks \<Longrightarrow> x \<in> set (f k) \<Longrightarrow> tag x = k" and "k \<in> set ks"
  shows "filter (\<lambda>x. tag x = k) (concat (map f ks)) = f k"
  using assms
proof (induction ks)
  case (Cons j ks)
  have none: "filter (\<lambda>x. tag x = k) (concat (map f ls)) = []" if "set ls \<subseteq> set (j # ks)" "k \<notin> set ls" for ls
    using that Cons.prems(2) by (fastforce simp: filter_empty_conv)
  have all: "filter (\<lambda>x. tag x = k) (f k) = f k" using Cons.prems(2,3) by (simp add: filter_id_conv)
  show ?case
  proof (cases "k = j")
    case True
    then show ?thesis using all none [of ks] Cons.prems(1) by auto
  next
    case False
    then show ?thesis using none [of "[j]"] Cons.IH Cons.prems by auto
  qed
qed simp

lemma distinct_concat_tag:
  assumes "distinct ks" and "\<And>k. k \<in> set ks \<Longrightarrow> distinct (map h (f k))"
    and "\<And>k x. k \<in> set ks \<Longrightarrow> x \<in> set (f k) \<Longrightarrow> \<exists>i j. h x = request_id k i j"
  shows "distinct (map h (concat (map f ks)))"
  using assms
proof (induction ks)
  case (Cons k ks)
  have "h x \<noteq> h y" if "x \<in> set (f k)" "l \<in> set ks" "y \<in> set (f l)" for x y l
    using Cons.prems(1) Cons.prems(3) [of k x] Cons.prems(3) [of l y] that by (auto simp: request_id_inject)
  then have "set (map h (f k)) \<inter> set (map h (concat (map f ks))) = {}" by fastforce
  with Cons show ?case by simp
qed simp

section \<open>What the client sends\<close>

text \<open>The worker of the i-th target gets the i-th trace.\<close>

lemma add_workers_Ret:
  assumes "\<And>j. j < length targets \<Longrightarrow> newWorker (KeyFromObject (targets ! j)) (cl_traces c ! (i + j)) = Ret (W (KeyFromObject (targets ! j)))"
    and "i + length targets \<le> length (cl_traces c)"
    and "\<And>t. t \<in> set targets \<Longrightarrow> g_externalInputs g (KeyFromObject t) \<noteq> None"
  shows "add_workers g i targets c =
     Ret (c\<lparr>cl_workers := (\<lambda>k. if k \<in> KeyFromObject ` set targets then Some (W k) else cl_workers c k)\<rparr>)"
  using assms
proof (induction targets arbitrary: i c)
  case (Cons t ts)
  let ?k = "KeyFromObject t"
  let ?c = "c\<lparr>cl_workers := (cl_workers c)(?k \<mapsto> W ?k)\<rparr>"
  obtain q where q: "g_externalInputs g ?k = Some q" using Cons.prems(3) [of t] by auto
  have w: "newWorker ?k (cl_traces c ! i) = Ret (W ?k)" using Cons.prems(1) [of 0] by simp
  have "newWorker (KeyFromObject (ts ! j)) (cl_traces ?c ! (Suc i + j)) = Ret (W (KeyFromObject (ts ! j)))" if "j < length ts" for j
    using Cons.prems(1) [of "Suc j"] that by simp
  from Cons.IH [OF this] Cons.prems(2,3)
  have "add_workers g (Suc i) ts ?c = Ret (?c\<lparr>cl_workers := (\<lambda>k. if k \<in> KeyFromObject ` set ts then Some (W k) else cl_workers ?c k)\<rparr>)"
    by simp
  moreover have "(\<lambda>k. if k \<in> KeyFromObject ` set ts then Some (W k) else cl_workers ?c k) =
      (\<lambda>k. if k \<in> KeyFromObject ` set (t # ts) then Some (W k) else cl_workers c k)" by auto
  ultimately show ?case using q w Cons.prems(2) by (simp add: go_index_def)
qed simp

lemma setup_workers:
  assumes "after_laws after" and "distinct (map KeyFromObject targets)"
    and "\<And>t. t \<in> set targets \<Longrightarrow> g_externalInputs g (KeyFromObject t) \<noteq> None"
    and "length targets \<le> length (cl_traces c)" and "cl_workers c = Map.empty"
    and "\<And>tr. tr \<in> set (cl_traces c) \<Longrightarrow> int (length (Invocations tr)) \<le> 2 ^ 53"
  obtains W R where
    "cl_SetupWithManager g (Inr targets) c =
       Ret (None, c\<lparr>cl_workers := (\<lambda>k. if k \<in> KeyFromObject ` set targets then Some (W k) else None)\<rparr>)"
    "\<And>i. i < length targets \<Longrightarrow>
       sends_trace after start (KeyFromObject (targets ! i)) (cl_traces c ! i) (W (KeyFromObject (targets ! i))) (R (KeyFromObject (targets ! i)))"
proof -
  let ?key = KeyFromObject and ?n = "length targets"
  define T where "T k = the (map_of (zip (map ?key targets) (cl_traces c)) k)" for k
  have T: "T (?key (targets ! j)) = cl_traces c ! j" if "j < ?n" for j
  proof -
    have "distinct (map fst (zip (map ?key targets) (cl_traces c)))" using assms(2,4) by (simp add: map_fst_zip_take)
    moreover have "(?key (targets ! j), cl_traces c ! j) \<in> set (zip (map ?key targets) (cl_traces c))"
      using that assms(4) by (auto simp: set_zip intro!: exI [of _ j])
    ultimately show ?thesis unfolding T_def by (simp add: map_of_is_SomeI)
  qed
  define Z where "Z k = (SOME z. sends_trace after start k (T k) (fst z) (snd z))" for k
  have Z: "sends_trace after start (?key (targets ! j)) (cl_traces c ! j) (fst (Z (?key (targets ! j)))) (snd (Z (?key (targets ! j))))"
    if "j < ?n" for j
  proof -
    have "int (length (Invocations (T (?key (targets ! j))))) \<le> 2 ^ 53" using T [OF that] that assms(4,6) by simp
    from worker_sends_trace [OF assms(1) this] have "\<exists>z. sends_trace after start (?key (targets ! j)) (T (?key (targets ! j))) (fst z) (snd z)"
      by simp
    from someI_ex [OF this] show ?thesis unfolding Z_def T [OF that] .
  qed
  have "add_workers g 0 targets c = Ret (c\<lparr>cl_workers := (\<lambda>k. if k \<in> ?key ` set targets then Some (fst (Z k)) else cl_workers c k)\<rparr>)"
    using Z assms(3,4) by (intro add_workers_Ret) (auto simp: sends_trace_def)
  then have "cl_SetupWithManager g (Inr targets) c =
      Ret (None, c\<lparr>cl_workers := (\<lambda>k. if k \<in> ?key ` set targets then Some (fst (Z k)) else None)\<rparr>)"
    using assms(4,5) by (simp add: cl_SetupWithManager_def cong: if_cong)
  from that [of "\<lambda>k. fst (Z k)" "\<lambda>k. snd (Z k)", OF this Z] show thesis .
qed

lemma start_sends:
  assumes "range_laws rng" and "finite K" and "cl_workers c = (\<lambda>k. if k \<in> K then Some (W k) else None)"
    and sends: "\<And>k. k \<in> K \<Longrightarrow> sends_trace after start k (T k) (W k) (R k)"
  obtains out where "cl_Start after start rng c = Ret out"
    "\<And>k. k \<in> K \<Longrightarrow> filter (\<lambda>r. rq_Target r = k) (concat (concat out)) = concat (R k)"
    "distinct (map rq_ID (concat (concat out)))"
    "\<And>r. r \<in> set (concat (concat out)) \<Longrightarrow> rq_Target r \<in> K \<and> rq_TraceRelTime r \<le> rq_ClientRelTime r"
proof -
  let ?ks = "rng (cl_workers c)"
  have "dom (cl_workers c) = K" using assms(3) by (auto split: if_splits)
  then have ks: "set ?ks = K" "distinct ?ks" using assms(1,2) unfolding range_laws_def by metis+
  note W = sends [unfolded sends_trace_def]
  have st: "cl_Start after start rng c = Ret (map R ?ks)"
    unfolding cl_Start_def using ks(1) W assms(3) by (intro go_traverse_Ret) simp
  have cc: "concat (concat (map R ks)) = concat (map (\<lambda>k. concat (R k)) ks)" for ks by (induction ks) simp_all
  have tag: "rq_Target r = k" if "k \<in> set ?ks" "r \<in> set (concat (R k))" for k r using W that ks(1) by blast
  show thesis
  proof (rule that [OF st])
    show "filter (\<lambda>r. rq_Target r = k) (concat (concat (map R ?ks))) = concat (R k)" if "k \<in> K" for k
      unfolding cc using ks tag that by (intro filter_concat_tag) blast+
    show "distinct (map rq_ID (concat (concat (map R ?ks))))"
      unfolding cc using ks W by (intro distinct_concat_tag) blast+
    show "rq_Target r \<in> K \<and> rq_TraceRelTime r \<le> rq_ClientRelTime r" if "r \<in> set (concat (concat (map R ?ks)))" for r
    proof -
      from that obtain k where "k \<in> K" "r \<in> set (concat (R k))" unfolding cc using ks(1) by auto
      with W [of k] tag ks(1) show ?thesis by auto
    qed
  qed
qed

section \<open>Properties\<close>

text \<open>C35: the client replays every trace to its target. If the listed targets have different keys,
  are all registered with the gateway and are no more than the loaded traces (each of at most
  2 to the 53 invocations), the set-up succeeds, and \<open>Start\<close> sends to the i-th target exactly one
  request per invocation of the i-th trace, with its runtime and trace time; over all targets
  and senders the identifiers are pairwise different, nothing is sent to another target, and no
  request leaves before its arrival time, if timers never fire early.\<close>

theorem client_sends_traces:
  assumes "after_laws after" and "range_laws rng" and "distinct (map KeyFromObject targets)"
    and "\<And>t. t \<in> set targets \<Longrightarrow> g_externalInputs g (KeyFromObject t) \<noteq> None"
    and "length targets \<le> length (cl_traces c)" and "cl_workers c = Map.empty"
    and "\<And>tr. tr \<in> set (cl_traces c) \<Longrightarrow> int (length (Invocations tr)) \<le> 2 ^ 53"
  shows "\<exists>c' out. cl_SetupWithManager g (Inr targets) c = Ret (None, c') \<and> cl_Start after start rng c' = Ret out \<and>
     (\<forall>i < length targets.
        image_mset (\<lambda>r. (rq_DurationMilliSec r, rq_TraceRelTime r))
          (mset (filter (\<lambda>r. rq_Target r = KeyFromObject (targets ! i)) (concat (concat out)))) =
        image_mset (\<lambda>v. (RuntimeMilliSec v, trace_offset (ArrivalTimeSec v))) (mset (Invocations (cl_traces c ! i)))) \<and>
     distinct (map rq_ID (concat (concat out))) \<and>
     (\<forall>r \<in> set (concat (concat out)). rq_Target r \<in> KeyFromObject ` set targets \<and> rq_TraceRelTime r \<le> rq_ClientRelTime r)"
proof -
  let ?key = KeyFromObject
  from setup_workers [OF assms(1,3-7), where start = start] obtain W R where
    s: "cl_SetupWithManager g (Inr targets) c =
       Ret (None, c\<lparr>cl_workers := (\<lambda>k. if k \<in> ?key ` set targets then Some (W k) else None)\<rparr>)" (is "_ = Ret (None, ?c)")
    and w: "\<And>i. i < length targets \<Longrightarrow>
       sends_trace after start (?key (targets ! i)) (cl_traces c ! i) (W (?key (targets ! i))) (R (?key (targets ! i)))" by blast
  have "\<exists>tr. sends_trace after start k tr (W k) (R k)" if "k \<in> ?key ` set targets" for k
    using that w by (metis imageE in_set_conv_nth)
  then obtain T where "\<And>k. k \<in> ?key ` set targets \<Longrightarrow> sends_trace after start k (T k) (W k) (R k)" by metis
  from start_sends [OF assms(2) finite_imageI [OF finite_set, of ?key targets] _ this, of ?c] obtain out where o: "cl_Start after start rng ?c = Ret out"
    "\<And>k. k \<in> ?key ` set targets \<Longrightarrow> filter (\<lambda>r. rq_Target r = k) (concat (concat out)) = concat (R k)"
    "distinct (map rq_ID (concat (concat out)))"
    "\<And>r. r \<in> set (concat (concat out)) \<Longrightarrow> rq_Target r \<in> ?key ` set targets \<and> rq_TraceRelTime r \<le> rq_ClientRelTime r"
    by auto
  have "image_mset (\<lambda>r. (rq_DurationMilliSec r, rq_TraceRelTime r))
        (mset (filter (\<lambda>r. rq_Target r = ?key (targets ! i)) (concat (concat out)))) =
      image_mset (\<lambda>v. (RuntimeMilliSec v, trace_offset (ArrivalTimeSec v))) (mset (Invocations (cl_traces c ! i)))"
    if "i < length targets" for i
    using w [OF that] o(2) [of "?key (targets ! i)"] that unfolding sends_trace_def by simp
  with s o(1,3,4) show ?thesis by blast
qed

definition sample_client :: replay_client where
  "sample_client = \<lparr> cl_traces = [sample_trace], cl_workers = Map.empty, cl_output = [] \<rparr>"

theorem client_sends_traces_witness:
  "\<exists>c' out. cl_SetupWithManager (register fifo fifo (KeyFromObject sample_meta) (newGatewayImpl fifo)) (Inr [sample_meta]) sample_client = Ret (None, c') \<and>
     cl_Start (\<lambda>cur d. cur + max 0 d) 100 sorted_range c' = Ret out \<and>
     image_mset rq_DurationMilliSec (mset (filter (\<lambda>r. rq_Target r = KeyFromObject sample_meta) (concat (concat out)))) = {#10, 20#}"
proof -
  have a: "after_laws (\<lambda>cur d. cur + max 0 d)" by (simp add: after_laws_def)
  have reg: "g_externalInputs (register fifo fifo (KeyFromObject sample_meta) (newGatewayImpl fifo)) (KeyFromObject t) \<noteq> None"
    if "t \<in> set [sample_meta]" for t using that by (simp add: register_def)
  have tr: "int (length (Invocations tr)) \<le> 2 ^ 53" if "tr \<in> set (cl_traces sample_client)" for tr
    using that by (simp add: sample_client_def sample_trace_def)
  from client_sends_traces [OF a sorted_range_laws _ reg _ _ tr, where start = 100 and targets = "[sample_meta]" and c = sample_client] obtain c' out where
    o: "cl_SetupWithManager (register fifo fifo (KeyFromObject sample_meta) (newGatewayImpl fifo)) (Inr [sample_meta]) sample_client = Ret (None, c')"
      "cl_Start (\<lambda>cur d. cur + max 0 d) 100 sorted_range c' = Ret out"
    and ms: "image_mset (\<lambda>r. (rq_DurationMilliSec r, rq_TraceRelTime r))
        (mset (filter (\<lambda>r. rq_Target r = KeyFromObject sample_meta) (concat (concat out)))) =
       image_mset (\<lambda>v. (RuntimeMilliSec v, trace_offset (ArrivalTimeSec v))) (mset (Invocations sample_trace))"
    by (auto simp: sample_client_def)
  from arg_cong [OF ms, of "image_mset fst"] have "image_mset rq_DurationMilliSec
      (mset (filter (\<lambda>r. rq_Target r = KeyFromObject sample_meta) (concat (concat out)))) = {#10, 20#}"
    by (simp add: sample_trace_def multiset.map_comp comp_def)
  with o show ?thesis by blast
qed

lemma smod_zero_iff: "a smod b = 0 \<longleftrightarrow> b dvd a" for a b :: int
  by (auto simp: signed_modulo_int_def sgn_0_0 mod_eq_0_iff_dvd)

lemma write_loop_counts:
  assumes "factor \<noteq> 0" and "\<And>l. wr l = None"
  shows "write_loop factor wr (map Some rs) n f acc =
     Ret (n + int (length rs), f + int (length (filter (\<lambda>r. rs_Status r \<noteq> SUCCESS) rs)),
          acc @ map (\<lambda>j. Summary (rs ! j)) (filter (\<lambda>j. factor dvd n + int (Suc j)) [0..<length rs]))"
proof (induction rs arbitrary: n f acc)
  case (Cons r rs)
  have "filter (\<lambda>j. factor dvd n + int (Suc j)) [0..<length (r # rs)] =
      (if factor dvd n + 1 then [0] else []) @ map Suc (filter (\<lambda>j. factor dvd (n + 1) + int (Suc j)) [0..<length rs])"
    by (simp add: upt_conv_Cons map_Suc_upt [symmetric] filter_map comp_def add.assoc del: upt_Suc)
  moreover have "(n + 1) smod factor = 0 \<longleftrightarrow> factor dvd n + 1" by (rule smod_zero_iff)
  ultimately show ?case using assms Cons.IH by (simp add: Let_def comp_def del: upt_Suc)
qed simp

text \<open>The output file accounts for every response. With a non-zero sampling factor and a disk
  that takes every write, the writer, fed by \<open>recv\<close>, writes the summary of every factor-th
  response in the order of arrival with its reception time, and a last line with the number
  of responses, of successes and of failures.\<close>

theorem write_accounts:
  assumes "factor \<noteq> 0" and "\<And>l. wr l = None"
  shows "cl_write factor wr (map Some (cl_recv rs)) c =
     Ret (c\<lparr>cl_output := cl_output c @
       map (\<lambda>j. Summary ((fst (rs ! j))\<lparr>rs_ClientRecvTS := snd (rs ! j)\<rparr>)) (filter (\<lambda>j. factor dvd int (Suc j)) [0..<length rs]) @
       [summary_line (int (length rs)) (int (length (filter (\<lambda>(r, t). rs_Status r \<noteq> SUCCESS) rs)))]\<rparr>)"
proof -
  have "length (filter (\<lambda>r. rs_Status r \<noteq> SUCCESS) (cl_recv rs)) = length (filter (\<lambda>(r, t). rs_Status r \<noteq> SUCCESS) rs)"
    by (induction rs) (auto simp: cl_recv_def)
  moreover have "map (\<lambda>j. Summary (cl_recv rs ! j)) (filter (\<lambda>j. factor dvd int (Suc j)) [0..<length rs]) =
      map (\<lambda>j. Summary ((fst (rs ! j))\<lparr>rs_ClientRecvTS := snd (rs ! j)\<rparr>)) (filter (\<lambda>j. factor dvd int (Suc j)) [0..<length rs])"
    by (simp add: cl_recv_def case_prod_beta)
  moreover have "length (cl_recv rs) = length rs" by (simp add: cl_recv_def)
  ultimately show ?thesis
    using assms(2) by (simp add: cl_write_def write_loop_counts [OF assms] del: upt_Suc of_nat_Suc)
qed

definition sample_client_file :: replay_client where
  "sample_client_file = \<lparr> cl_traces = [], cl_workers = Map.empty, cl_output = [] \<rparr>"

theorem write_accounts_witness:
  "\<exists>c. cl_write 2 (\<lambda>l. None) (map Some (cl_recv [(new_Response req_f SUCCESS, 7), (new_Response req_f FAIL_DISPATCH, 8)])) sample_client_file = Ret c \<and>
     cl_output c = [Summary ((new_Response req_f FAIL_DISPATCH)\<lparr>rs_ClientRecvTS := 8\<rparr>), summary_line 2 1]"
  using write_accounts [of 2 "\<lambda>l. None" "[(new_Response req_f SUCCESS, 7), (new_Response req_f FAIL_DISPATCH, 8)]" sample_client_file]
  by (simp add: sample_client_file_def new_Response_def upt_rec)

end
