(* ===== verification/Trace.thy ===== *)
theory Trace
  imports Replay Ctrl
begin

text \<open>
  \<open>src/experiments/trace/main.go\<close>: the program that replays a trace. The
  first part is \<open>main\<close> up to the point where everything is set up; the second part is the
  running program as the step relation \<open>tm_step\<close>, in which \<open>main\<close> itself, the senders, the
  relays, the dispatchers, the receiver and the writer take steps in any order. The clock is
  part of the state, so that the fixed waiting times of \<open>main\<close> are guards on it.
\<close>

section \<open>trace/main.go\<close>

record trace_flags =
  fl_gateway :: string
  fl_backend :: string
  fl_autoscaler :: string
  fl_autoscalerConfig :: string
  fl_loaderConfig :: string
  fl_output :: string
  fl_timeout :: int

definition default_flags :: trace_flags where
  "default_flags =
     \<lparr> fl_gateway = ''k8s'', fl_backend = ''fake'', fl_autoscaler = ''one-time'', fl_autoscalerConfig = [],
       fl_loaderConfig = ''config/loader.json'', fl_output = ''trace.log'', fl_timeout = 15 \<rparr>"

definition validateFlags :: "trace_flags \<Rightarrow> trace_flags go" where
  "validateFlags f =
     (if fl_loaderConfig f = [] then Panic (PanicMsg ''must provide workload config'')
      else if fl_gateway f = ''knative'' then
        (let f1 = f\<lparr>fl_autoscaler := [], fl_autoscalerConfig := []\<rparr>
         in if fl_backend f1 = [] then Ret (f1\<lparr>fl_backend := ''grpc''\<rparr>)
            else if fl_backend f1 \<noteq> ''grpc''
            then Fatal (''Only grpc backend is supported for knative gateway, got '' @ fl_backend f1)
            else Ret f1)
      else if fl_gateway f = ''k8s'' then
        (if fl_autoscaler f \<noteq> ''one-time'' \<and> fl_autoscalerConfig f = []
         then Fatal (''Must provide config for '' @ fl_autoscaler f @ '' autoscaler'')
         else if fl_backend f = [] then Ret (f\<lparr>fl_backend := ''fake''\<rparr>)
         else if fl_backend f \<noteq> ''grpc'' \<and> fl_backend f \<noteq> ''fake''
         then Fatal ''Only fake/grpc backend is supported for k8s gateway''
         else Ret f)
      else Fatal (''Unknown gateway framework '' @ fl_gateway f))"

text \<open>From the flags to a k8s gateway that is set up: the part of \<open>main\<close> up to the client. The set-up
  first makes a client to list the deployments, which may end the program.\<close>

definition main_k8s_gateway ::
  "(string \<Rightarrow> apierr + string) \<Rightarrow> (string \<Rightarrow> apierr + AutoscalerConfig) \<Rightarrow> ('rq, Request) chann \<Rightarrow> ('rs, Response) chann \<Rightarrow>
   ('m, nat) shared_map \<Rightarrow> ('q, string) chann \<Rightarrow> 'b buckets \<Rightarrow> 'w window \<Rightarrow> (apierr + objmeta list) go \<Rightarrow> apierr option \<Rightarrow> trace_flags \<Rightarrow>
   ('rq, 'rs, 'm, 'q, 'p, 'b, 'w) k8sGateway go" where
  "main_k8s_gateway ReadFile Unmarshal RQ RS S T B W listed built f =
     (case NewK8sGateway RS (int64 (fl_timeout f * Second)) (fl_autoscaler f)
             (NewAutoscalerConfigFrom ReadFile Unmarshal (fl_autoscalerConfig f)) of
        Inl err \<Rightarrow> Fatal (''Unable to create k8s gateway: '' @ err_Error err)
      | Inr g \<Rightarrow>
          go_bind listed (\<lambda>targets.
            go_bind (SetUpWithManager RQ RS S T B W targets built g) (\<lambda>(err, g').
              case err of
                Some e \<Rightarrow> Fatal (''Unable to setup k8s gateway with manager: '' @ err_Error e)
              | None \<Rightarrow> Ret g')))"

section \<open>main.go: the set-up\<close>

text \<open>The gateway of the \<open>gateway.Gateway\<close> interface.\<close>

datatype ('rq, 'rs, 'm, 'q, 'p, 'b, 'w) gw_obj =
  K8sObj "('rq, 'rs, 'm, 'q, 'p, 'b, 'w) k8sGateway" | KnObj "('rq, 'rs, 'p) knativeGateway"

fun obj_impl :: "('rq, 'rs, 'm, 'q, 'p, 'b, 'w) gw_obj \<Rightarrow> ('rq, 'rs) gatewayImpl" where
  "obj_impl (K8sObj g) = kg_impl g"
| "obj_impl (KnObj g) = ng_impl g"

text \<open>What \<open>main\<close> asks of its surroundings: entering the directory, whether it has a data directory,
  the configuration and the manager, the files, the listings and the connections.\<close>

record ('c, 'sc, 'mp, 'cl) main_env =
  me_Chdir :: "string \<Rightarrow> apierr option"
  me_StatData :: "apierr + bool"
  me_GetConfig :: "rest_config go"
  me_NewManager :: "rest_config \<Rightarrow> mgr_options \<Rightarrow> apierr + ('sc, 'mp) manager"
  me_NewClient :: "rest_config \<Rightarrow> 'sc \<Rightarrow> 'mp \<Rightarrow> apierr + 'cl"
  me_ReadFile :: "string \<Rightarrow> apierr + string"
  me_Unmarshal :: "string \<Rightarrow> apierr + AutoscalerConfig"
  me_List :: "'cl \<Rightarrow> apierr + objmeta list"
  me_Complete :: "apierr option"
  me_Services :: "apierr + (objmeta \<times> string) list"
  me_Dial :: "string \<Rightarrow> apierr + 'c"
  me_LoadTrace :: "string \<Rightarrow> TraceSpec list go"
  me_Create :: "string \<Rightarrow> apierr option"

definition main_gateway ::
  "('c, 'sc, 'mp, 'cl) main_env \<Rightarrow> ('rq, Request) chann \<Rightarrow> ('rs, Response) chann \<Rightarrow> ('m, nat) shared_map \<Rightarrow> ('q, string) chann \<Rightarrow>
   ('p, 'c) chann \<Rightarrow> 'b buckets \<Rightarrow> 'w window \<Rightarrow> ('sc, 'mp) manager \<Rightarrow> trace_flags \<Rightarrow> ('rq, 'rs, 'm, 'q, 'p, 'b, 'w) gw_obj go" where
  "main_gateway E RQ RS S T C B W mgr f =
     (if fl_gateway f = ''knative'' then
        go_bind (ng_SetUpWithManager RQ RS C (Use (fl_backend f) backend_cfg0) (me_Dial E) (me_Services E)
                   (NewKnativeGateway RS (int64 (fl_timeout f * Second)))) (\<lambda>(err, g).
          case err of
            Some e \<Rightarrow> Fatal (''Unable to setup knative gateway with manager: '' @ err_Error e)
          | None \<Rightarrow> Ret (KnObj g))
      else if fl_gateway f = ''k8s'' then
        go_bind (main_k8s_gateway (me_ReadFile E) (me_Unmarshal E) RQ RS S T B W
                   (go_bind (NewUncachedClientOrDie (me_NewClient E) mgr) (\<lambda>cl. Ret (me_List E cl))) (me_Complete E) f) (\<lambda>g.
          Ret (K8sObj g))
      else Panic (PanicMsg (''unknown gateway framework '' @ fl_gateway f)))"

definition main_client ::
  "('c, 'sc, 'mp, 'cl) main_env \<Rightarrow> ('sc, 'mp) manager \<Rightarrow> ('rq, 'rs) gatewayImpl \<Rightarrow> trace_flags \<Rightarrow> replay_client go" where
  "main_client E mgr g f =
     go_bind (NewClient (me_LoadTrace E (fl_loaderConfig f)) (fl_output f) (me_Create E (fl_output f))) (\<lambda>r.
       case r of
         Inl e \<Rightarrow> Fatal (''Unable to create client: '' @ err_Error e)
       | Inr c \<Rightarrow>
           go_bind (NewUncachedClientOrDie (me_NewClient E) mgr) (\<lambda>cl.
             go_bind (cl_SetupWithManager g (me_List E cl) c) (\<lambda>(err, c').
               case err of
                 Some e \<Rightarrow> Fatal (''Unable to setup client with manager: '' @ err_Error e)
               | None \<Rightarrow> Ret c')))"

definition main_setup ::
  "('c, 'sc, 'mp, 'cl) main_env \<Rightarrow> ('rq, Request) chann \<Rightarrow> ('rs, Response) chann \<Rightarrow> ('m, nat) shared_map \<Rightarrow> ('q, string) chann \<Rightarrow>
   ('p, 'c) chann \<Rightarrow> 'b buckets \<Rightarrow> 'w window \<Rightarrow> string \<Rightarrow> trace_flags \<Rightarrow>
   (('rq, 'rs, 'm, 'q, 'p, 'b, 'w) gw_obj \<times> replay_client) go" where
  "main_setup E RQ RS S T C B W baseDir flags =
     (case me_Chdir E baseDir of
        Some err \<Rightarrow> Fatal (''Cannot enter '' @ baseDir @ '': '' @ err_Error err)
      | None \<Rightarrow>
          if me_StatData E \<noteq> Inr True then Fatal (baseDir @ '' contains no data dir, consider running download.sh first'')
          else
            go_bind (validateFlags flags) (\<lambda>f.
              go_bind (NewManagerOrDie (me_GetConfig E) (me_NewManager E)) (\<lambda>mgr.
                go_bind (main_gateway E RQ RS S T C B W mgr f) (\<lambda>g.
                  go_bind (main_client E mgr (obj_impl g) f) (\<lambda>c. Ret (g, c))))))"

section \<open>main.go: the run\<close>

text \<open>Where \<open>main\<close> is after the set-up, with the time it began to wait.\<close>

datatype phase =
  WaitSync | SleepGateway time | SleepClient time | Selecting | Draining time | Closing time | AwaitRecv | Finished

datatype crash = SenderPanic panic | RelayPanic panic | WriterPanic panic | MainFatal string

text \<open>\<open>tm_trace\<close> is what the senders have to send once the client has started, \<open>tm_senders\<close> what each
  of them has left, \<open>tm_sent\<close> what they have sent; \<open>tm_pending\<close> are the requests the dispatchers
  work on.\<close>

record ('rq, 'rs, 'a) tm_sys =
  tm_now :: time
  tm_phase :: phase
  tm_signal :: bool
  tm_cancelled :: bool
  tm_g :: "('rq, 'rs) gatewayImpl"
  tm_a :: 'a
  tm_gwStarted :: bool
  tm_asStarted :: bool
  tm_relays :: "string \<rightharpoonup> relay"
  tm_pending :: "(string \<times> Request) multiset"
  tm_client :: replay_client
  tm_started :: bool
  tm_trace :: "Request multiset"
  tm_senders :: "Request list list"
  tm_sent :: "Request multiset"
  tm_finishSend :: "time option"
  tm_received :: "(Response \<times> time) list"
  tm_finishRecv :: bool
  tm_crash :: "crash option"

abbreviation ctx_done :: "('rq, 'rs, 'a) tm_sys \<Rightarrow> bool" where "ctx_done s \<equiv> tm_signal s \<or> tm_cancelled s"

abbreviation running :: "('rq, 'rs, 'a) tm_sys \<Rightarrow> bool" where "running s \<equiv> tm_crash s = None \<and> tm_phase s \<noteq> Finished"

definition tm0 :: "time \<Rightarrow> ('rq, 'rs) gatewayImpl \<Rightarrow> 'a \<Rightarrow> replay_client \<Rightarrow> ('rq, 'rs, 'a) tm_sys" where
  "tm0 now g a c =
     \<lparr> tm_now = now, tm_phase = WaitSync, tm_signal = False, tm_cancelled = False, tm_g = g, tm_a = a, tm_gwStarted = False, tm_asStarted = False,
       tm_relays = Map.empty, tm_pending = {#}, tm_client = c, tm_started = False, tm_trace = {#}, tm_senders = [],
       tm_sent = {#}, tm_finishSend = None, tm_received = [], tm_finishRecv = False, tm_crash = None \<rparr>"

text \<open>One round of a relay that may also run after the gateway is closed: from the closed external
  input it gets nil once the requests are used up, and sending on the closed output panics.\<close>

definition relay_in_round ::
  "('rq, Request) chann \<Rightarrow> ('rs, Response) chann \<Rightarrow> duration \<Rightarrow> (Request \<Rightarrow> 'a \<Rightarrow> 'a go) \<Rightarrow> time \<Rightarrow> string \<Rightarrow>
   ('rq, 'rs) gatewayImpl \<Rightarrow> relay \<Rightarrow> 'a \<Rightarrow> (('rq, 'rs) gatewayImpl \<times> relay \<times> 'a) go option" where
  "relay_in_round RQ RS period onIn now key g rl a =
     (if \<not> g_closed g then relay_request RQ RS period onIn now key g rl a
      else case g_externalInputs g key of
             None \<Rightarrow> Some (Panic NilDeref)
           | Some q \<Rightarrow>
               (case ch_Recv RQ q of
                  None \<Rightarrow> Some (Panic NilDeref)
                | Some (req, _) \<Rightarrow>
                    if rq_Target req \<noteq> key then Some (Panic (PanicMsg ''send on closed channel''))
                    else relay_request RQ RS period onIn now key g rl a))"

definition relay_out_round ::
  "('rs, Response) chann \<Rightarrow> duration \<Rightarrow> (Response \<Rightarrow> 'a \<Rightarrow> 'a go) \<Rightarrow> string \<Rightarrow>
   ('rq, 'rs) gatewayImpl \<Rightarrow> relay \<Rightarrow> 'a \<Rightarrow> (('rq, 'rs) gatewayImpl \<times> relay \<times> 'a) go option" where
  "relay_out_round RS period onOut key g rl a =
     (case relay_response RS period onOut key g rl a of
        Some (Ret r) \<Rightarrow> if g_closed g then Some (Panic (PanicMsg ''send on closed channel'')) else Some (Ret r)
      | r \<Rightarrow> r)"

text \<open>The parameters of the run: the channels, the callbacks of the gateway, the \<open>Run\<close> of the
  autoscaler and what the autoscaler then does by itself, the goroutines that \<open>Start\<close> launches, timers
  and the order of the client's range, the sampling factor and the disk.\<close>

record ('rq, 'rs, 'a) run_env =
  re_RQ :: "('rq, Request) chann"
  re_RS :: "('rs, Response) chann"
  re_period :: duration
  re_onIn :: "time \<Rightarrow> Request \<Rightarrow> 'a \<Rightarrow> 'a go"
  re_onOut :: "time \<Rightarrow> Response \<Rightarrow> 'a \<Rightarrow> 'a go"
  re_run :: "'a \<Rightarrow> 'a"
  re_work :: "'a \<Rightarrow> 'a \<Rightarrow> bool"
  re_gos :: "gw_go list"
  re_after :: "time \<Rightarrow> duration \<Rightarrow> time"
  re_rng :: "worker smap \<Rightarrow> string list"
  re_factor :: int
  re_write :: "string \<Rightarrow> apierr option"

text \<open>The steps of \<open>main\<close>; the others are those of the goroutines.\<close>

inductive main_step :: "('rq, 'rs, 'a) run_env \<Rightarrow> ('rq, 'rs, 'a) tm_sys \<Rightarrow> ('rq, 'rs, 'a) tm_sys \<Rightarrow> bool" for R where
  synced: "running s \<Longrightarrow> tm_phase s = WaitSync \<Longrightarrow> main_step R s (s\<lparr>tm_phase := SleepGateway (tm_now s)\<rparr>)"
| not_synced: "running s \<Longrightarrow> tm_phase s = WaitSync \<Longrightarrow>
     main_step R s (s\<lparr>tm_crash := Some (MainFatal ''Unable to sync manager cache'')\<rparr>)"
| start_gateway: "running s \<Longrightarrow> tm_phase s = SleepGateway t \<Longrightarrow> t + 5 * Second \<le> tm_now s \<Longrightarrow>
     main_step R s (s\<lparr>tm_phase := SleepClient (tm_now s)\<rparr>)"
| start_client: "running s \<Longrightarrow> tm_phase s = SleepClient t \<Longrightarrow> t + 5 * Second \<le> tm_now s \<Longrightarrow>
     main_step R s (s\<lparr>tm_phase := Selecting\<rparr>)"
| select_signal: "running s \<Longrightarrow> tm_phase s = Selecting \<Longrightarrow> ctx_done s \<Longrightarrow>
     main_step R s (s\<lparr>tm_phase := Closing (tm_now s), tm_cancelled := True\<rparr>)"
| select_finished: "running s \<Longrightarrow> tm_phase s = Selecting \<Longrightarrow> tm_finishSend s \<noteq> None \<Longrightarrow>
     main_step R s (s\<lparr>tm_phase := Draining (tm_now s)\<rparr>)"
| drained: "running s \<Longrightarrow> tm_phase s = Draining t \<Longrightarrow> t + 15 * Second \<le> tm_now s \<Longrightarrow>
     main_step R s (s\<lparr>tm_phase := Closing (tm_now s), tm_cancelled := True\<rparr>)"
| close_gateway: "running s \<Longrightarrow> tm_phase s = Closing t \<Longrightarrow> t + 5 * Second \<le> tm_now s \<Longrightarrow>
     main_step R s (s\<lparr>tm_phase := AwaitRecv, tm_g := gw_Close (tm_g s)\<rparr>)"
| finish: "running s \<Longrightarrow> tm_phase s = AwaitRecv \<Longrightarrow> tm_finishRecv s \<Longrightarrow> main_step R s (s\<lparr>tm_phase := Finished\<rparr>)"

text \<open>Whether \<open>main\<close> has launched the gateway and the client.\<close>

fun gw_launched :: "phase \<Rightarrow> bool" where
  "gw_launched WaitSync = False" | "gw_launched (SleepGateway t) = False" | "gw_launched p = True"

fun client_launched :: "phase \<Rightarrow> bool" where
  "client_launched (SleepClient t) = False" | "client_launched p = gw_launched p"

text \<open>The clock may pass any time, also while a step is possible: a goroutine need not be scheduled at
  once. The relation thus allows at least the runs of the program. The goroutine of the autoscaler
  begins to run at any time after the relays.\<close>

inductive go_step :: "('rq, 'rs, 'a) run_env \<Rightarrow> ('rq, 'rs, 'a) tm_sys \<Rightarrow> ('rq, 'rs, 'a) tm_sys \<Rightarrow> bool" for R where
  tick: "running s \<Longrightarrow> tm_now s \<le> t \<Longrightarrow> go_step R s (s\<lparr>tm_now := t\<rparr>)"
| signal: "running s \<Longrightarrow> go_step R s (s\<lparr>tm_signal := True\<rparr>)"
| manager_fails: "running s \<Longrightarrow> go_step R s (s\<lparr>tm_crash := Some (MainFatal ''Unable to run manager'')\<rparr>)"
| gw_start: "running s \<Longrightarrow> gw_launched (tm_phase s) \<Longrightarrow> \<not> tm_gwStarted s \<Longrightarrow>
     go_step R s (s\<lparr>tm_gwStarted := True,
       tm_relays := (\<lambda>k. if GoRelay k \<in> set (re_gos R) then Some (relay0 (tm_now s) (tm_now s)) else None)\<rparr>)"
| as_start: "running s \<Longrightarrow> tm_gwStarted s \<Longrightarrow> \<not> tm_asStarted s \<Longrightarrow> GoAutoscaler \<in> set (re_gos R) \<Longrightarrow>
     go_step R s (s\<lparr>tm_asStarted := True, tm_a := re_run R (tm_a s)\<rparr>)"
| as_work: "running s \<Longrightarrow> tm_asStarted s \<Longrightarrow> re_work R (tm_a s) a' \<Longrightarrow> go_step R s (s\<lparr>tm_a := a'\<rparr>)"
| client_start: "running s \<Longrightarrow> client_launched (tm_phase s) \<Longrightarrow> \<not> tm_started s \<Longrightarrow>
     cl_Start (re_after R) (tm_now s) (re_rng R) (tm_client s) = Ret out \<Longrightarrow>
     go_step R s (s\<lparr>tm_started := True, tm_senders := concat out, tm_trace := mset (concat (concat out))\<rparr>)"
| send: "running s \<Longrightarrow> i < length (tm_senders s) \<Longrightarrow> tm_senders s ! i = r # rest \<Longrightarrow> rq_ClientSendTS r \<le> tm_now s \<Longrightarrow>
     RequestChan_send (re_RQ R) (rq_Target r) r (tm_g s) = Ret g' \<Longrightarrow>
     go_step R s (s\<lparr>tm_senders := (tm_senders s)[i := rest], tm_g := g', tm_sent := add_mset r (tm_sent s)\<rparr>)"
| send_panic: "running s \<Longrightarrow> i < length (tm_senders s) \<Longrightarrow> tm_senders s ! i = r # rest \<Longrightarrow> rq_ClientSendTS r \<le> tm_now s \<Longrightarrow>
     RequestChan_send (re_RQ R) (rq_Target r) r (tm_g s) = Panic p \<Longrightarrow> go_step R s (s\<lparr>tm_crash := Some (SenderPanic p)\<rparr>)"
| finish_send: "running s \<Longrightarrow> tm_started s \<Longrightarrow> concat (tm_senders s) = [] \<Longrightarrow> tm_finishSend s = None \<Longrightarrow>
     go_step R s (s\<lparr>tm_finishSend := Some (tm_now s)\<rparr>)"
| relay_in: "running s \<Longrightarrow> tm_relays s key = Some rl \<Longrightarrow>
     relay_in_round (re_RQ R) (re_RS R) (re_period R) (re_onIn R (tm_now s)) (tm_now s) key (tm_g s) rl (tm_a s) = Some (Ret (g', rl', a')) \<Longrightarrow>
     go_step R s (s\<lparr>tm_g := g', tm_relays := (tm_relays s)(key \<mapsto> rl'), tm_a := a'\<rparr>)"
| relay_in_panic: "running s \<Longrightarrow> tm_relays s key = Some rl \<Longrightarrow>
     relay_in_round (re_RQ R) (re_RS R) (re_period R) (re_onIn R (tm_now s)) (tm_now s) key (tm_g s) rl (tm_a s) = Some (Panic p) \<Longrightarrow>
     go_step R s (s\<lparr>tm_crash := Some (RelayPanic p)\<rparr>)"
| relay_out: "running s \<Longrightarrow> tm_relays s key = Some rl \<Longrightarrow>
     relay_out_round (re_RS R) (re_period R) (re_onOut R (tm_now s)) key (tm_g s) rl (tm_a s) = Some (Ret (g', rl', a')) \<Longrightarrow>
     go_step R s (s\<lparr>tm_g := g', tm_relays := (tm_relays s)(key \<mapsto> rl'), tm_a := a'\<rparr>)"
| relay_out_panic: "running s \<Longrightarrow> tm_relays s key = Some rl \<Longrightarrow>
     relay_out_round (re_RS R) (re_period R) (re_onOut R (tm_now s)) key (tm_g s) rl (tm_a s) = Some (Panic p) \<Longrightarrow>
     go_step R s (s\<lparr>tm_crash := Some (RelayPanic p)\<rparr>)"
| relay_stop: "running s \<Longrightarrow> tm_relays s key \<noteq> None \<Longrightarrow> ctx_done s \<Longrightarrow>
     go_step R s (s\<lparr>tm_relays := (tm_relays s)(key := None)\<rparr>)"
| take_req: "running s \<Longrightarrow> tm_gwStarted s \<Longrightarrow> g_internalInputBuffers (tm_g s) key = Some q \<Longrightarrow> ch_Recv (re_RQ R) q = Some (req, q') \<Longrightarrow>
     go_step R s (s\<lparr>tm_g := (tm_g s)\<lparr>g_internalInputBuffers := (g_internalInputBuffers (tm_g s))(key \<mapsto> q')\<rparr>,
       tm_pending := add_mset (key, req) (tm_pending s)\<rparr>)"
| answer: "running s \<Longrightarrow> tm_pending s = add_mset (key, req) P \<Longrightarrow> same_invocation (rs_Source res) req \<Longrightarrow>
     g_internalOutputBuffers (tm_g s) key = Some q \<Longrightarrow>
     go_step R s (s\<lparr>tm_g := (tm_g s)\<lparr>g_internalOutputBuffers := (g_internalOutputBuffers (tm_g s))(key \<mapsto> ch_Send (re_RS R) q res)\<rparr>,
       tm_pending := P\<rparr>)"
| client_recv: "running s \<Longrightarrow> tm_started s \<Longrightarrow> ResponseChan_recv (re_RS R) (tm_g s) = Some (res, g') \<Longrightarrow>
     go_step R s (s\<lparr>tm_g := g', tm_received := tm_received s @ [(res, tm_now s)]\<rparr>)"
| write_end: "running s \<Longrightarrow> tm_started s \<Longrightarrow> g_closed (tm_g s) \<Longrightarrow> ResponseChan_recv (re_RS R) (tm_g s) = None \<Longrightarrow> \<not> tm_finishRecv s \<Longrightarrow>
     cl_write (re_factor R) (re_write R) (map Some (cl_recv (tm_received s))) (tm_client s) = Ret c' \<Longrightarrow>
     go_step R s (s\<lparr>tm_client := c', tm_finishRecv := True\<rparr>)"
| write_panic: "running s \<Longrightarrow> tm_started s \<Longrightarrow> take n (cl_recv (tm_received s)) = rs \<Longrightarrow> \<not> tm_finishRecv s \<Longrightarrow>
     write_loop (re_factor R) (re_write R) (map Some rs) 0 0 [] = Panic p \<Longrightarrow>
     go_step R s (s\<lparr>tm_crash := Some (WriterPanic p)\<rparr>)"
| summary_panic: "running s \<Longrightarrow> tm_started s \<Longrightarrow> g_closed (tm_g s) \<Longrightarrow> ResponseChan_recv (re_RS R) (tm_g s) = None \<Longrightarrow> \<not> tm_finishRecv s \<Longrightarrow>
     cl_write (re_factor R) (re_write R) (map Some (cl_recv (tm_received s))) (tm_client s) = Panic p \<Longrightarrow>
     go_step R s (s\<lparr>tm_crash := Some (WriterPanic p)\<rparr>)"

definition tm_step :: "('rq, 'rs, 'a) run_env \<Rightarrow> ('rq, 'rs, 'a) tm_sys \<Rightarrow> ('rq, 'rs, 'a) tm_sys \<Rightarrow> bool" where
  "tm_step R s t \<longleftrightarrow> main_step R s t \<or> go_step R s t"

text \<open>The run begins after a set-up that succeeded.\<close>

definition tm_init ::
  "('rq, 'rs, 'a) run_env \<Rightarrow> ('c, 'sc, 'mp, 'cl) main_env \<Rightarrow> ('m, nat) shared_map \<Rightarrow> ('q, string) chann \<Rightarrow> ('p, 'c) chann \<Rightarrow>
   'b buckets \<Rightarrow> 'w window \<Rightarrow> string \<Rightarrow> trace_flags \<Rightarrow> ('rq, 'rs, 'a) tm_sys \<Rightarrow> bool" where
  "tm_init R E S T C B W baseDir flags s \<longleftrightarrow>
     (\<exists>now g a c. main_setup E (re_RQ R) (re_RS R) S T C B W baseDir flags = Ret (g, c) \<and> s = tm0 now (obj_impl g) a c)"

inductive_cases main_stepE: "main_step R s t"
inductive_cases go_stepE: "go_step R s t"

section \<open>What the set-up guarantees\<close>

text \<open>Every worker of the client is under the key of its target, and the gateway has a channel for it.\<close>

definition routes_ok :: "('rq, 'rs) gatewayImpl \<Rightarrow> replay_client \<Rightarrow> bool" where
  "routes_ok g c \<longleftrightarrow> (\<forall>k w. cl_workers c k = Some w \<longrightarrow> wk_target w = k \<and> g_externalInputs g k \<noteq> None)"

lemma newWorker_target: "newWorker k tr = Ret w \<Longrightarrow> wk_target w = k"
  by (auto simp: newWorker_def Let_def split: if_splits)

lemma add_workers_routes: "add_workers g i ts c = Ret c' \<Longrightarrow> routes_ok g c \<Longrightarrow> routes_ok g c'"
proof (induction ts arbitrary: i c)
  case (Cons t ts)
  then obtain q w where w: "g_externalInputs g (KeyFromObject t) = Some q" "wk_target w = KeyFromObject t"
    and r: "add_workers g (Suc i) ts (c\<lparr>cl_workers := (cl_workers c)(KeyFromObject t \<mapsto> w)\<rparr>) = Ret c'"
    by (auto simp: Let_def dest: newWorker_target split: option.split_asm)
  show ?case by (rule Cons.IH [OF r]) (use Cons.prems(2) w in \<open>auto simp: routes_ok_def\<close>)
qed simp

lemma cl_SetupWithManager_routes:
  "cl_SetupWithManager g listed c = Ret (None, c') \<Longrightarrow> routes_ok g c \<Longrightarrow> routes_ok g c'"
  by (auto simp: cl_SetupWithManager_def dest: add_workers_routes split: sum.split_asm if_split_asm)

lemma main_client_routes:
  assumes "main_client E mgr g f = Ret c"
  shows "routes_ok g c"
proof -
  from assms obtain ts listed where "cl_SetupWithManager g listed \<lparr> cl_traces = ts, cl_workers = Map.empty, cl_output = [] \<rparr> = Ret (None, c)"
    by (auto simp: main_client_def NewClient_def simp del: go_bind_Ret_iff elim!: go_bind_RetE split: sum.split_asm option.split_asm)
  then show ?thesis by (rule cl_SetupWithManager_routes) (simp add: routes_ok_def)
qed

lemma ng_add_open: "ng_add RQ RS C cfg dial ss g = Ret (e, g') \<Longrightarrow> g_closed (ng_impl g') = g_closed (ng_impl g)"
proof (induction ss arbitrary: g)
  case (Cons x ss)
  from Cons.prems show ?case
    by (cases x) (auto simp: Let_def register_def simp del: go_bind_Ret_iff elim!: go_bind_RetE dest!: Cons.IH split: sum.split_asm)
qed simp

lemma SetUpWithManager_open:
  "SetUpWithManager RQ RS S T B W l b g = Ret (e, g') \<Longrightarrow> g_closed (kg_impl g') = g_closed (kg_impl g)"
proof -
  have "g_closed (kg_impl (foldl (\<lambda>g t. add_target RQ RS S T t g) g ts)) = g_closed (kg_impl g)" for ts
    by (induction ts arbitrary: g) (simp_all add: add_target_def register_def Let_def)
  then show "SetUpWithManager RQ RS S T B W l b g = Ret (e, g') \<Longrightarrow> ?thesis"
    by (auto simp: SetUpWithManager_def Let_def split: sum.split_asm)
qed

lemma main_gateway_open: "main_gateway E RQ RS S T C B W mgr f = Ret g \<Longrightarrow> \<not> g_closed (obj_impl g)"
  by (auto simp: main_gateway_def main_k8s_gateway_def ng_SetUpWithManager_def NewKnativeGateway_def NewK8sGateway_def
      newGatewayImpl_def simp del: go_bind_Ret_iff elim!: go_bind_RetE dest!: ng_add_open SetUpWithManager_open split: if_split_asm sum.split_asm option.split_asm)

lemma main_setup_ok:
  "main_setup E RQ RS S T C B W baseDir flags = Ret (g, c) \<Longrightarrow> routes_ok (obj_impl g) c \<and> \<not> g_closed (obj_impl g)"
  by (auto simp: main_setup_def main_client_routes main_gateway_open split: option.split_asm if_split_asm)

section \<open>Invariants of the run\<close>

lemma send_from_target: "r \<in> set (send_from after w i k cur xs) \<Longrightarrow> rq_Target r = wk_target w"
  by (induction xs arbitrary: k cur) (auto simp: Let_def)

lemma collect_sends_set: "collect_sends f is = Ret rss \<Longrightarrow> rs \<in> set rss \<Longrightarrow> \<exists>i. f i = Ret rs"
  by (induction "is" arbitrary: rss) auto

lemma w_replay_target: "w_replay after start w = Ret rss \<Longrightarrow> r \<in> set (concat rss) \<Longrightarrow> rq_Target r = wk_target w"
proof -
  assume "w_replay after start w = Ret rss" "r \<in> set (concat rss)"
  then obtain rs i where "r \<in> set rs" "w_send after (w\<lparr>wk_clientStartTime := start\<rparr>) i start = Ret rs"
    using collect_sends_set by (fastforce simp: w_replay_def Let_def)
  then show ?thesis using send_from_target by (fastforce simp: w_send_def)
qed

lemma go_traverse_set: "go_traverse f xs = Ret ys \<Longrightarrow> y \<in> set ys \<Longrightarrow> \<exists>x. f x = Ret y"
  by (induction xs arbitrary: ys) auto

lemma cl_Start_routes:
  assumes "cl_Start after start rng c = Ret out" and "routes_ok g c" and "r \<in> set (concat (concat out))"
  shows "g_externalInputs g (rq_Target r) \<noteq> None"
proof -
  from assms(3) obtain rss where rss: "rss \<in> set out" "r \<in> set (concat rss)" by auto
  from go_traverse_set [OF assms(1) [unfolded cl_Start_def] rss(1)] obtain k w where
    "cl_workers c k = Some w" "w_replay after start w = Ret rss" by (auto split: option.split_asm)
  with w_replay_target [OF _ rss(2)] assms(2) show ?thesis by (auto simp: routes_ok_def)
qed

text \<open>What a goroutine never does: it does not touch the phase, the cancellation or whether the
  gateway is closed, and no channel of the gateway disappears.\<close>

lemma relay_request_frame:
  assumes "relay_request RQ RS period onIn now key g rl a = Some (Ret (g', rl', a'))"
  shows "g_closed g' = g_closed g" and "g_externalInputs g k \<noteq> None \<Longrightarrow> g_externalInputs g' k \<noteq> None"
  using assms by (auto simp: relay_request_def Let_def split: option.split_asm if_split_asm)

lemma relay_response_frame:
  assumes "relay_response RS period onOut key g rl a = Some (Ret (g', rl', a'))"
  shows "g_closed g' = g_closed g" and "g_externalInputs g' = g_externalInputs g"
  using assms by (auto simp: relay_response_def Let_def split: option.split_asm)

lemma relay_round_frame:
  "relay_in_round RQ RS period onIn now key g rl a = Some (Ret (g', rl', a')) \<Longrightarrow>
     g_closed g' = g_closed g \<and> (g_externalInputs g k \<noteq> None \<longrightarrow> g_externalInputs g' k \<noteq> None)"
  "relay_out_round RS period onOut key g rl a = Some (Ret (g', rl', a')) \<Longrightarrow>
     g_closed g' = g_closed g \<and> g_externalInputs g' = g_externalInputs g"
  using relay_request_frame(2) [of RQ RS period onIn now key g rl a g' rl' a' k]
  by (auto simp: relay_in_round_def relay_out_round_def dest: relay_request_frame(1) relay_response_frame
      split: if_split_asm option.split_asm go.split_asm)

lemma go_step_frame:
  assumes "go_step R s t"
  shows "tm_phase t = tm_phase s \<and> tm_cancelled t = tm_cancelled s \<and> tm_now s \<le> tm_now t \<and> (tm_signal s \<longrightarrow> tm_signal t) \<and>
     g_closed (tm_g t) = g_closed (tm_g s) \<and> (g_externalInputs (tm_g s) k \<noteq> None \<longrightarrow> g_externalInputs (tm_g t) k \<noteq> None)"
  using assms
  by (cases rule: go_step.cases)
    (auto simp: RequestChan_send_def ResponseChan_recv_def dest!: relay_round_frame(1) [where k = k] relay_round_frame(2) split: option.split_asm if_split_asm)

text \<open>Every sender has a channel to send on; what is sent and what is left is the trace; the end of
  sending is signalled when nothing is left.\<close>

definition send_inv :: "('rq, 'rs, 'a) tm_sys \<Rightarrow> bool" where
  "send_inv s \<longleftrightarrow>
     (\<not> tm_started s \<longrightarrow> routes_ok (tm_g s) (tm_client s) \<and> tm_sent s = {#} \<and> tm_senders s = [] \<and> tm_trace s = {#} \<and> tm_finishSend s = None) \<and>
     (\<forall>r \<in> set (concat (tm_senders s)). g_externalInputs (tm_g s) (rq_Target r) \<noteq> None) \<and>
     tm_trace s = tm_sent s + mset (concat (tm_senders s)) \<and>
     (\<forall>f. tm_finishSend s = Some f \<longrightarrow> f \<le> tm_now s \<and> concat (tm_senders s) = [])"

lemma concat_update_Cons:
  assumes "i < length xs" and "xs ! i = x # rest"
  shows "mset (concat xs) = add_mset x (mset (concat (xs[i := rest])))"
    and "set (concat xs) = insert x (set (concat (xs[i := rest])))"
proof -
  have e: "xs = take i xs @ (x # rest) # drop (Suc i) xs" using assms id_take_nth_drop [of i xs] by simp
  have u: "xs[i := rest] = take i xs @ rest # drop (Suc i) xs" using assms(1) by (rule upd_conv_take_nth_drop)
  show m: "mset (concat xs) = add_mset x (mset (concat (xs[i := rest])))" unfolding u by (subst e) simp
  from arg_cong [OF m, of set_mset] show "set (concat xs) = insert x (set (concat (xs[i := rest])))" by (simp only: set_mset_add_mset_insert set_mset_mset)
qed

lemma routes_ok_mono:
  "routes_ok g c \<Longrightarrow> (\<And>k. g_externalInputs g k \<noteq> None \<Longrightarrow> g_externalInputs g' k \<noteq> None) \<Longrightarrow> routes_ok g' c"
  unfolding routes_ok_def by blast

lemma send_inv_finished: "send_inv s \<Longrightarrow> tm_finishSend s = Some f \<Longrightarrow> concat (tm_senders s) = [] \<and> f \<le> tm_now s"
  unfolding send_inv_def by blast

lemma send_inv_same:
  assumes "send_inv s" and "tm_started t = tm_started s" and "tm_senders t = tm_senders s" and "tm_sent t = tm_sent s"
    and "tm_trace t = tm_trace s" and "tm_finishSend t = tm_finishSend s" and "tm_started s \<or> tm_client t = tm_client s"
    and "tm_now s \<le> tm_now t" and "\<And>k. g_externalInputs (tm_g s) k \<noteq> None \<Longrightarrow> g_externalInputs (tm_g t) k \<noteq> None"
  shows "send_inv t"
  using assms(1) unfolding send_inv_def assms(2-6) using assms(7,8,9) by (fastforce intro: routes_ok_mono order_trans)

lemma send_inv_go:
  assumes "go_step R s t" and "send_inv s"
  shows "send_inv t"
proof -
  have fr: "tm_now s \<le> tm_now t" "\<And>k. g_externalInputs (tm_g s) k \<noteq> None \<Longrightarrow> g_externalInputs (tm_g t) k \<noteq> None"
    using go_step_frame [OF assms(1)] by blast+
  from assms(1) show ?thesis
  proof (cases rule: go_step.cases)
    case (client_start out)
    have "routes_ok (tm_g s) (tm_client s)" using assms(2) client_start(4) by (simp add: send_inv_def)
    then have "\<forall>r \<in> set (concat (concat out)). g_externalInputs (tm_g s) (rq_Target r) \<noteq> None"
      using cl_Start_routes [OF client_start(5)] by blast
    then show ?thesis using assms(2) client_start by (simp add: send_inv_def)
  next
    case (send i r rest g')
    note c = concat_update_Cons [OF send(3,4)]
    have "concat (tm_senders s) \<noteq> []" using c(2) by force
    then have "tm_finishSend s = None" using send_inv_finished [OF assms(2)] by (cases "tm_finishSend s") blast+
    moreover have "tm_started s" using assms(2) send(3) by (auto simp: send_inv_def)
    moreover have "\<forall>r \<in> set (concat (tm_senders t)). g_externalInputs (tm_g t) (rq_Target r) \<noteq> None"
    proof
      fix x
      assume "x \<in> set (concat (tm_senders t))"
      then have "x \<in> set (concat (tm_senders s))" using send(1) c(2) by simp
      then have "g_externalInputs (tm_g s) (rq_Target x) \<noteq> None" using assms(2) unfolding send_inv_def by blast
      then show "g_externalInputs (tm_g t) (rq_Target x) \<noteq> None" by (rule fr(2))
    qed
    ultimately show ?thesis using assms(2) send(1) c(1) by (simp add: send_inv_def)
  next
    case finish_send
    then show ?thesis using assms(2) by (auto simp: send_inv_def)
  qed (use fr in \<open>auto intro!: send_inv_same [OF assms(2)]\<close>)
qed

lemma send_inv_main:
  assumes "main_step R s t" and "send_inv s"
  shows "send_inv t"
  using assms(1) by (cases rule: main_step.cases) (auto intro!: send_inv_same [OF assms(2)] simp: gw_Close_def)

text \<open>How long the senders have been done, by the phase of the shutdown.\<close>

fun shut_inv :: "phase \<Rightarrow> time option \<Rightarrow> time \<Rightarrow> bool" where
  "shut_inv (Draining t) fs now \<longleftrightarrow> (\<exists>f. fs = Some f \<and> f \<le> t \<and> t \<le> now)"
| "shut_inv (Closing t) fs now \<longleftrightarrow> (\<exists>f. fs = Some f \<and> f + 15 * Second \<le> t \<and> t \<le> now)"
| "shut_inv AwaitRecv fs now \<longleftrightarrow> (\<exists>f. fs = Some f \<and> f + 20 * Second \<le> now)"
| "shut_inv Finished fs now \<longleftrightarrow> (\<exists>f. fs = Some f \<and> f + 20 * Second \<le> now)"
| "shut_inv p fs now \<longleftrightarrow> True"

fun quitting :: "phase \<Rightarrow> bool" where
  "quitting (Closing t) = True" | "quitting AwaitRecv = True" | "quitting Finished = True" | "quitting p = False"

definition phase_inv :: "('rq, 'rs, 'a) tm_sys \<Rightarrow> bool" where
  "phase_inv s \<longleftrightarrow>
     (g_closed (tm_g s) \<longleftrightarrow> tm_phase s = AwaitRecv \<or> tm_phase s = Finished) \<and>
     (\<not> tm_signal s \<longrightarrow> (tm_cancelled s \<longrightarrow> quitting (tm_phase s)) \<and> shut_inv (tm_phase s) (tm_finishSend s) (tm_now s) \<and>
        (\<forall>p. tm_crash s \<noteq> Some (SenderPanic p)))"

lemma shut_inv_mono: "shut_inv p fs now \<Longrightarrow> now \<le> now' \<Longrightarrow> (\<And>f. fs = Some f \<Longrightarrow> fs' = Some f) \<Longrightarrow> shut_inv p fs' now'"
  by (cases p) (auto intro: order_trans)

lemma phase_inv_main:
  assumes "main_step R s t" and "send_inv s" and "phase_inv s"
  shows "phase_inv t"
  using assms(1)
proof (cases rule: main_step.cases)
  case select_finished
  then obtain f where "tm_finishSend s = Some f" "f \<le> tm_now s" using assms(2) by (auto simp: send_inv_def)
  with select_finished assms(3) show ?thesis by (auto simp: phase_inv_def)
qed (use assms(3) in \<open>auto simp: phase_inv_def gw_Close_def\<close>)

lemma go_step_finishSend: "go_step R s t \<Longrightarrow> tm_finishSend s = Some f \<Longrightarrow> tm_finishSend t = Some f"
  by (erule go_stepE) auto

lemma no_sender_panic:
  assumes "go_step R s t" and "send_inv s" and "phase_inv s" and "\<not> tm_signal t"
  shows "tm_crash t \<noteq> Some (SenderPanic p)"
proof -
  have ns: "\<not> tm_signal s" using go_step_frame [OF assms(1)] assms(4) by blast
  from assms(1) show ?thesis
  proof (cases rule: go_step.cases)
    case (send_panic i r rest q)
    have r: "r \<in> set (concat (tm_senders s))" using concat_update_Cons(2) [OF send_panic(3,4)] by simp
    have "\<not> g_closed (tm_g s)"
    proof
      assume "g_closed (tm_g s)"
      then have "\<exists>f. tm_finishSend s = Some f" using assms(3) ns by (auto simp: phase_inv_def)
      then have "concat (tm_senders s) = []" using send_inv_finished [OF assms(2)] by blast
      with r show False by simp
    qed
    moreover have "g_externalInputs (tm_g s) (rq_Target r) \<noteq> None" using assms(2) r unfolding send_inv_def by blast
    ultimately show ?thesis using send_panic(6) by (auto simp: RequestChan_send_def)
  qed (use assms(3) ns in \<open>auto simp: phase_inv_def\<close>)
qed

lemma phase_inv_go:
  assumes "go_step R s t" and "send_inv s" and "phase_inv s"
  shows "phase_inv t"
proof -
  note fr = go_step_frame [OF assms(1)]
  have "shut_inv (tm_phase t) (tm_finishSend t) (tm_now t)" if "\<not> tm_signal t"
    using shut_inv_mono [of "tm_phase s" "tm_finishSend s" "tm_now s"] go_step_finishSend [OF assms(1)] fr that assms(3)
    unfolding phase_inv_def by metis
  with fr no_sender_panic [OF assms] assms(3) show ?thesis unfolding phase_inv_def by metis
qed

lemma tm_init_inv: "tm_init R E S T C B W baseDir flags s \<Longrightarrow> send_inv s \<and> phase_inv s"
  by (auto simp: tm_init_def tm0_def send_inv_def phase_inv_def dest!: main_setup_ok)

interpretation tm_system: inductive_invariant "tm_init R E S T C B W baseDir flags" "tm_step R" "\<lambda>s. send_inv s \<and> phase_inv s"
  for R E S T C B W baseDir flags
  by unfold_locales
    (auto simp: tm_step_def intro: send_inv_main send_inv_go phase_inv_main phase_inv_go dest: tm_init_inv)

section \<open>Draining after the close\<close>

lemma main_reach: "reachable init (tm_step R) s \<Longrightarrow> main_step R s t \<Longrightarrow> reachable init (tm_step R) t"
  by (erule reach_step) (simp add: tm_step_def)

lemma go_reach: "reachable init (tm_step R) s \<Longrightarrow> go_step R s t \<Longrightarrow> reachable init (tm_step R) t"
  by (erule reach_step) (simp add: tm_step_def)

text \<open>The receiver can take everything that is left in the external output.\<close>

lemma drain:
  assumes "chann_laws (re_RS R)" and "running s" and "tm_started s"
  shows "\<exists>q. (tm_step R)\<^sup>*\<^sup>* s (s\<lparr>tm_g := (tm_g s)\<lparr>g_externalOutput := q\<rparr>,
       tm_received := tm_received s @ map (\<lambda>r. (r, tm_now s)) (remaining (re_RS R) (tm_g s))\<rparr>) \<and> ch_Items (re_RS R) q = []"
  using assms(2,3)
proof (induction "remaining (re_RS R) (tm_g s)" arbitrary: s)
  case Nil
  then show ?case by (intro exI [of _ "g_externalOutput (tm_g s)"]) (simp add: remaining_def [symmetric] flip: Nil.hyps)
next
  case (Cons r rs)
  let ?RS = "re_RS R"
  obtain q where q: "ch_Recv ?RS (g_externalOutput (tm_g s)) = Some (r, q)" "ch_Items ?RS q = rs"
    using Cons.hyps(2) chann_Recv_None [OF assms(1), of "g_externalOutput (tm_g s)"] chann_Recv_Some [OF assms(1), of "g_externalOutput (tm_g s)"]
    by (cases "ch_Recv ?RS (g_externalOutput (tm_g s))") (auto simp: remaining_def)
  define t where "t = s\<lparr>tm_g := (tm_g s)\<lparr>g_externalOutput := q\<rparr>, tm_received := tm_received s @ [(r, tm_now s)]\<rparr>"
  have "go_step R s t"
    unfolding t_def using Cons.prems q(1) by (intro go_step.client_recv) (simp_all add: ResponseChan_recv_def)
  then have step: "tm_step R s t" by (simp add: tm_step_def)
  have rs: "rs = remaining ?RS (tm_g t)" using q(2) by (simp add: t_def remaining_def)
  have "running t" "tm_started t" using Cons.prems by (simp_all add: t_def)
  from Cons.hyps(1) [OF rs this] obtain q' where q': "ch_Items ?RS q' = []"
    "(tm_step R)\<^sup>*\<^sup>* t (t\<lparr>tm_g := (tm_g t)\<lparr>g_externalOutput := q'\<rparr>,
       tm_received := tm_received t @ map (\<lambda>r. (r, tm_now t)) (remaining ?RS (tm_g t))\<rparr>)" by blast
  have "(tm_step R)\<^sup>*\<^sup>* s (t\<lparr>tm_g := (tm_g t)\<lparr>g_externalOutput := q'\<rparr>,
       tm_received := tm_received t @ map (\<lambda>r. (r, tm_now t)) (remaining ?RS (tm_g t))\<rparr>)"
    using step q'(2) by (rule converse_rtranclp_into_rtranclp)
  moreover have "remaining ?RS (tm_g s) = r # remaining ?RS (tm_g t)" using rs Cons.hyps(2) by simp
  ultimately show ?case using q'(1) by (intro exI [of _ q']) (simp add: t_def)
qed

section \<open>Properties\<close>

text \<open>C8: an undisturbed run shuts down in order. As long as no signal arrives, whatever the
  interleaving of the goroutines, no sender ever panics: every worker has a channel of the
  gateway to send on, and the gateway is closed only after every request of every trace has
  been handed to it, at least 20 seconds after the client reported the end of sending.\<close>

theorem orderly_shutdown:
  assumes "reachable (tm_init R E S T C B W baseDir flags) (tm_step R) s" and "\<not> tm_signal s"
  shows "(\<forall>p. tm_crash s \<noteq> Some (SenderPanic p)) \<and>
     (g_closed (tm_g s) \<longrightarrow> tm_sent s = tm_trace s \<and> (\<exists>f. tm_finishSend s = Some f \<and> f + 20 * Second \<le> tm_now s))"
proof -
  have inv: "send_inv s" "phase_inv s" using tm_system.inv_reachable [OF assms(1)] by simp_all
  show ?thesis
  proof (intro conjI impI)
    show "\<forall>p. tm_crash s \<noteq> Some (SenderPanic p)" using inv(2) assms(2) by (simp add: phase_inv_def)
    assume "g_closed (tm_g s)"
    then show f: "\<exists>f. tm_finishSend s = Some f \<and> f + 20 * Second \<le> tm_now s" using inv(2) assms(2) by (auto simp: phase_inv_def)
    then have "concat (tm_senders s) = []" using send_inv_finished [OF inv(1)] by blast
    moreover have "tm_trace s = tm_sent s + mset (concat (tm_senders s))" using inv(1) unfolding send_inv_def by blast
    ultimately show "tm_sent s = tm_trace s" by simp
  qed
qed

text \<open>C36: the program can always end after the gateway is closed. In every reachable state in which
  \<open>main\<close> waits for the receiver, nothing has crashed and the client is running, there is a way to
  go on (the receiver drains the closed channel, the writer writes the summary, \<open>main\<close> returns),
  if the sampling factor is not zero and the disk takes every write; the last line then counts
  the responses received so far and all those that were still in the gateway's output.\<close>

theorem main_can_finish:
  assumes "reachable (tm_init R E S T C B W baseDir flags) (tm_step R) s"
    and "tm_phase s = AwaitRecv" and "tm_crash s = None" and "tm_started s" and "\<not> tm_finishRecv s"
    and "chann_laws (re_RS R)" and "re_factor R \<noteq> 0" and "\<And>l. re_write R l = None"
  shows "\<exists>t. (tm_step R)\<^sup>*\<^sup>* s t \<and> tm_phase t = Finished \<and>
     last (cl_output (tm_client t)) =
       summary_line (int (length (tm_received s) + length (remaining (re_RS R) (tm_g s))))
         (int (length (filter (\<lambda>r. rs_Status r \<noteq> SUCCESS) (map fst (tm_received s) @ remaining (re_RS R) (tm_g s)))))"
proof -
  let ?RS = "re_RS R" and ?rem = "remaining (re_RS R) (tm_g s)"
  have closed: "g_closed (tm_g s)" using tm_system.inv_reachable [OF assms(1)] assms(2) by (simp add: phase_inv_def)
  from drain [OF assms(6), of s] assms(2-4) obtain q where q: "ch_Items ?RS q = []" and
    d: "(tm_step R)\<^sup>*\<^sup>* s (s\<lparr>tm_g := (tm_g s)\<lparr>g_externalOutput := q\<rparr>, tm_received := tm_received s @ map (\<lambda>r. (r, tm_now s)) ?rem\<rparr>)"
    by auto
  let ?d = "s\<lparr>tm_g := (tm_g s)\<lparr>g_externalOutput := q\<rparr>, tm_received := tm_received s @ map (\<lambda>r. (r, tm_now s)) ?rem\<rparr>"
  let ?rs = "tm_received s @ map (\<lambda>r. (r, tm_now s)) ?rem"
  obtain c where c: "cl_write (re_factor R) (re_write R) (map Some (cl_recv ?rs)) (tm_client s) = Ret c"
    "last (cl_output c) = summary_line (int (length ?rs)) (int (length (filter (\<lambda>(r, t). rs_Status r \<noteq> SUCCESS) ?rs)))"
    using write_accounts [OF assms(7), of "re_write R" ?rs "tm_client s"] assms(8) by simp
  have "go_step R ?d (?d\<lparr>tm_client := c, tm_finishRecv := True\<rparr>)"
    using assms(2-5) closed c(1) iffD2 [OF chann_Recv_None [OF assms(6)] q]
    by (intro go_step.write_end) (simp_all add: ResponseChan_recv_def)
  moreover have "main_step R (?d\<lparr>tm_client := c, tm_finishRecv := True\<rparr>) (?d\<lparr>tm_client := c, tm_finishRecv := True, tm_phase := Finished\<rparr>)"
    using main_step.finish [of "?d\<lparr>tm_client := c, tm_finishRecv := True\<rparr>" R] assms(2,3) by simp
  ultimately have "(tm_step R)\<^sup>*\<^sup>* s (?d\<lparr>tm_client := c, tm_finishRecv := True, tm_phase := Finished\<rparr>)"
    using d by (meson rtranclp.rtrancl_into_rtrancl tm_step_def)
  moreover have "length (filter (\<lambda>(r, t). rs_Status r \<noteq> SUCCESS) ?rs) =
      length (filter (\<lambda>r. rs_Status r \<noteq> SUCCESS) (map fst (tm_received s) @ ?rem))"
    by (simp add: filter_map comp_def case_prod_unfold)
  ultimately show ?thesis using c(2) by (intro exI [of _ "?d\<lparr>tm_client := c, tm_finishRecv := True, tm_phase := Finished\<rparr>"]) simp
qed

section \<open>A run with one request\<close>

text \<open>One Knative service and a trace with one invocation after a minute.\<close>

definition late_trace :: TraceSpec where
  "late_trace = \<lparr> DurationMinutes = 2, Invocations = [\<lparr> ArrivalTimeSec = Fin 60, RuntimeMilliSec = 10 \<rparr>] \<rparr>"

definition kn_flags :: trace_flags where
  "kn_flags = default_flags\<lparr>fl_gateway := ''knative'', fl_backend := ''grpc''\<rparr>"

definition sample_main :: "(nat, unit, unit, unit) main_env" where
  "sample_main =
     \<lparr> me_Chdir = (\<lambda>_. None), me_StatData = Inr True, me_GetConfig = Ret \<lparr> rc_Host = [], rc_QPS = 0, rc_Burst = 0 \<rparr>,
       me_NewManager = (\<lambda>c _. Inr \<lparr> mg_Config = c, mg_Scheme = (), mg_RESTMapper = () \<rparr>), me_NewClient = (\<lambda>_ _ _. Inr ()),
       me_ReadFile = (\<lambda>_. Inl (OtherErr [])), me_Unmarshal = (\<lambda>_. Inl (OtherErr [])), me_List = (\<lambda>_. Inr [sample_meta]),
       me_Complete = None, me_Services = Inr [(sample_meta, ''http://f'')], me_Dial = (\<lambda>_. Inr 7),
       me_LoadTrace = (\<lambda>_. Ret [late_trace]), me_Create = (\<lambda>_. None) \<rparr>"

abbreviation late_key :: string where "late_key \<equiv> KeyFromObject sample_meta"

definition sample_run :: "(Request list, Response list, unit) run_env" where
  "sample_run =
     \<lparr> re_RQ = fifo, re_RS = fifo, re_period = tracingOutputPeriod0, re_onIn = (\<lambda>_. ng_onReqIn), re_onOut = (\<lambda>_. ng_onReqOut),
       re_run = id, re_work = (\<lambda>_ _. False), re_gos = [GoRelay late_key, GoDispatcher late_key], re_after = (\<lambda>cur d. cur + max 0 d),
       re_rng = sorted_range, re_factor = 1, re_write = (\<lambda>_. None) \<rparr>"

definition late_worker :: worker where
  "late_worker = \<lparr> wk_target = late_key, wk_trace = late_trace, wk_clientStartTime = 0, wk_nSenders = 1,
     wk_senderInvocations = [Invocations late_trace] \<rparr>"

definition late_client :: replay_client where
  "late_client = \<lparr> cl_traces = [late_trace], cl_workers = [late_key \<mapsto> late_worker], cl_output = [] \<rparr>"

abbreviation sample_impl :: "(Request list, Response list) gatewayImpl" where
  "sample_impl \<equiv> register fifo fifo late_key (newGatewayImpl fifo)"

lemma late_newWorker: "newWorker late_key late_trace = Ret late_worker"
proof -
  have "nSenders_of 1 = 1" using nSenders_bounds [of 1] by simp
  then show ?thesis by (simp add: newWorker_def late_trace_def late_worker_def go_index_def)
qed

abbreviation sample_manager :: "(unit, unit) manager" where
  "sample_manager \<equiv> \<lparr> mg_Config = \<lparr> rc_Host = [], rc_QPS = defaultQPS, rc_Burst = defaultBurst \<rparr>, mg_Scheme = (), mg_RESTMapper = () \<rparr>"

lemma sample_gw:
  fixes B :: "'b buckets" and W :: "'w window"
  shows "\<exists>g. main_gateway sample_main fifo fifo go_map fifo fifo B W sample_manager kn_flags = Ret (KnObj g) \<and> ng_impl g = sample_impl"
proof -
  have "\<exists>b. newGrpcBackend fifo (Inr (7 :: nat)) ep = Inr b" for ep by (simp add: newGrpcBackend_def newClient_def Let_def)
  then obtain b where "newGrpcBackend fifo (Inr (7 :: nat)) (TrimPrefix ''http://f'' ''http://'' @ kourierGatewayServicePort) = Inr b" by blast
  then show ?thesis
    by (simp add: main_gateway_def sample_main_def kn_flags_def ng_SetUpWithManager_def NewKnServiceDispatcher_def NewBackend_def
        Use_def NewKnativeGateway_def Let_def)
qed

lemma sample_cl: "main_client sample_main sample_manager sample_impl kn_flags = Ret late_client"
  by (simp add: main_client_def sample_main_def kn_flags_def default_flags_def NewClient_def NewUncachedClientOrDie_def
      cl_SetupWithManager_def register_def late_newWorker late_client_def go_index_def Let_def)

lemma sample_flags: "validateFlags kn_flags = Ret (kn_flags\<lparr>fl_autoscaler := [], fl_autoscalerConfig := []\<rparr>)"
  by (simp add: validateFlags_def kn_flags_def default_flags_def)

lemma sample_setup:
  fixes B :: "'b buckets" and W :: "'w window"
  shows "\<exists>g. main_setup sample_main fifo fifo go_map fifo fifo B W baseDir kn_flags = Ret (g, late_client) \<and> obj_impl g = sample_impl"
proof -
  let ?f = "kn_flags\<lparr>fl_autoscaler := [], fl_autoscalerConfig := []\<rparr>"
  have "main_gateway sample_main fifo fifo go_map fifo fifo B W sample_manager ?f =
      main_gateway sample_main fifo fifo go_map fifo fifo B W sample_manager kn_flags"
    "main_client sample_main sample_manager sample_impl ?f = main_client sample_main sample_manager sample_impl kn_flags"
    by (simp_all add: main_gateway_def main_client_def kn_flags_def)
  moreover obtain g where "main_gateway sample_main fifo fifo go_map fifo fifo B W sample_manager kn_flags = Ret (KnObj g)" "ng_impl g = sample_impl"
    using sample_gw by blast
  moreover have "NewManagerOrDie (me_GetConfig sample_main) (me_NewManager sample_main) = Ret sample_manager"
    "me_Chdir sample_main baseDir = None" "me_StatData sample_main = Inr True"
    by (simp_all add: NewManagerOrDie_def sample_main_def)
  ultimately show ?thesis by (simp add: main_setup_def sample_flags sample_cl)
qed

text \<open>The request is due 60 seconds after the client starts.\<close>

definition late_req :: Request where
  "late_req = \<lparr> rq_ID = request_id late_key 0 0, rq_Target = late_key, rq_DurationMilliSec = 10, rq_ClientSendTS = 70 * Second,
     rq_GatewayRecvTS = 0, rq_GatewaySendTS = 0, rq_ClientRelTime = 60 * Second, rq_TraceRelTime = 60 * Second \<rparr>"

lemma late_offset: "trace_offset (Fin 60) = 60 * Second"
  using rnd64_exact [of 60000000000] f_to_int_small [of 60000000000] by (simp add: trace_offset_def f_mul_def Second_def)

lemma late_start: "cl_Start (\<lambda>cur d. cur + max 0 d) (10 * Second) sorted_range late_client = Ret [[[late_req]]]"
  by (simp add: cl_Start_def late_client_def late_worker_def w_replay_def w_send_def late_trace_def w_next_def late_offset late_req_def
      sorted_range_def go_index_def t_Add_def t_Until_def t_Sub_def max_duration_def min_duration_def Second_def)

text \<open>The run up to the start of the client, ten seconds after the caches are synchronised; the gateway is
  started after five.\<close>

definition late_relay :: "time \<Rightarrow> int \<Rightarrow> int \<Rightarrow> string \<rightharpoonup> relay" where
  "late_relay t n m =
     [late_key \<mapsto> \<lparr> rl_nSend = n, rl_nRecv = m, rl_lastTraceSendTime = t, rl_lastTraceRecvTime = 5 * Second \<rparr>]"

lemma late_relay0:
  "(\<lambda>k. if GoRelay k \<in> set (re_gos sample_run) then Some (relay0 (5 * Second) (5 * Second)) else None) = late_relay (5 * Second) 0 0"
  by (auto simp: sample_run_def relay0_def late_relay_def)

abbreviation sample_init :: "(Request list, Response list, unit) tm_sys \<Rightarrow> bool" where
  "sample_init \<equiv> tm_init sample_run sample_main go_map (fifo :: (string list, string) chann) (fifo :: (nat list, nat) chann)
     (const_buckets (Fin 0) (Fin 0)) max_window [] kn_flags"

definition run_started :: "(Request list, Response list, unit) tm_sys" where
  "run_started = (tm0 0 sample_impl () late_client)\<lparr>tm_phase := Selecting, tm_now := 10 * Second, tm_gwStarted := True,
     tm_relays := late_relay (5 * Second) 0 0, tm_started := True, tm_senders := [[late_req]], tm_trace := {#late_req#}\<rparr>"

lemma run_started_reach: "reachable sample_init (tm_step sample_run) run_started"
proof -
  let ?s0 = "tm0 0 sample_impl () late_client"
  let ?s1 = "?s0\<lparr>tm_phase := SleepClient (5 * Second), tm_now := 5 * Second\<rparr>"
  let ?s2 = "?s1\<lparr>tm_gwStarted := True, tm_relays := late_relay (5 * Second) 0 0\<rparr>"
  obtain g where "main_setup sample_main fifo fifo go_map (fifo :: (string list, string) chann) (fifo :: (nat list, nat) chann)
      (const_buckets (Fin 0) (Fin 0)) max_window [] kn_flags = Ret (g, late_client)" "obj_impl g = sample_impl"
    using sample_setup by blast
  then have "sample_init ?s0" by (fastforce simp: tm_init_def sample_run_def)
  then have "reachable sample_init (tm_step sample_run) ?s0" by (rule reach_init)
  from main_reach [OF this main_step.synced]
  have "reachable sample_init (tm_step sample_run) (?s0\<lparr>tm_phase := SleepGateway 0\<rparr>)" by (simp add: tm0_def)
  from go_reach [OF this go_step.tick, of "5 * Second"]
  have "reachable sample_init (tm_step sample_run) (?s0\<lparr>tm_phase := SleepGateway 0, tm_now := 5 * Second\<rparr>)"
    by (simp add: tm0_def Second_def)
  from main_reach [OF this main_step.start_gateway]
  have s1: "reachable sample_init (tm_step sample_run) ?s1" by (simp add: tm0_def Second_def)
  have now: "tm_now ?s1 = 5 * Second" by simp
  have "go_step sample_run ?s1 ?s2"
    using go_step.gw_start [of ?s1 sample_run] unfolding now late_relay0 by (simp add: tm0_def)
  with s1 have "reachable sample_init (tm_step sample_run) ?s2" by (rule go_reach)
  from go_reach [OF this go_step.tick, of "10 * Second"]
  have "reachable sample_init (tm_step sample_run) (?s2\<lparr>tm_now := 10 * Second\<rparr>)" by (simp add: tm0_def Second_def)
  from main_reach [OF this main_step.start_client]
  have "reachable sample_init (tm_step sample_run) (?s2\<lparr>tm_phase := Selecting, tm_now := 10 * Second\<rparr>)"
    by (simp add: tm0_def Second_def)
  from go_reach [OF this go_step.client_start, of "[[[late_req]]]"] late_start
  show ?thesis by (simp add: tm0_def run_started_def sample_run_def)
qed

text \<open>Without a signal the request is sent after a minute, and the gateway is closed 20 seconds later.\<close>

definition run_closed :: "(Request list, Response list, unit) tm_sys" where
  "run_closed = run_started\<lparr>tm_phase := AwaitRecv, tm_now := 90 * Second, tm_cancelled := True,
     tm_g := sample_impl\<lparr>g_externalInputs := [late_key \<mapsto> [late_req]], g_closed := True\<rparr>,
     tm_senders := [[]], tm_sent := {#late_req#}, tm_finishSend := Some (70 * Second)\<rparr>"

lemma run_closed_reach: "reachable sample_init (tm_step sample_run) run_closed"
proof -
  let ?g = "sample_impl\<lparr>g_externalInputs := [late_key \<mapsto> [late_req]]\<rparr>"
  let ?s = "run_started\<lparr>tm_now := 70 * Second, tm_g := ?g, tm_senders := [[]], tm_sent := {#late_req#}\<rparr>"
  note f = run_started_def tm0_def Second_def
  from go_reach [OF run_started_reach go_step.tick, of "70 * Second"]
  have "reachable sample_init (tm_step sample_run) (run_started\<lparr>tm_now := 70 * Second\<rparr>)" by (simp add: f)
  from go_reach [OF this go_step.send [where i = 0 and r = late_req and rest = "[]" and g' = ?g]]
  have "reachable sample_init (tm_step sample_run) ?s"
    by (simp add: f late_req_def sample_run_def RequestChan_send_def register_def newGatewayImpl_def fifo_def)
  from go_reach [OF this go_step.finish_send]
  have "reachable sample_init (tm_step sample_run) (?s\<lparr>tm_finishSend := Some (70 * Second)\<rparr>)" by (simp add: f)
  from main_reach [OF this main_step.select_finished]
  have "reachable sample_init (tm_step sample_run) (?s\<lparr>tm_finishSend := Some (70 * Second), tm_phase := Draining (70 * Second)\<rparr>)"
    by (simp add: f)
  from go_reach [OF this go_step.tick, of "85 * Second"]
  have "reachable sample_init (tm_step sample_run)
      (?s\<lparr>tm_finishSend := Some (70 * Second), tm_phase := Draining (70 * Second), tm_now := 85 * Second\<rparr>)" by (simp add: f)
  from main_reach [OF this main_step.drained]
  have "reachable sample_init (tm_step sample_run)
      (?s\<lparr>tm_finishSend := Some (70 * Second), tm_phase := Closing (85 * Second), tm_cancelled := True, tm_now := 85 * Second\<rparr>)"
    by (simp add: f)
  from go_reach [OF this go_step.tick, of "90 * Second"]
  have "reachable sample_init (tm_step sample_run)
      (?s\<lparr>tm_finishSend := Some (70 * Second), tm_phase := Closing (85 * Second), tm_cancelled := True, tm_now := 90 * Second\<rparr>)"
    by (simp add: f)
  from main_reach [OF this main_step.close_gateway] show ?thesis by (simp add: f run_closed_def gw_Close_def)
qed

theorem orderly_shutdown_witness:
  "\<not> tm_signal run_closed \<and> g_closed (tm_g run_closed) \<and> tm_sent run_closed = tm_trace run_closed \<and> tm_trace run_closed = {#late_req#}"
  using orderly_shutdown [OF run_closed_reach] by (simp add: run_closed_def run_started_def tm0_def)

theorem main_can_finish_witness:
  "\<exists>t. (tm_step sample_run)\<^sup>*\<^sup>* run_closed t \<and> tm_phase t = Finished \<and> last (cl_output (tm_client t)) = summary_line 0 0"
proof -
  have r: "chann_laws (re_RS sample_run)" "re_factor sample_run \<noteq> 0" "re_write sample_run l = None" for l
    by (simp_all add: sample_run_def fifo_laws)
  have s: "tm_phase run_closed = AwaitRecv" "tm_crash run_closed = None" "tm_started run_closed" "\<not> tm_finishRecv run_closed"
    "tm_received run_closed = []"
    by (simp_all add: run_closed_def run_started_def tm0_def)
  have "remaining (re_RS sample_run) (tm_g run_closed) = []"
    by (simp add: run_closed_def sample_run_def remaining_def register_def newGatewayImpl_def fifo_def)
  with main_can_finish [OF run_closed_reach s(1-4) r] s(5) show ?thesis by simp
qed

text \<open>C39: after a signal the close of the gateway races with the senders. Whenever \<open>main\<close> is about to close
  the gateway and some sender still has a request, a signal has arrived (the senders do not look at the
  context, so they go on). If that request is due, the gateway still takes it at this moment; but the
  next step of \<open>main\<close> is to close the gateway whatever is left, and from then on sending the request
  panics, without any time passing in between.\<close>

theorem close_races_senders:
  assumes "reachable (tm_init R E S T C B W baseDir flags) (tm_step R) s" and "running s" and "tm_phase s = Closing t"
    and "t + 5 * Second \<le> tm_now s" and "i < length (tm_senders s)" and "tm_senders s ! i = r # rest" and "rq_ClientSendTS r \<le> tm_now s"
  shows "tm_signal s \<and> (\<exists>g'. RequestChan_send (re_RQ R) (rq_Target r) r (tm_g s) = Ret g') \<and> (\<exists>s'. main_step R s s') \<and>
     (\<forall>s'. main_step R s s' \<longrightarrow> tm_now s' = tm_now s \<and> g_closed (tm_g s') \<and>
        RequestChan_send (re_RQ R) (rq_Target r) r (tm_g s') = Panic (PanicMsg ''send on closed channel'') \<and>
        go_step R s' (s'\<lparr>tm_crash := Some (SenderPanic (PanicMsg ''send on closed channel''))\<rparr>))"
proof -
  have inv: "send_inv s" "phase_inv s" using tm_system.inv_reachable [OF assms(1)] by simp_all
  have r: "r \<in> set (concat (tm_senders s))" using concat_update_Cons(2) [OF assms(5,6)] by simp
  have "tm_finishSend s = None" using send_inv_finished [OF inv(1)] r by (cases "tm_finishSend s") auto
  then have signal: "tm_signal s" using inv(2) assms(3) by (auto simp: phase_inv_def)
  have op: "\<not> g_closed (tm_g s)" using inv(2) assms(3) by (simp add: phase_inv_def)
  have ch: "g_externalInputs (tm_g s) (rq_Target r) \<noteq> None" using inv(1) r unfolding send_inv_def by blast
  then have send: "\<exists>g'. RequestChan_send (re_RQ R) (rq_Target r) r (tm_g s) = Ret g'" using op by (auto simp: RequestChan_send_def)
  let ?s = "s\<lparr>tm_phase := AwaitRecv, tm_g := gw_Close (tm_g s)\<rparr>"
  have nxt: "main_step R s s' \<longleftrightarrow> s' = ?s" for s'
    using assms(2-4) by (auto elim!: main_stepE intro: main_step.close_gateway)
  have panic: "RequestChan_send (re_RQ R) (rq_Target r) r (tm_g ?s) = Panic (PanicMsg ''send on closed channel'')"
    using ch by (auto simp: RequestChan_send_def gw_Close_def)
  have "go_step R ?s (?s\<lparr>tm_crash := Some (SenderPanic (PanicMsg ''send on closed channel''))\<rparr>)"
    by (rule go_step.send_panic [where i = i and r = r and rest = rest]) (use assms(2,5-7) panic in simp_all)
  with signal send nxt panic show ?thesis by (simp add: gw_Close_def)
qed

text \<open>The signal arrives five seconds before the request is due; the relay stops, \<open>main\<close> cancels the
  context and closes the gateway when the request is due, and the program crashes at that time.\<close>

definition run_interrupted :: "(Request list, Response list, unit) tm_sys" where
  "run_interrupted = run_started\<lparr>tm_now := 70 * Second, tm_signal := True, tm_phase := Closing (65 * Second), tm_cancelled := True,
     tm_relays := Map.empty\<rparr>"

lemma run_interrupted_reach: "reachable sample_init (tm_step sample_run) run_interrupted"
proof -
  let ?s = "run_started\<lparr>tm_now := 65 * Second, tm_signal := True\<rparr>"
  note f = run_started_def tm0_def Second_def
  from go_reach [OF run_started_reach go_step.tick, of "65 * Second"]
  have "reachable sample_init (tm_step sample_run) (run_started\<lparr>tm_now := 65 * Second\<rparr>)" by (simp add: f)
  from go_reach [OF this go_step.signal] have "reachable sample_init (tm_step sample_run) ?s" by (simp add: f)
  from go_reach [OF this go_step.relay_stop [where key = late_key]]
  have "reachable sample_init (tm_step sample_run) (?s\<lparr>tm_relays := Map.empty\<rparr>)" by (simp add: f late_relay_def)
  from main_reach [OF this main_step.select_signal]
  have "reachable sample_init (tm_step sample_run) (?s\<lparr>tm_relays := Map.empty, tm_phase := Closing (65 * Second), tm_cancelled := True\<rparr>)"
    by (simp add: f)
  from go_reach [OF this go_step.tick, of "70 * Second"] show ?thesis by (simp add: f run_interrupted_def)
qed

theorem close_races_senders_witness:
  "\<exists>s. reachable sample_init (tm_step sample_run) s \<and> tm_signal run_interrupted \<and> tm_now run_interrupted = rq_ClientSendTS late_req \<and>
     main_step sample_run run_interrupted (run_interrupted\<lparr>tm_phase := AwaitRecv, tm_g := gw_Close sample_impl\<rparr>) \<and>
     tm_now s = tm_now run_interrupted \<and> tm_crash s = Some (SenderPanic (PanicMsg ''send on closed channel''))"
proof -
  have s: "running run_interrupted" "tm_phase run_interrupted = Closing (65 * Second)" "65 * Second + 5 * Second \<le> tm_now run_interrupted"
    "0 < length (tm_senders run_interrupted)" "tm_senders run_interrupted ! 0 = late_req # []" "rq_ClientSendTS late_req \<le> tm_now run_interrupted"
    "tm_now run_interrupted = rq_ClientSendTS late_req" "tm_g run_interrupted = sample_impl"
    by (simp_all add: run_interrupted_def run_started_def tm0_def late_req_def)
  let ?c = "run_interrupted\<lparr>tm_phase := AwaitRecv, tm_g := gw_Close sample_impl\<rparr>"
  have c: "main_step sample_run run_interrupted ?c"
    using main_step.close_gateway [OF s(1-3), of sample_run] by (simp add: s(8))
  note race = close_races_senders [OF run_interrupted_reach s(1-6)]
  from race c have "go_step sample_run ?c (?c\<lparr>tm_crash := Some (SenderPanic (PanicMsg ''send on closed channel''))\<rparr>)" by blast
  from go_reach [OF main_reach [OF run_interrupted_reach c] this] race c s(7) show ?thesis
    by (intro exI [of _ "?c\<lparr>tm_crash := Some (SenderPanic (PanicMsg ''send on closed channel''))\<rparr>"]) simp
qed

text \<open>C40: the program crashes with its default flags. They pass \<open>validateFlags\<close> unchanged, since the
  one-time autoscaler needs no configuration file, but without one the configuration is nil
  and setting up the gateway selects a field of it, whatever deployments are listed.\<close>

theorem default_flags_crash:
  "validateFlags default_flags = Ret default_flags \<and>
   main_k8s_gateway ReadFile Unmarshal RQ RS S T B W (Ret (Inr targets)) built default_flags = Panic NilDeref"
  by (simp add: validateFlags_def default_flags_def main_k8s_gateway_def NewK8sGateway_def NewAutoscalerConfigFrom_def
      SetUpWithManager_def add_targets_fn Let_def)

end
