(* ===== verification/Trace_Accounting.thy ===== *)
theory Trace_Accounting
  imports Trace
begin

text \<open>
  Where the requests of a trace are while \<open>src/experiments/trace/main.go\<close> runs, over all targets at
  once. The state of the run is that of \<open>tm_step\<close>; the buffers of the gateway are summed over the
  targets. The invariant \<open>place_inv\<close> says that every request sent is in exactly one place, and
  \<open>file_inv\<close> what the output file says once the writer is done.
\<close>

section \<open>The contents of all buffers\<close>

definition queued :: "('q, 'a) chann \<Rightarrow> (string \<rightharpoonup> 'q) \<Rightarrow> 'a multiset" where
  "queued C m = (\<Sum>k \<in> dom m. mset (ch_Items C (the (m k))))"

lemma queued_upd:
  assumes "finite (dom m)" and "m k = Some q"
  shows "queued C (m(k \<mapsto> q')) + mset (ch_Items C q) = queued C m + mset (ch_Items C q')"
proof -
  have k: "k \<in> dom m" "dom (m(k \<mapsto> q')) = dom m" using assms(2) by auto
  have "(\<Sum>j \<in> dom m - {k}. mset (ch_Items C (the ((m(k \<mapsto> q')) j)))) = (\<Sum>j \<in> dom m - {k}. mset (ch_Items C (the (m j))))"
    by (rule sum.cong) auto
  then show ?thesis
    unfolding queued_def k(2) sum.remove [OF assms(1) k(1)] using assms(2) by (simp add: ac_simps)
qed

lemma queued_Send:
  assumes "chann_laws C" and "finite (dom m)" and "m k = Some q"
  shows "queued C (m(k \<mapsto> ch_Send C q x)) = add_mset x (queued C m)"
  using queued_upd [OF assms(2,3), of C "ch_Send C q x"] by (simp add: chann_Send [OF assms(1)])

lemma queued_Recv:
  assumes "chann_laws C" and "finite (dom m)" and "m k = Some q" and "ch_Recv C q = Some (x, q')"
  shows "queued C m = add_mset x (queued C (m(k \<mapsto> q')))"
  using queued_upd [OF assms(2,3), of C q'] chann_Recv_Some [OF assms(1,4)] by simp

lemma queued_fresh: "(\<And>k q. m k = Some q \<Longrightarrow> ch_Items C q = []) \<Longrightarrow> queued C m = {#}"
  unfolding queued_def by (rule sum.neutral) auto

section \<open>The set-up leaves every buffer empty\<close>

definition fresh :: "('rq, Request) chann \<Rightarrow> ('rs, Response) chann \<Rightarrow> ('rq, 'rs) gatewayImpl \<Rightarrow> bool" where
  "fresh RQ RS g \<longleftrightarrow>
     finite (dom (g_externalInputs g)) \<and> finite (dom (g_internalInputBuffers g)) \<and> finite (dom (g_internalOutputBuffers g)) \<and>
     (\<forall>k q. g_externalInputs g k = Some q \<longrightarrow> ch_Items RQ q = []) \<and>
     (\<forall>k q. g_internalInputBuffers g k = Some q \<longrightarrow> ch_Items RQ q = []) \<and>
     (\<forall>k q. g_internalOutputBuffers g k = Some q \<longrightarrow> ch_Items RS q = []) \<and> ch_Items RS (g_externalOutput g) = []"

lemma fresh_new: "chann_laws RS \<Longrightarrow> fresh RQ RS (newGatewayImpl RS)"
  by (simp add: fresh_def newGatewayImpl_def chann_New)

lemma fresh_register: "chann_laws RQ \<Longrightarrow> chann_laws RS \<Longrightarrow> fresh RQ RS g \<Longrightarrow> fresh RQ RS (register RQ RS key g)"
  by (auto simp: fresh_def register_def chann_New)

lemma fresh_targets:
  assumes "chann_laws RQ" and "chann_laws RS" and "fresh RQ RS (kg_impl g)"
  shows "fresh RQ RS (kg_impl (foldl (\<lambda>g t. add_target RQ RS S T t g) g ts))"
  using assms(3)
proof (induction ts arbitrary: g)
  case (Cons t ts)
  have "fresh RQ RS (kg_impl (add_target RQ RS S T t g))"
    using fresh_register [OF assms(1,2) Cons.prems] by (simp add: add_target_def Let_def)
  from Cons.IH [OF this] show ?case by simp
qed simp

lemma fresh_services:
  assumes "chann_laws RQ" and "chann_laws RS" and "fresh RQ RS (ng_impl g)" and "ng_add RQ RS C cfg dial ss g = Ret (e, g')"
  shows "fresh RQ RS (ng_impl g')"
  using assms(3,4)
proof (induction ss arbitrary: g)
  case (Cons x ss)
  obtain service url where x: "x = (service, url)" by (cases x)
  note reg = fresh_register [OF assms(1,2) Cons.prems(1), of "KeyFromObject service"]
  from Cons.prems(2) show ?case
    unfolding x by (auto simp: Let_def reg simp del: go_bind_Ret_iff elim!: go_bind_RetE dest!: Cons.IH [rotated] split: sum.split_asm)
qed simp

lemma fresh_setup:
  assumes "chann_laws RQ" and "chann_laws RS" and "main_setup E RQ RS S T C B W baseDir flags = Ret (g, c)"
  shows "fresh RQ RS (obj_impl g)"
proof -
  note new = fresh_new [OF assms(2), of RQ]
  from assms(3) obtain mgr f where "main_gateway E RQ RS S T C B W mgr f = Ret g"
    by (auto simp: main_setup_def split: option.split_asm if_split_asm)
  then show ?thesis
    using fresh_services [OF assms(1,2), where g = "NewKnativeGateway RS d" for d] new
    by (auto simp: main_gateway_def main_k8s_gateway_def ng_SetUpWithManager_def NewKnativeGateway_def NewK8sGateway_def
        SetUpWithManager_def Let_def fresh_targets [OF assms(1,2)]
        simp del: go_bind_Ret_iff elim!: go_bind_RetE split: if_split_asm sum.split_asm option.split_asm)
qed

section \<open>Every request is in one place\<close>

text \<open>The requests and responses the gateway and its dispatchers hold, by request ID.\<close>

definition in_gateway :: "('rq, 'rs, 'a) run_env \<Rightarrow> ('rq, 'rs, 'a) tm_sys \<Rightarrow> string multiset" where
  "in_gateway R s =
     req_ids (queued (re_RQ R) (g_externalInputs (tm_g s))) + req_ids (queued (re_RQ R) (g_internalInputBuffers (tm_g s))) +
     req_ids (image_mset snd (tm_pending s)) + res_ids (queued (re_RS R) (g_internalOutputBuffers (tm_g s))) +
     res_ids (mset (remaining (re_RS R) (tm_g s)))"

definition place_inv :: "('rq, 'rs, 'a) run_env \<Rightarrow> ('rq, 'rs, 'a) tm_sys \<Rightarrow> bool" where
  "place_inv R s \<longleftrightarrow>
     finite (dom (g_externalInputs (tm_g s))) \<and> finite (dom (g_internalInputBuffers (tm_g s))) \<and>
     finite (dom (g_internalOutputBuffers (tm_g s))) \<and>
     req_ids (tm_sent s) = in_gateway R s + res_ids (mset (map fst (tm_received s)))"

lemma place_inv_same:
  assumes "place_inv R s" and "g_externalInputs (tm_g t) = g_externalInputs (tm_g s)"
    and "g_internalInputBuffers (tm_g t) = g_internalInputBuffers (tm_g s)"
    and "g_internalOutputBuffers (tm_g t) = g_internalOutputBuffers (tm_g s)"
    and "g_externalOutput (tm_g t) = g_externalOutput (tm_g s)" and "tm_pending t = tm_pending s" and "tm_sent t = tm_sent s"
    and "tm_received t = tm_received s"
  shows "place_inv R t"
  using assms(1) by (simp add: place_inv_def in_gateway_def remaining_def assms(2-8))

lemma place_inv_main: "main_step R s t \<Longrightarrow> place_inv R s \<Longrightarrow> place_inv R t"
  by (erule main_stepE) (auto elim!: place_inv_same simp: gw_Close_def)

lemma relay_request_bufs:
  "relay_request RQ RS period onIn now key g rl a = Some (Ret r) \<Longrightarrow>
     \<exists>xin iin. g_externalInputs g key = Some xin \<and> g_internalInputBuffers g key = Some iin"
  by (auto simp: relay_request_def split: option.split_asm)

lemma relay_response_buf:
  "relay_response RS period onOut key g rl a = Some (Ret r) \<Longrightarrow> \<exists>iout. g_internalOutputBuffers g key = Some iout"
  by (auto simp: relay_response_def split: option.split_asm)

lemma relay_round_Ret:
  "relay_in_round RQ RS period onIn now key g rl a = Some (Ret r) \<Longrightarrow> relay_request RQ RS period onIn now key g rl a = Some (Ret r)"
  "relay_out_round RS period onOut key g rl a = Some (Ret r) \<Longrightarrow> relay_response RS period onOut key g rl a = Some (Ret r) \<and> \<not> g_closed g"
  by (auto simp: relay_in_round_def relay_out_round_def split: if_split_asm option.split_asm go.split_asm)

lemma place_inv_relay_in:
  assumes "place_inv R s" and RQ: "chann_laws (re_RQ R)" and RS: "chann_laws (re_RS R)"
    and "relay_request (re_RQ R) (re_RS R) period onIn now key (tm_g s) rl a = Some (Ret (g', rl', a'))"
  shows "place_inv R (s\<lparr>tm_g := g', tm_relays := rls, tm_a := a'\<rparr>)"
proof -
  obtain xin iin where b: "g_externalInputs (tm_g s) key = Some xin" "g_internalInputBuffers (tm_g s) key = Some iin"
    using relay_request_bufs [OF assms(4)] by blast
  have fin: "finite (dom (g_externalInputs (tm_g s)))" "finite (dom (g_internalInputBuffers (tm_g s)))"
    using assms(1) by (simp_all add: place_inv_def)
  from assms(4) b show ?thesis
  proof (cases rule: relay_request_Some)
    case (invalid req xin')
    with assms(1) queued_Recv [OF RQ fin(1) b(1) invalid(1)] show ?thesis
      by (simp add: place_inv_def in_gateway_def remaining_def chann_Send [OF RS] new_Response_def)
  next
    case (relayed req xin')
    with assms(1) queued_Recv [OF RQ fin(1) b(1) relayed(1)] show ?thesis
      by (simp add: place_inv_def in_gateway_def remaining_def queued_Send [OF RQ fin(2) b(2)])
  qed
qed

lemma place_inv_relay_out:
  assumes "place_inv R s" and RS: "chann_laws (re_RS R)"
    and "relay_response (re_RS R) period onOut key (tm_g s) rl a = Some (Ret (g', rl', a'))"
  shows "place_inv R (s\<lparr>tm_g := g', tm_relays := rls, tm_a := a'\<rparr>)"
proof -
  obtain iout where b: "g_internalOutputBuffers (tm_g s) key = Some iout" using relay_response_buf [OF assms(3)] by blast
  have fin: "finite (dom (g_internalOutputBuffers (tm_g s)))" using assms(1) by (simp add: place_inv_def)
  from assms(3) b obtain res iout' where r: "ch_Recv (re_RS R) iout = Some (res, iout')"
    "g' = (tm_g s)\<lparr>g_internalOutputBuffers := (g_internalOutputBuffers (tm_g s))(key \<mapsto> iout'),
       g_externalOutput := ch_Send (re_RS R) (g_externalOutput (tm_g s)) res\<rparr>"
    by (rule relay_response_Some)
  with assms(1) queued_Recv [OF RS fin b r(1)] show ?thesis
    by (simp add: place_inv_def in_gateway_def remaining_def chann_Send [OF RS])
qed

lemma place_inv_go:
  assumes "go_step R s t" and "place_inv R s" and RQ: "chann_laws (re_RQ R)" and RS: "chann_laws (re_RS R)"
  shows "place_inv R t"
proof -
  have fin: "finite (dom (g_externalInputs (tm_g s)))" "finite (dom (g_internalInputBuffers (tm_g s)))"
    "finite (dom (g_internalOutputBuffers (tm_g s)))" using assms(2) by (simp_all add: place_inv_def)
  note defs = place_inv_def in_gateway_def remaining_def
  from assms(1) show ?thesis
  proof (cases rule: go_step.cases)
    case (send i r rest g')
    then obtain q where q: "g_externalInputs (tm_g s) (rq_Target r) = Some q"
      "g' = (tm_g s)\<lparr>g_externalInputs := (g_externalInputs (tm_g s))(rq_Target r \<mapsto> ch_Send (re_RQ R) q r)\<rparr>"
      by (auto simp: RequestChan_send_def split: option.split_asm if_split_asm)
    with send(1) assms(2) show ?thesis by (simp add: defs queued_Send [OF RQ fin(1) q(1)])
  next
    case (relay_in key rl g' rl' a')
    show ?thesis unfolding relay_in(1) by (rule place_inv_relay_in [OF assms(2) RQ RS relay_round_Ret(1) [OF relay_in(4)]])
  next
    case (relay_out key rl g' rl' a')
    show ?thesis unfolding relay_out(1)
      by (rule place_inv_relay_out [OF assms(2) RS conjunct1 [OF relay_round_Ret(2) [OF relay_out(4)]]])
  next
    case (take_req key q req q')
    with assms(2) queued_Recv [OF RQ fin(2) take_req(4,5)] show ?thesis by (simp add: defs)
  next
    case (answer key req P res q)
    with assms(2) show ?thesis by (simp add: defs queued_Send [OF RS fin(3) answer(5)] same_invocation_def)
  next
    case (client_recv res g')
    then obtain q where q: "ch_Recv (re_RS R) (g_externalOutput (tm_g s)) = Some (res, q)" "g' = (tm_g s)\<lparr>g_externalOutput := q\<rparr>"
      by (auto simp: ResponseChan_recv_def split: option.split_asm)
    with client_recv(1) assms(2) chann_Recv_Some [OF RS q(1)] show ?thesis by (simp add: defs)
  qed (auto intro!: place_inv_same [OF assms(2)])
qed

lemma place_inv_init:
  assumes "chann_laws (re_RQ R)" and "chann_laws (re_RS R)" and "tm_init R E S T C B W baseDir flags s"
  shows "place_inv R s"
proof -
  from assms(3) obtain now g a c where s: "s = tm0 now (obj_impl g) a c" and
    m: "main_setup E (re_RQ R) (re_RS R) S T C B W baseDir flags = Ret (g, c)"
    by (auto simp: tm_init_def)
  from fresh_setup [OF assms(1,2) m] have "fresh (re_RQ R) (re_RS R) (tm_g s)" by (simp add: s tm0_def)
  then show ?thesis unfolding fresh_def place_inv_def in_gateway_def remaining_def
    by (simp add: queued_fresh) (simp add: s tm0_def)
qed

interpretation places: inductive_invariant "tm_init R E S T C B W baseDir flags" "tm_step R"
  "\<lambda>s. chann_laws (re_RQ R) \<and> chann_laws (re_RS R) \<longrightarrow> place_inv R s" for R E S T C B W baseDir flags
  by unfold_locales (auto simp: tm_step_def intro: place_inv_init place_inv_main place_inv_go)

section \<open>What the output file says at the end\<close>

lemma write_loop_Ret:
  "write_loop factor wr (map Some rs) n f acc = Ret (n', f', ls) \<Longrightarrow>
     n' = n + int (length rs) \<and> f' = f + int (length (filter (\<lambda>r. rs_Status r \<noteq> SUCCESS) rs))"
proof (induction rs arbitrary: n f acc)
  case (Cons r rs)
  from Cons.prems show ?case by (auto simp: Let_def dest!: Cons.IH split: if_split_asm option.split_asm)
qed simp

abbreviation failures :: "(Response \<times> time) list \<Rightarrow> nat" where
  "failures rs \<equiv> length (filter (\<lambda>(r, t). rs_Status r \<noteq> SUCCESS) rs)"

lemma cl_write_last:
  assumes "cl_write factor wr (map Some (cl_recv rs)) c = Ret c'"
  shows "last (cl_output c') = summary_line (int (length rs)) (int (failures rs))"
proof -
  from assms obtain n f ls where w: "write_loop factor wr (map Some (cl_recv rs)) 0 0 [] = Ret (n, f, ls)"
    "last (cl_output c') = summary_line n f"
    by (auto simp: cl_write_def split: option.split_asm)
  have "length (filter (\<lambda>r. rs_Status r \<noteq> SUCCESS) (cl_recv rs)) = failures rs"
    by (induction rs) (auto simp: cl_recv_def)
  with write_loop_Ret [OF w(1)] w(2) show ?thesis by (simp add: cl_recv_def)
qed

definition file_inv :: "('rq, 'rs, 'a) run_env \<Rightarrow> ('rq, 'rs, 'a) tm_sys \<Rightarrow> bool" where
  "file_inv R s \<longleftrightarrow>
     (tm_phase s = Finished \<longrightarrow> tm_finishRecv s) \<and>
     (tm_finishRecv s \<longrightarrow>
        g_closed (tm_g s) \<and> remaining (re_RS R) (tm_g s) = [] \<and>
        last (cl_output (tm_client s)) = summary_line (int (length (tm_received s))) (int (failures (tm_received s))))"

lemma closed_relay_in:
  "relay_in_round RQ RS period onIn now key g rl a = Some (Ret (g', rl', a')) \<Longrightarrow> g_closed g \<Longrightarrow> g_externalOutput g' = g_externalOutput g"
  by (auto simp: relay_in_round_def relay_request_def Let_def split: if_split_asm option.split_asm)

lemma file_inv_go:
  assumes "go_step R s t" and "file_inv R s" and "chann_laws (re_RS R)"
  shows "file_inv R t"
proof -
  note fr = go_step_frame [OF assms(1)]
  have empty: "ResponseChan_recv (re_RS R) (tm_g s) = None \<longleftrightarrow> remaining (re_RS R) (tm_g s) = []"
    using chann_Recv_None [OF assms(3), of "g_externalOutput (tm_g s)"]
    by (auto simp: ResponseChan_recv_def remaining_def split: option.splits)
  from assms(1) show ?thesis
  proof (cases rule: go_step.cases)
    case (relay_in key rl g' rl' a')
    with assms(2) fr show ?thesis by (auto simp: file_inv_def remaining_def dest: closed_relay_in)
  next
    case (relay_out key rl g' rl' a')
    with assms(2) relay_round_Ret(2) [OF relay_out(4)] show ?thesis by (auto simp: file_inv_def)
  next
    case (write_end c')
    with assms(2) empty cl_write_last [OF write_end(7)] show ?thesis by (simp add: file_inv_def)
  next
    case (client_start out)
    with assms(2) show ?thesis by (auto simp: file_inv_def)
  next
    case (send i r rest g')
    with assms(2) fr show ?thesis
      by (auto simp: file_inv_def remaining_def RequestChan_send_def split: option.split_asm if_split_asm)
  next
    case (client_recv res g')
    with assms(2) empty show ?thesis by (auto simp: file_inv_def)
  qed (use assms(2) in \<open>auto simp: file_inv_def remaining_def\<close>)
qed

lemma file_inv_main: "main_step R s t \<Longrightarrow> file_inv R s \<Longrightarrow> file_inv R t"
  by (erule main_stepE) (auto simp: file_inv_def gw_Close_def remaining_def)

lemma file_inv_init: "tm_init R E S T C B W baseDir flags s \<Longrightarrow> file_inv R s"
  by (auto simp: tm_init_def tm0_def file_inv_def)

interpretation files: inductive_invariant "tm_init R E S T C B W baseDir flags" "tm_step R"
  "\<lambda>s. chann_laws (re_RS R) \<longrightarrow> file_inv R s" for R E S T C B W baseDir flags
  by unfold_locales (auto simp: tm_step_def intro: file_inv_init file_inv_main file_inv_go)

section \<open>Properties\<close>

text \<open>C5: when the program ends, its output accounts for the whole trace. In every run, over all
  targets and whatever the interleaving of the goroutines and the callbacks of the autoscaler:
  at any time the requests of the trace are those not yet sent, those the gateway and the
  dispatchers hold, and those answered, each exactly once; and when \<open>main\<close> has returned, the last
  line of the output file gives the number of responses and of failures among them, the gateway's
  output is empty, and unless a signal arrived every request had been sent, so that what is
  missing from the total is exactly what the gateway and the dispatchers still held.\<close>

theorem finished_run_accounts:
  assumes "chann_laws (re_RQ R)" and "chann_laws (re_RS R)"
    and "reachable (tm_init R E S T C B W baseDir flags) (tm_step R) s"
  shows "req_ids (tm_trace s) = req_ids (mset (concat (tm_senders s))) + in_gateway R s + res_ids (mset (map fst (tm_received s))) \<and>
     (tm_phase s = Finished \<longrightarrow>
        last (cl_output (tm_client s)) = summary_line (int (length (tm_received s))) (int (failures (tm_received s))) \<and>
        remaining (re_RS R) (tm_g s) = [] \<and>
        (\<not> tm_signal s \<longrightarrow> size (tm_trace s) = length (tm_received s) + size (in_gateway R s)))"
proof -
  have inv: "send_inv s" "phase_inv s" using tm_system.inv_reachable [OF assms(3)] by simp_all
  have p: "place_inv R s" using places.inv_reachable [OF assms(3)] assms(1,2) by simp
  have f: "file_inv R s" using files.inv_reachable [OF assms(3)] assms(2) by simp
  have "tm_trace s = tm_sent s + mset (concat (tm_senders s))" using inv(1) unfolding send_inv_def by blast
  with p have eq: "req_ids (tm_trace s) = req_ids (mset (concat (tm_senders s))) + in_gateway R s + res_ids (mset (map fst (tm_received s)))"
    by (simp add: place_inv_def ac_simps)
  have "size (tm_trace s) = length (tm_received s) + size (in_gateway R s)" if "tm_phase s = Finished" "\<not> tm_signal s"
  proof -
    have "\<exists>f. tm_finishSend s = Some f" using inv(2) that by (auto simp: phase_inv_def)
    then have "concat (tm_senders s) = []" using send_inv_finished [OF inv(1)] by blast
    with arg_cong [OF eq, of size] show ?thesis by simp
  qed
  with eq f show ?thesis unfolding file_inv_def by blast
qed

section \<open>A run whose request is answered\<close>

text \<open>The run of \<open>run_started\<close> goes on: the request is sent when it is due, relayed,
  answered by the dispatcher and received by the client.\<close>

definition late_res :: Response where
  "late_res = new_Response (late_req\<lparr>rq_GatewayRecvTS := 70 * Second\<rparr>) SUCCESS"

definition run_relayed :: "(Request list, Response list, unit) tm_sys" where
  "run_relayed = run_started\<lparr>tm_now := 70 * Second, tm_senders := [[]], tm_sent := {#late_req#},
     tm_relays := late_relay (70 * Second) 1 0,
     tm_g := sample_impl\<lparr>g_internalInputBuffers := [late_key \<mapsto> [late_req\<lparr>rq_GatewayRecvTS := 70 * Second\<rparr>]]\<rparr>\<rparr>"

definition run_answered :: "(Request list, Response list, unit) tm_sys" where
  "run_answered = run_started\<lparr>tm_now := 70 * Second, tm_senders := [[]], tm_sent := {#late_req#},
     tm_relays := late_relay (70 * Second) 1 1, tm_received := [(late_res, 70 * Second)]\<rparr>"

lemmas late_defs = run_started_def tm0_def Second_def late_req_def sample_run_def register_def newGatewayImpl_def fifo_def

lemma run_relayed_reach: "reachable sample_init (tm_step sample_run) run_relayed"
proof -
  let ?g = "sample_impl\<lparr>g_externalInputs := [late_key \<mapsto> [late_req]]\<rparr>"
  let ?s = "run_started\<lparr>tm_now := 70 * Second, tm_g := ?g, tm_senders := [[]], tm_sent := {#late_req#}\<rparr>"
  from go_reach [OF run_started_reach go_step.tick, of "70 * Second"]
  have "reachable sample_init (tm_step sample_run) (run_started\<lparr>tm_now := 70 * Second\<rparr>)" by (simp add: run_started_def tm0_def Second_def)
  from go_reach [OF this go_step.send [where i = 0 and r = late_req and rest = "[]" and g' = ?g]]
  have "reachable sample_init (tm_step sample_run) ?s" by (simp add: late_defs RequestChan_send_def)
  from go_reach [OF this go_step.relay_in [where key = late_key and g' = "tm_g run_relayed" and
        rl' = "the (late_relay (70 * Second) 1 0 late_key)" and a' = "()"]]
  show ?thesis
    by (simp add: late_defs run_relayed_def late_relay_def relay_in_round_def relay_request_def ng_onReqIn_def t_Sub_def
        tracingOutputPeriod0_def max_duration_def min_duration_def)
qed

lemma run_answered_reach: "reachable sample_init (tm_step sample_run) run_answered"
proof -
  let ?req = "late_req\<lparr>rq_GatewayRecvTS := 70 * Second\<rparr>"
  let ?t = "run_relayed\<lparr>tm_g := sample_impl, tm_pending := {#(late_key, ?req)#}\<rparr>"
  let ?a = "run_relayed\<lparr>tm_g := sample_impl\<lparr>g_internalOutputBuffers := [late_key \<mapsto> [late_res]]\<rparr>\<rparr>"
  let ?o = "run_relayed\<lparr>tm_g := sample_impl\<lparr>g_externalOutput := [late_res]\<rparr>, tm_relays := late_relay (70 * Second) 1 1\<rparr>"
  note d = late_defs run_relayed_def run_answered_def
  from go_reach [OF run_relayed_reach go_step.take_req [where key = late_key and q = "[?req]" and req = ?req and q' = "[]"]]
  have "reachable sample_init (tm_step sample_run) ?t" by (simp add: d)
  from go_reach [OF this go_step.answer [where key = late_key and req = ?req and P = "{#}" and res = late_res and q = "[]"]]
  have "reachable sample_init (tm_step sample_run) ?a" by (simp add: d late_res_def new_Response_def)
  from go_reach [OF this go_step.relay_out [where key = late_key and g' = "tm_g ?o" and
        rl' = "the (late_relay (70 * Second) 1 1 late_key)" and a' = "()"]]
  have "reachable sample_init (tm_step sample_run) ?o"
    by (simp add: d late_relay_def relay_out_round_def relay_response_def ng_onReqOut_def t_Sub_def late_res_def new_Response_def
        tracingOutputPeriod0_def max_duration_def min_duration_def)
  from go_reach [OF this go_step.client_recv [where res = late_res and g' = sample_impl]]
  show ?thesis by (simp add: d ResponseChan_recv_def)
qed

definition run_finished :: "(Request list, Response list, unit) tm_sys" where
  "run_finished = run_answered\<lparr>tm_phase := Finished, tm_now := 90 * Second, tm_cancelled := True,
     tm_g := sample_impl\<lparr>g_closed := True\<rparr>, tm_finishSend := Some (70 * Second), tm_finishRecv := True,
     tm_client := late_client\<lparr>cl_output := [Summary (late_res\<lparr>rs_ClientRecvTS := 70 * Second\<rparr>), summary_line 1 0]\<rparr>\<rparr>"

lemma late_write:
  "cl_write 1 (\<lambda>_. None) (map Some (cl_recv [(late_res, 70 * Second)])) late_client =
     Ret (late_client\<lparr>cl_output := [Summary (late_res\<lparr>rs_ClientRecvTS := 70 * Second\<rparr>), summary_line 1 0]\<rparr>)"
  by (simp add: write_accounts late_client_def late_res_def new_Response_def)

lemma run_finished_reach: "reachable sample_init (tm_step sample_run) run_finished"
proof -
  let ?f = "run_answered\<lparr>tm_finishSend := Some (70 * Second)\<rparr>"
  let ?c = "?f\<lparr>tm_phase := AwaitRecv, tm_now := 90 * Second, tm_cancelled := True, tm_g := sample_impl\<lparr>g_closed := True\<rparr>\<rparr>"
  note d = run_started_def tm0_def Second_def run_answered_def
  from go_reach [OF run_answered_reach go_step.finish_send] have "reachable sample_init (tm_step sample_run) ?f" by (simp add: d)
  from main_reach [OF this main_step.select_finished]
  have "reachable sample_init (tm_step sample_run) (?f\<lparr>tm_phase := Draining (70 * Second)\<rparr>)" by (simp add: d)
  from go_reach [OF this go_step.tick, of "85 * Second"]
  have "reachable sample_init (tm_step sample_run) (?f\<lparr>tm_phase := Draining (70 * Second), tm_now := 85 * Second\<rparr>)" by (simp add: d)
  from main_reach [OF this main_step.drained]
  have "reachable sample_init (tm_step sample_run)
      (?f\<lparr>tm_phase := Closing (85 * Second), tm_cancelled := True, tm_now := 85 * Second\<rparr>)" by (simp add: d)
  from go_reach [OF this go_step.tick, of "90 * Second"]
  have "reachable sample_init (tm_step sample_run)
      (?f\<lparr>tm_phase := Closing (85 * Second), tm_cancelled := True, tm_now := 90 * Second\<rparr>)" by (simp add: d)
  from main_reach [OF this main_step.close_gateway] have "reachable sample_init (tm_step sample_run) ?c" by (simp add: d gw_Close_def)
  from go_reach [OF this go_step.write_end [where c' = "tm_client run_finished"]]
  have "reachable sample_init (tm_step sample_run) (?c\<lparr>tm_client := tm_client run_finished, tm_finishRecv := True\<rparr>)"
    using late_write
    by (simp add: run_answered_def run_started_def tm0_def sample_run_def run_finished_def ResponseChan_recv_def register_def
        newGatewayImpl_def fifo_def)
  from main_reach [OF this main_step.finish] show ?thesis by (simp add: d run_finished_def)
qed

theorem finished_run_accounts_witness:
  "tm_phase run_finished = Finished \<and> last (cl_output (tm_client run_finished)) = summary_line 1 0 \<and>
   size (tm_trace run_finished) = 1 \<and> in_gateway sample_run run_finished = {#}"
proof -
  have "chann_laws (re_RQ sample_run)" "chann_laws (re_RS sample_run)" by (simp_all add: sample_run_def fifo_laws)
  from finished_run_accounts [OF this run_finished_reach] show ?thesis
    by (simp add: run_finished_def run_answered_def run_started_def tm0_def late_res_def new_Response_def)
qed

end
