(* ===== verification/Handler.thy ===== *)
theory Handler
  imports Extern
begin

text \<open>
  \<open>src/pkg/workload/handler\<close>: the function that runs inside a workload pod. \<open>handler.go\<close> spends
  the requested runtime by spinning or sleeping and reads its configuration from the
  environment; \<open>server.go\<close> is the gRPC service around it.

  Runtimes are 32-bit words as in the protocol. The package variables are the record
  \<open>handler_vars\<close>; clocks, the environment, the host name and the results of the network calls
  are inputs. The square-root instruction is the parameter \<open>SQRTSD\<close>; what the model counts is
  how often it is executed.
\<close>

section \<open>strconv.Atoi\<close>

definition is_digit :: "char \<Rightarrow> bool" where
  "is_digit c \<longleftrightarrow> 48 \<le> (of_char c :: nat) \<and> of_char c < (58 :: nat)"

text \<open>An optional sign, then at least one decimal digit, and the value fits into 64 bits.\<close>

definition Atoi :: "string \<Rightarrow> int option" where
  "Atoi s =
     (let neg = (case s of c # _ \<Rightarrow> c = CHR ''-'' | [] \<Rightarrow> False);
          ds = (case s of c # r \<Rightarrow> if c = CHR ''-'' \<or> c = CHR ''+'' then r else s | [] \<Rightarrow> s);
          v = (if neg then - int (atoi_nat ds) else int (atoi_nat ds))
      in if ds = [] \<or> \<not> list_all is_digit ds then None
         else if - (2 ^ 63) \<le> v \<and> v < 2 ^ 63 then Some v else None)"

section \<open>handler.go\<close>

definition EXEC_UNIT :: nat where "EXEC_UNIT = 100"

datatype FunctionType = TraceFunction | SleepFunction

record handler_vars =
  hv_hostname :: string
  hv_funcType :: FunctionType
  hv_iterationMultiplier :: int

definition handler_vars0 :: handler_vars where
  "handler_vars0 = \<lparr> hv_hostname = [], hv_funcType = TraceFunction, hv_iterationMultiplier = 102 \<rparr>"

text \<open>Loops that run the instruction; \<open>n\<close> counts its executions.\<close>

fun sqrt_loop :: "('d \<Rightarrow> 'd) \<Rightarrow> 'd \<Rightarrow> nat \<Rightarrow> 'd \<Rightarrow> nat \<Rightarrow> 'd \<times> nat" where
  "sqrt_loop SQRTSD ten 0 tmp n = (tmp, n)"
| "sqrt_loop SQRTSD ten (Suc i) tmp n = sqrt_loop SQRTSD ten i (SQRTSD ten) (Suc n)"

definition takeSqrts :: "(f64 \<Rightarrow> f64) \<Rightarrow> nat \<Rightarrow> f64 \<times> nat" where
  "takeSqrts SQRTSD n = sqrt_loop SQRTSD (Fin 10) EXEC_UNIT (Fin 0) n"

fun spin_loop :: "(f64 \<Rightarrow> f64) \<Rightarrow> nat \<Rightarrow> nat \<Rightarrow> nat" where
  "spin_loop SQRTSD 0 n = n"
| "spin_loop SQRTSD (Suc i) n = spin_loop SQRTSD i (snd (takeSqrts SQRTSD n))"

definition busySpin :: "(f64 \<Rightarrow> f64) \<Rightarrow> handler_vars \<Rightarrow> 32 word \<Rightarrow> nat \<Rightarrow> nat" where
  "busySpin SQRTSD v runtimeMilliSec n =
     (let totalIterations = int64 (hv_iterationMultiplier v * uint runtimeMilliSec)
      in spin_loop SQRTSD (nat totalIterations) n)"

definition timeConsumedMilliSec :: "time \<Rightarrow> time \<Rightarrow> 32 word" where
  "timeConsumedMilliSec now start = word_of_int (d_Milliseconds (t_Since now start))"

definition TraceFunctionExecution ::
  "(f64 \<Rightarrow> f64) \<Rightarrow> handler_vars \<Rightarrow> time \<Rightarrow> time \<Rightarrow> 32 word \<Rightarrow> nat \<Rightarrow> string \<times> nat" where
  "TraceFunctionExecution SQRTSD v now start requestedMilliSec n =
     (let consumed = timeConsumedMilliSec now start
      in if consumed < requestedMilliSec then
           (let rest = requestedMilliSec - consumed
            in (''OK - '' @ hv_hostname v, if rest > 0 then busySpin SQRTSD v rest n else n))
         else ([], n))"

text \<open>The second component is the argument of \<open>time.Sleep\<close>, if it is called.\<close>

definition EmptyFunctionExecution :: "handler_vars \<Rightarrow> time \<Rightarrow> time \<Rightarrow> 32 word \<Rightarrow> string \<times> duration option" where
  "EmptyFunctionExecution v now start requestedMilliSec =
     (let consumed = timeConsumedMilliSec now start
      in if consumed < requestedMilliSec then
           (let rest = requestedMilliSec - consumed
            in (''OK - EMPTY - '' @ hv_hostname v, if rest > 0 then Some (int64 (uint rest * Millisecond)) else None))
         else ([], None))"

definition readEnvironmentalVariables ::
  "(string \<Rightarrow> string option) \<Rightarrow> apierr + string \<Rightarrow> handler_vars \<Rightarrow> handler_vars" where
  "readEnvironmentalVariables LookupEnv Hostname v =
     (let v1 = (case LookupEnv ''ITERATIONS_MULTIPLIER'' of
                  None \<Rightarrow> v
                | Some s \<Rightarrow> (case Atoi s of Some intv \<Rightarrow> v\<lparr>hv_iterationMultiplier := intv\<rparr> | None \<Rightarrow> v));
          v2 = (case LookupEnv ''FUNCTION_TYPE'' of
                  None \<Rightarrow> v1
                | Some s \<Rightarrow> if s = ''trace'' then v1\<lparr>hv_funcType := TraceFunction\<rparr>
                            else if s = ''sleep'' then v1\<lparr>hv_funcType := SleepFunction\<rparr> else v1)
      in case Hostname of
           Inl err \<Rightarrow> v2\<lparr>hv_hostname := ''Unknown host''\<rparr>
         | Inr h \<Rightarrow> v2\<lparr>hv_hostname := h\<rparr>)"

section \<open>server.go\<close>

record FaasReply =
  fr_Message :: string
  fr_DurationMicroSec :: "32 word"

record funcServer = fs_mode :: FunctionType

definition newFuncServer :: "FunctionType \<Rightarrow> funcServer" where "newFuncServer mode = \<lparr> fs_mode = mode \<rparr>"

text \<open>\<open>Execute\<close> with the three clock readings: at entry, in the function, at the end. Beside the reply
  the model gives what was done: the count of instructions and the sleep.\<close>

definition srv_Execute ::
  "(f64 \<Rightarrow> f64) \<Rightarrow> handler_vars \<Rightarrow> funcServer \<Rightarrow> time \<Rightarrow> time \<Rightarrow> time \<Rightarrow> 32 word \<Rightarrow> nat \<Rightarrow> FaasReply \<times> nat \<times> duration option" where
  "srv_Execute SQRTSD v s start t1 t2 runtime n =
     (let (msg, n', sl) =
            (if fs_mode s = TraceFunction
             then let (m, n') = TraceFunctionExecution SQRTSD v t1 start runtime n in (m, n', None)
             else let (m, sl) = EmptyFunctionExecution v t1 start runtime in (m, n, sl))
      in (\<lparr> fr_Message = msg, fr_DurationMicroSec = word_of_int (d_Microseconds (t_Since t2 start)) \<rparr>, n', sl))"

text \<open>\<open>StartGRPCServer\<close>: \<open>listen\<close> and \<open>served\<close> are the results of \<open>net.Listen\<close> and of \<open>Serve\<close>, which
  returns without an error after a graceful stop.\<close>

definition StartGRPCServer ::
  "(string \<Rightarrow> string option) \<Rightarrow> apierr + string \<Rightarrow> apierr option \<Rightarrow> (funcServer \<Rightarrow> apierr option) \<Rightarrow> handler_vars \<Rightarrow> handler_vars go" where
  "StartGRPCServer LookupEnv Hostname listen served v =
     (let v' = readEnvironmentalVariables LookupEnv Hostname v
      in case listen of
           Some err \<Rightarrow> Fatal (''failed to listen: '' @ err_Error err)
         | None \<Rightarrow>
             (case served (newFuncServer (hv_funcType v')) of
                Some err \<Rightarrow> Fatal (''Failed to serve: '' @ err_Error err)
              | None \<Rightarrow> Ret v'))"

definition workload_main ::
  "(string \<Rightarrow> string option) \<Rightarrow> apierr + string \<Rightarrow> apierr option \<Rightarrow> (funcServer \<Rightarrow> apierr option) \<Rightarrow> handler_vars go" where
  "workload_main LookupEnv Hostname listen served = StartGRPCServer LookupEnv Hostname listen served handler_vars0"

section \<open>Loops and clocks\<close>

lemma sqrt_loop_count: "snd (sqrt_loop SQRTSD ten i tmp n) = n + i"
  by (induction i arbitrary: tmp n) auto

lemma takeSqrts_count [simp]: "snd (takeSqrts SQRTSD n) = n + EXEC_UNIT"
  by (simp add: takeSqrts_def sqrt_loop_count)

lemma spin_loop_count [simp]: "spin_loop SQRTSD i n = n + i * EXEC_UNIT"
  by (induction i arbitrary: n) auto

lemma busySpin_count:
  assumes "0 \<le> hv_iterationMultiplier v" and "hv_iterationMultiplier v < 2 ^ 31"
  shows "busySpin SQRTSD v r n = n + nat (hv_iterationMultiplier v * uint r) * EXEC_UNIT"
proof -
  have "uint r < 2 ^ 32" using uint_bounded [of r] by simp
  then have "hv_iterationMultiplier v * uint r < 2 ^ 31 * 2 ^ 32"
    using assms by (intro mult_strict_mono') auto
  then have "int64 (hv_iterationMultiplier v * uint r) = hv_iterationMultiplier v * uint r"
    using assms(1) by (intro int64_id) (auto intro: order_trans [of _ 0])
  then show ?thesis by (simp add: busySpin_def)
qed

text \<open>Whole milliseconds since the start, while they fit into a word.\<close>

lemma consumed_uint:
  assumes "start \<le> now" and "now - start < 2 ^ 32 * Millisecond"
  shows "uint (timeConsumedMilliSec now start) = (now - start) div Millisecond"
proof -
  have "t_Since now start = now - start"
    using assms by (simp add: t_Since_def t_Sub_def min_duration_def max_duration_def Millisecond_def)
  moreover have "(now - start) div Millisecond < 2 ^ 32"
    using assms by (simp add: Millisecond_def)
  moreover have "0 \<le> (now - start) div Millisecond" using assms(1) by (simp add: Millisecond_def)
  ultimately show ?thesis
    using assms(1) by (simp add: timeConsumedMilliSec_def d_Milliseconds_def sdiv_nonneg Millisecond_def uint_word_of_int)
qed

lemma uint_minus_less: "a < b \<Longrightarrow> uint (b - a) = uint b - uint a" for a b :: "'a :: len word"
  using uint_sub_lem [of a b] by (simp add: word_less_def)

lemma is_digit_itoa: "list_all is_digit (itoa_nat n)"
  using itoa_nat_chars by (auto simp: list_all_iff is_digit_def)

lemma itoa_nat_nonempty: "itoa_nat n \<noteq> []"
  by (subst itoa_nat.simps) simp

lemma Atoi_itoa: "- (2 ^ 63) \<le> i \<Longrightarrow> i < 2 ^ 63 \<Longrightarrow> Atoi (itoa i) = Some i"
proof (cases "i < 0")
  case True
  assume "- (2 ^ 63) \<le> i" "i < 2 ^ 63"
  with True show ?thesis by (simp add: Atoi_def itoa_def itoa_nat_nonempty is_digit_itoa Let_def)
next
  case False
  assume i: "- (2 ^ 63) \<le> i" "i < 2 ^ 63"
  obtain c r where cr: "itoa_nat (nat i) = c # r" using itoa_nat_nonempty by (cases "itoa_nat (nat i)") auto
  have c: "c \<noteq> CHR ''-''" "c \<noteq> CHR ''+''"
    using itoa_nat_chars [of c "nat i"] cr by auto
  have d: "list_all is_digit (c # r)" "atoi_nat (c # r) = nat i" using is_digit_itoa [of "nat i"] atoi_itoa [of "nat i"] cr by simp_all
  then show ?thesis using False i c cr by (simp add: Atoi_def itoa_def Let_def)
qed

section \<open>Properties\<close>

text \<open>C32: a sleeping function takes the requested runtime. If the function is reached before the whole
  milliseconds of the requested runtime have been consumed, it sleeps for the rest, so that sleep and
  consumed milliseconds add up to the runtime, and answers OK; otherwise it does not sleep and the
  message is empty. When sleeping lasts at least as long as asked, the call takes at least the requested
  runtime. The reported duration is the elapsed time in microseconds modulo \<open>2 ^ 32\<close>; the consumed milliseconds are taken to
  fit 32 bits and the elapsed time to fit a duration.\<close>

theorem sleep_serves_runtime:
  assumes "fs_mode s = SleepFunction" and "start \<le> t1" and "t1 - start < 2 ^ 32 * Millisecond"
    and "t1 \<le> t2" and "t2 - start \<le> max_duration"
  shows "let consumed = (t1 - start) div Millisecond; d = (uint runtime - consumed) * Millisecond;
             (reply, n', sl) = srv_Execute SQRTSD v s start t1 t2 runtime n
         in n' = n \<and>
            sl = (if consumed < uint runtime then Some d else None) \<and>
            fr_Message reply = (if consumed < uint runtime then ''OK - EMPTY - '' @ hv_hostname v else []) \<and>
            uint (fr_DurationMicroSec reply) = (t2 - start) div Microsecond mod 2 ^ 32 \<and>
            (t1 + d \<le> t2 \<longrightarrow> uint runtime * 1000 \<le> (t2 - start) div Microsecond)"
proof -
  let ?c = "timeConsumedMilliSec t1 start" and ?k = "(t1 - start) div Millisecond"
  let ?d = "(uint runtime - ?k) * Millisecond"
  have c: "uint ?c = ?k" by (rule consumed_uint [OF assms(2,3)])
  have lt: "?c < runtime \<longleftrightarrow> ?k < uint runtime" by (simp add: word_less_def c)
  have i64: "int64 (uint w * Millisecond) = uint w * Millisecond" for w :: "32 word"
  proof (rule int64_id)
    have "0 \<le> uint w * Millisecond" by (simp add: Millisecond_def)
    then show "- (2 ^ 63) \<le> uint w * Millisecond" by (rule order_trans [rotated]) simp
    show "uint w * Millisecond < 2 ^ 63" using uint_bounded [of w] by (simp add: Millisecond_def)
  qed
  have sleep: "EmptyFunctionExecution v t1 start runtime =
      (if ?k < uint runtime then (''OK - EMPTY - '' @ hv_hostname v, Some ?d) else ([], None))"
  proof (cases "?c < runtime")
    case True
    have rest: "uint (runtime - ?c) = uint runtime - ?k" using uint_minus_less [OF True] c by simp
    moreover have "0 < runtime - ?c" using True rest lt by (simp add: word_less_def)
    ultimately show ?thesis using True lt i64 [of "runtime - ?c"] by (simp add: EmptyFunctionExecution_def Let_def)
  qed (use lt in \<open>simp add: EmptyFunctionExecution_def Let_def\<close>)
  have "t_Since t2 start = t2 - start" "0 \<le> t2 - start"
    using assms(2,4,5) by (simp_all add: t_Since_def t_Sub_def min_duration_def)
  then have dur: "uint (word_of_int (d_Microseconds (t_Since t2 start)) :: 32 word) = (t2 - start) div Microsecond mod 2 ^ 32"
    by (simp add: d_Microseconds_def sdiv_nonneg Microsecond_def uint_word_of_int)
  have "uint runtime * 1000 \<le> (t2 - start) div Microsecond" if "t1 + ?d \<le> t2"
  proof -
    have "?k * Millisecond \<le> t1 - start" by (simp add: Millisecond_def)
    with that have "uint runtime * Millisecond \<le> t2 - start" unfolding left_diff_distrib by linarith
    then show ?thesis by (simp add: Microsecond_def Millisecond_def)
  qed
  then show ?thesis using assms(1) by (simp add: srv_Execute_def sleep dur Let_def)
qed

definition sample_vars :: handler_vars where
  "sample_vars = \<lparr> hv_hostname = ''h'', hv_funcType = SleepFunction, hv_iterationMultiplier = 102 \<rparr>"

theorem sleep_serves_runtime_witness:
  "\<exists>reply. srv_Execute (\<lambda>x. x) sample_vars \<lparr> fs_mode = SleepFunction \<rparr> 5 1000005 50000007 50 0 = (reply, 0, Some 49000000) \<and>
     50 * 1000 \<le> uint (fr_DurationMicroSec reply)"
proof -
  let ?x = "srv_Execute (\<lambda>x. x) sample_vars \<lparr> fs_mode = SleepFunction \<rparr> 5 1000005 50000007 50 0"
  obtain reply n' sl where x: "?x = (reply, n', sl)" by (cases ?x)
  from sleep_serves_runtime [of "\<lparr> fs_mode = SleepFunction \<rparr>" 5 1000005 50000007 50 "\<lambda>x. x" sample_vars 0, unfolded x]
  show ?thesis using x by (simp add: Millisecond_def Microsecond_def max_duration_def Let_def)
qed

text \<open>A spinning function does work in proportion to the time left. With a non-negative
  multiplier below 2 to the 31 (the default is 102) no product overflows: the instruction is
  executed 100 times per multiplier and remaining millisecond, and the answer is OK; when the
  requested time is already over, nothing is executed and the message is empty.\<close>

theorem spin_work:
  assumes "0 \<le> hv_iterationMultiplier v" and "hv_iterationMultiplier v < 2 ^ 31"
    and "start \<le> now" and "now - start < 2 ^ 32 * Millisecond"
  shows "TraceFunctionExecution SQRTSD v now start runtime n =
     (let consumed = (now - start) div Millisecond in
      if consumed < uint runtime
      then (''OK - '' @ hv_hostname v, n + nat (hv_iterationMultiplier v * (uint runtime - consumed)) * 100)
      else ([], n))"
proof -
  let ?c = "timeConsumedMilliSec now start"
  note c = consumed_uint [OF assms(3,4)]
  show ?thesis
  proof (cases "?c < runtime")
    case True
    have "uint (runtime - ?c) = uint runtime - (now - start) div Millisecond" using uint_minus_less [OF True] c by simp
    with True c show ?thesis
      by (simp add: TraceFunctionExecution_def busySpin_count [OF assms(1,2)] EXEC_UNIT_def Let_def word_less_def)
  next
    case False
    with c show ?thesis by (simp add: TraceFunctionExecution_def Let_def word_less_def)
  qed
qed

theorem spin_work_witness:
  "TraceFunctionExecution (\<lambda>x. x) sample_vars 3000000 1000000 5 0 = (''OK - h'', 30600)"
proof -
  have "0 \<le> hv_iterationMultiplier sample_vars" "hv_iterationMultiplier sample_vars < 2 ^ 31" by (simp_all add: sample_vars_def)
  from spin_work [OF this, of 1000000 3000000 "\<lambda>x. x" 5 0] show ?thesis by (simp add: sample_vars_def Millisecond_def Let_def)
qed

text \<open>The environment configures the handler. A multiplier printed in decimal is read back
  exactly, for every 64-bit value; the two function types are recognised, the host name is
  taken over, and the server that is started runs in the configured mode.\<close>

theorem environment_roundtrip:
  assumes "- (2 ^ 63) \<le> m" and "m < 2 ^ 63"
    and "LookupEnv ''ITERATIONS_MULTIPLIER'' = Some (itoa m)"
    and "LookupEnv ''FUNCTION_TYPE'' = Some (case mode of TraceFunction \<Rightarrow> ''trace'' | SleepFunction \<Rightarrow> ''sleep'')"
    and "served \<lparr> fs_mode = mode \<rparr> = None"
  shows "workload_main LookupEnv (Inr host) None served =
     Ret \<lparr> hv_hostname = host, hv_funcType = mode, hv_iterationMultiplier = m \<rparr>"
  using assms
  by (cases mode)
    (simp_all add: workload_main_def StartGRPCServer_def readEnvironmentalVariables_def Atoi_itoa newFuncServer_def handler_vars0_def)

theorem environment_roundtrip_witness:
  "workload_main [''ITERATIONS_MULTIPLIER'' \<mapsto> itoa (- 7), ''FUNCTION_TYPE'' \<mapsto> ''sleep''] (Inr ''h'') None (\<lambda>_. None) =
     Ret \<lparr> hv_hostname = ''h'', hv_funcType = SleepFunction, hv_iterationMultiplier = - 7 \<rparr>"
  by (rule environment_roundtrip) simp_all

end
