(* ===== verification/Bench.thy ===== *)
theory Bench
  imports Dispatcher
begin

text \<open>
  What the microbenchmarks under \<open>src/experiments/microbench\<close> share: \<open>sync.WaitGroup\<close>, the 90th
  percentile of observed times, the pods per target, and waiting for the ReplicaSets.

  A wait group is its counter of 32 bits; \<open>Add\<close> and \<open>Done\<close> panic when it is negative. A \<open>Wait\<close> that is reached with a
  positive counter and no further events is \<open>Blocked\<close>.
\<close>

section \<open>sync.WaitGroup\<close>

definition wg_Add :: "int \<Rightarrow> int \<Rightarrow> int go" where
  "wg_Add n c = (let v = int32 (c + n) in if v < 0 then Panic (PanicMsg ''sync: negative WaitGroup counter'') else Ret v)"

definition wg_Done :: "int \<Rightarrow> int go" where "wg_Done c = wg_Add (- 1) c"

lemma wg_Add_new: "0 \<le> n \<Longrightarrow> n < 2 ^ 31 \<Longrightarrow> wg_Add n 0 = Ret n"
  by (simp add: wg_Add_def int32_id)

lemma wg_Done_simps [simp]:
  "0 < c \<Longrightarrow> c < 2 ^ 31 \<Longrightarrow> wg_Done c = Ret (c - 1)"
  "wg_Done 0 = Panic (PanicMsg ''sync: negative WaitGroup counter'')"
  by (simp_all add: wg_Done_def wg_Add_def int32_id)

section \<open>Percentile\<close>

text \<open>The common end of both \<open>Since\<close> methods: sort, take the element at \<open>(90*len)/100\<close>.\<close>

definition percentile90 :: "time list \<Rightarrow> time \<Rightarrow> duration go" where
  "percentile90 seenTimes start =
     (if seenTimes = [] then Ret 0
      else go_bind (go_index (sort seenTimes) ((90 * int (length seenTimes)) sdiv 100)) (\<lambda>percentile.
             Ret (t_Sub percentile start)))"

lemma sorted_le_prefix:
  assumes "sorted xs" and "i < length xs"
  shows "Suc i \<le> length (filter (\<lambda>u. u \<le> xs ! i) xs)" and "length (filter (\<lambda>u. u < xs ! i) xs) \<le> i"
proof -
  have "filter (\<lambda>u. u \<le> xs ! i) (take (Suc i) xs) = take (Suc i) xs"
    using assms by (auto simp: filter_id_conv in_set_conv_nth sorted_nth_mono)
  then have "length (filter (\<lambda>u. u \<le> xs ! i) (take (Suc i) xs)) = Suc i" using assms(2) by simp
  moreover have "length (filter P (take (Suc i) xs)) \<le> length (filter P xs)" for P
    using append_take_drop_id [of "Suc i" xs] by (metis filter_append le_add1 length_append)
  ultimately show "Suc i \<le> length (filter (\<lambda>u. u \<le> xs ! i) xs)" by metis
  have "filter (\<lambda>u. u < xs ! i) (drop i xs) = []"
    using assms by (auto simp: filter_empty_conv in_set_conv_nth not_less sorted_nth_mono)
  then have "filter (\<lambda>u. u < xs ! i) xs = filter (\<lambda>u. u < xs ! i) (take i xs)"
    by (metis append_Nil2 append_take_drop_id filter_append)
  then show "length (filter (\<lambda>u. u < xs ! i) xs) \<le> i"
    by (metis length_filter_le length_take min.cobounded2 order_trans)
qed

lemma length_filter_sort: "length (filter P (sort xs)) = length (filter P xs)"
  by (metis mset_filter mset_sort size_mset)

lemma nine_tenths: "0 < n \<Longrightarrow> 9 * n div 10 < n" for n :: nat
  by (simp add: div_less_iff_less_mult)

lemma percentile90_Ret: "ts \<noteq> [] \<Longrightarrow> \<exists>d. percentile90 ts start = Ret d"
proof -
  assume "ts \<noteq> []"
  then have "9 * length ts div 10 < length ts" by (simp add: nine_tenths)
  moreover have "(90 * int (length ts)) sdiv 100 = int (9 * length ts div 10)" by (subst sdiv_nonneg) (simp_all add: zdiv_int)
  ultimately show ?thesis by (simp add: percentile90_def)
qed

text \<open>The reported percentile is one. For a non-empty list the index is in range, and the result
  is measured from one of the observed times such that more than nine tenths of the
  observations are not later, and at most nine tenths are earlier.\<close>

theorem percentile90_correct:
  assumes "ts \<noteq> []"
  shows "\<exists>t \<in> set ts. percentile90 ts start = Ret (t_Sub t start) \<and>
     9 * length ts < 10 * length (filter (\<lambda>u. u \<le> t) ts) \<and> 10 * length (filter (\<lambda>u. u < t) ts) \<le> 9 * length ts"
proof -
  define i where "i = 9 * length ts div 10"
  have i: "i < length (sort ts)" "9 * length ts < 10 * Suc i" "10 * i \<le> 9 * length ts"
    using assms nine_tenths [of "length ts"] dividend_less_times_div [of 10 "9 * length ts"]
      times_div_less_eq_dividend [of 10 "9 * length ts"] by (simp_all add: i_def)
  have "(90 * int (length ts)) sdiv 100 = 90 * int (length ts) div 100" by (rule sdiv_nonneg) simp_all
  also have "\<dots> = int i" by (simp add: i_def zdiv_int)
  finally have idx: "percentile90 ts start = Ret (t_Sub (sort ts ! i) start)"
    using assms i(1) by (simp add: percentile90_def)
  let ?t = "sort ts ! i"
  note b = sorted_le_prefix [OF sorted_sort i(1), unfolded length_filter_sort]
  have "9 * length ts < 10 * length (filter (\<lambda>u. u \<le> ?t) ts)" by (rule less_le_trans [OF i(2) mult_le_mono2 [OF b(1)]])
  moreover have "10 * length (filter (\<lambda>u. u < ?t) ts) \<le> 9 * length ts" by (rule order_trans [OF mult_le_mono2 [OF b(2)] i(3)])
  moreover have "?t \<in> set ts" using nth_mem [OF i(1)] by simp
  ultimately show ?thesis using idx by blast
qed

theorem percentile90_correct_witness:
  "\<exists>t. percentile90 [30, 10, 20] 5 = Ret (t_Sub t 5) \<and> 27 < 10 * length (filter (\<lambda>u. u \<le> t) [30, 10, 20])"
proof -
  have n: "9 * length [30, 10, 20 :: int] = 27" and ne: "[30, 10, 20 :: int] \<noteq> []" by simp_all
  from percentile90_correct [OF ne, of 5, unfolded n] show ?thesis by blast
qed

section \<open>Targets\<close>

text \<open>\<open>nPods / len(targets.Items)\<close>, reset to 1 if it is 0; the lists are not empty here.\<close>

definition nPodsPerTarget :: "int \<Rightarrow> nat \<Rightarrow> int" where
  "nPodsPerTarget nPods n = (let q = nPods sdiv int n in if q = 0 then 1 else q)"

lemma nPodsPerTarget_nonneg: "0 \<le> nPods \<Longrightarrow> 0 < n \<Longrightarrow> nPodsPerTarget nPods n = max 1 (nPods div int n)"
  by (auto simp: nPodsPerTarget_def sdiv_nonneg Let_def pos_imp_zdiv_nonneg_iff max_def
      intro: antisym dest: pos_imp_zdiv_nonneg_iff [THEN iffD2, rotated])

record replicaset =
  rs_Meta :: objmeta
  rs_HasController :: bool
  rs_Replicas :: int
  rs_ReadyReplicas :: int

text \<open>The condition of the polling loop: the list of ReplicaSets is the situation it meets.\<close>

definition waitForReplicaSets ::
  "nat \<Rightarrow> apierr + replicaset list \<Rightarrow> unit \<Rightarrow> ((apierr + bool) \<times> unit) go" where
  "waitForReplicaSets nTargets listed u =
     (case listed of
        Inl err \<Rightarrow> Fatal (''Error listing ReplicaSets: '' @ err_Error err)
      | Inr rsList \<Rightarrow>
          (case find (\<lambda>rs. \<not> rs_HasController rs) rsList of
             Some rs \<Rightarrow> Fatal (''ReplicaSet '' @ om_Namespace (rs_Meta rs) @ ''/'' @ om_Name (rs_Meta rs) @ '' has no owner'')
           | None \<Rightarrow> Ret (Inr (length rsList = nTargets), ())))"

text \<open>How many of the parallel calls succeeded: each success adds 1 to a 32-bit counter.\<close>

definition count_ok :: "apierr option list \<Rightarrow> int" where
  "count_ok rs = foldl (\<lambda>n r. if r = None then int32 (n + 1) else n) 0 rs"

lemma count_ok_length:
  assumes "int (length rs) < 2 ^ 31"
  shows "count_ok rs = int (length (filter (\<lambda>r. r = None) rs))"
proof -
  have "foldl (\<lambda>n r. if r = None then int32 (n + 1) else n) a rs = a + int (length (filter (\<lambda>r. r = None) rs))"
    if "0 \<le> a" "a + int (length rs) < 2 ^ 31" for a
    using that by (induction rs arbitrary: a) (auto simp: int32_id)
  from this [of 0] assms show ?thesis by (simp add: count_ok_def)
qed

text \<open>Calls that nobody waits for: the answers that are there when the counter is read.\<close>

fun returned :: "'a option list \<Rightarrow> 'a list" where
  "returned [] = []"
| "returned (None # rs) = returned rs"
| "returned (Some r # rs) = r # returned rs"

lemma length_returned: "length (returned rs) \<le> length rs"
  by (induction rs rule: returned.induct) auto

lemma count_ok_returned:
  assumes "int (length rs) < 2 ^ 31"
  shows "count_ok (returned rs) = int (length (filter (\<lambda>r. r = Some None) rs))"
proof -
  have "length (filter (\<lambda>r. r = None) (returned rs)) = length (filter (\<lambda>r. r = Some None) rs)"
    by (induction rs rule: returned.induct) auto
  moreover have "int (length (returned rs)) < 2 ^ 31" using assms length_returned [of rs] by linarith
  ultimately show ?thesis by (simp add: count_ok_length)
qed

section \<open>Pod events\<close>

definition pod_key :: "pod \<Rightarrow> string" where
  "pod_key p = om_Namespace (pod_Meta p) @ ''/'' @ om_Name (pod_Meta p)"

text \<open>The events a controller watching pods hands to its handler, with the object that the event
  filter looks at and the new state of the pod, if there is one.\<close>

datatype pod_event = CreateEvent pod | UpdateEvent pod pod | DeleteEvent pod | GenericEvent pod

fun ev_object :: "pod_event \<Rightarrow> pod" where
  "ev_object (CreateEvent p) = p" | "ev_object (UpdateEvent old new) = new"
| "ev_object (DeleteEvent p) = p" | "ev_object (GenericEvent p) = p"

fun ev_new :: "pod_event \<Rightarrow> pod option" where
  "ev_new (CreateEvent p) = Some p" | "ev_new (UpdateEvent old new) = Some new"
| "ev_new (DeleteEvent p) = None" | "ev_new (GenericEvent p) = None"

section \<open>Counting monitors\<close>

text \<open>The contract the two pod monitors share: an event hits at most one new key; hitting one takes
  one from the wait group, which panics when its counter is zero; other events change nothing
  that counts. \<open>cfg\<close> is the part of the state that says which events hit, \<open>good\<close> the events that
  may occur. What follows for a list of events is proved once, here.\<close>

locale counting_monitor =
  fixes deliver :: "'e \<Rightarrow> 's \<Rightarrow> 's go" and good :: "'e \<Rightarrow> bool" and ok :: "'s \<Rightarrow> bool"
    and hits :: "'c \<Rightarrow> 'e \<Rightarrow> 'k set" and cfg :: "'s \<Rightarrow> 'c" and counted :: "'s \<Rightarrow> 'k set" and counter :: "'s \<Rightarrow> int"
  assumes counter_nonneg: "ok s \<Longrightarrow> 0 \<le> counter s"
    and finite_hits: "finite (hits c e)"
    and skip: "ok s \<Longrightarrow> good e \<Longrightarrow> hits (cfg s) e \<subseteq> counted s \<Longrightarrow>
      \<exists>s'. deliver e s = Ret s' \<and> ok s' \<and> cfg s' = cfg s \<and> counted s' = counted s \<and> counter s' = counter s"
    and over: "ok s \<Longrightarrow> good e \<Longrightarrow> \<not> hits (cfg s) e \<subseteq> counted s \<Longrightarrow> counter s = 0 \<Longrightarrow>
      deliver e s = Panic (PanicMsg ''sync: negative WaitGroup counter'')"
    and hit: "ok s \<Longrightarrow> good e \<Longrightarrow> \<not> hits (cfg s) e \<subseteq> counted s \<Longrightarrow> 0 < counter s \<Longrightarrow>
      \<exists>s' k. deliver e s = Ret s' \<and> ok s' \<and> cfg s' = cfg s \<and> hits (cfg s) e - counted s = {k} \<and>
        counted s' = insert k (counted s) \<and> counter s' = counter s - 1"
begin

lemma run_effect:
  assumes "ok s" and "\<And>e. e \<in> set es \<Longrightarrow> good e"
  shows "let R = (\<Union>e \<in> set es. hits (cfg s) e) - counted s in
    if int (card R) \<le> counter s
    then \<exists>s'. go_fold deliver es s = Ret s' \<and> ok s' \<and> cfg s' = cfg s \<and> counted s' = counted s \<union> R \<and> counter s' = counter s - int (card R)
    else go_fold deliver es s = Panic (PanicMsg ''sync: negative WaitGroup counter'')"
  using assms
proof (induction es arbitrary: s)
  case Nil
  then show ?case using counter_nonneg by auto
next
  case (Cons e es)
  let ?R = "\<lambda>s es. (\<Union>e \<in> set es. hits (cfg s) e) - counted s"
  have g: "good e" "\<And>e. e \<in> set es \<Longrightarrow> good e" using Cons.prems(2) by simp_all
  have fin: "finite (?R s es)" for s es by (simp add: finite_hits)
  consider (none) "hits (cfg s) e \<subseteq> counted s" | (full) "\<not> hits (cfg s) e \<subseteq> counted s" "counter s = 0"
    | (new) "\<not> hits (cfg s) e \<subseteq> counted s" "0 < counter s"
    using counter_nonneg [OF Cons.prems(1)] by linarith
  then show ?case
  proof cases
    case none
    from skip [OF Cons.prems(1) g(1) none] obtain s' where s': "deliver e s = Ret s'" "ok s'" "cfg s' = cfg s"
      "counted s' = counted s" "counter s' = counter s" by blast
    have "?R s (e # es) = ?R s' es" using none s' by auto
    with Cons.IH [OF s'(2) g(2)] s' show ?thesis by (simp add: Let_def cong: if_cong)
  next
    case full
    then have "?R s (e # es) \<noteq> {}" by auto
    then have "card (?R s (e # es)) \<noteq> 0" using card_0_eq [OF fin [of s "e # es"]] by blast
    with over [OF Cons.prems(1) g(1) full] full(2) show ?thesis by (simp add: Let_def del: set_simps UN_insert)
  next
    case new
    from hit [OF Cons.prems(1) g(1) new] obtain s' k where s': "deliver e s = Ret s'" "ok s'" "cfg s' = cfg s"
      "hits (cfg s) e - counted s = {k}" "counted s' = insert k (counted s)" "counter s' = counter s - 1" by blast
    have R: "?R s (e # es) = insert k (?R s' es)" "k \<notin> ?R s' es" using s' by auto
    then have card: "card (?R s (e # es)) = Suc (card (?R s' es))" using fin by (metis card_insert_disjoint)
    show ?thesis
    proof (cases "int (card (?R s' es)) \<le> counter s'")
      case True
      with Cons.IH [OF s'(2) g(2)] obtain t where t: "go_fold deliver es s' = Ret t" "ok t" "cfg t = cfg s'"
        "counted t = counted s' \<union> ?R s' es" "counter t = counter s' - int (card (?R s' es))" by (auto simp: Let_def)
      have "counted t = counted s \<union> ?R s (e # es)" unfolding R(1) t(4) s'(5) by auto
      then show ?thesis using True t s' card by (auto simp: Let_def simp del: set_simps UN_insert UN_simps)
    next
      case False
      with Cons.IH [OF s'(2) g(2)] have "go_fold deliver es s' = Panic (PanicMsg ''sync: negative WaitGroup counter'')"
        by (auto simp: Let_def)
      then show ?thesis using False s' card by (auto simp: Let_def simp del: set_simps UN_insert UN_simps)
    qed
  qed
qed

end

lemma poll_first:
  assumes "poll_laws P" and "\<And>e. e \<in> set es \<Longrightarrow> c e s = Ret (Inr False, s)" and "c e s = Ret (Inr True, s)"
  shows "P c (es @ [e]) s = Ret (None, s)"
  using assms(2) by (induction es) (simp_all add: poll_cons [OF assms(1)] assms(3))

end
