(* ===== verification/Bench_E2e.thy ===== *)
theory Bench_E2e
  imports Bench
begin

text \<open>
  \<open>src/experiments/microbench/e2e/common.go\<close>: the end-to-end benchmark. It scales the selected
  Deployments up and waits until as many pods as asked have been seen ready, each counted
  once, then reports the 90th percentile of the times at which they were first seen.

  All expectations share one wait group, the second component of the state; the expectations
  are reached through the shared map only, so writing one back under its key is the update of
  the object the map points to. \<open>e2e_deliver\<close> is the controller with its event filter.
\<close>

section \<open>Expectations\<close>

record e2e_Expectation = xp_seen :: "time smap"

definition e2e_NewExpectation :: e2e_Expectation where "e2e_NewExpectation = \<lparr> xp_seen = Map.empty \<rparr>"

definition e2e_Done :: "time \<Rightarrow> pod \<Rightarrow> e2e_Expectation \<Rightarrow> int \<Rightarrow> (bool \<times> e2e_Expectation \<times> int) go" where
  "e2e_Done now p s wg =
     (let key = pod_key p
      in case xp_seen s key of
           Some _ \<Rightarrow> Ret (False, s, wg)
         | None \<Rightarrow> go_bind (wg_Done wg) (\<lambda>wg'. Ret (True, s\<lparr>xp_seen := (xp_seen s)(key \<mapsto> now)\<rparr>, wg')))"

section \<open>Monitor\<close>

record 'm e2e_PodMonitor =
  em_selector :: string
  em_expectations :: 'm

definition e2e_NewPodMonitor :: "('m, e2e_Expectation) shared_map \<Rightarrow> string \<Rightarrow> 'm e2e_PodMonitor" where
  "e2e_NewPodMonitor S selector = \<lparr> em_selector = selector, em_expectations = sm_New S \<rparr>"

definition e2e_Watch :: "('m, e2e_Expectation) shared_map \<Rightarrow> string \<Rightarrow> 'm e2e_PodMonitor \<Rightarrow> 'm e2e_PodMonitor" where
  "e2e_Watch S key m = m\<lparr>em_expectations := sm_Set S (em_expectations m) key e2e_NewExpectation\<rparr>"

definition seen_times ::
  "('m, e2e_Expectation) shared_map \<Rightarrow> (e2e_Expectation smap \<Rightarrow> string list) \<Rightarrow> (time smap \<Rightarrow> string list) \<Rightarrow> 'm e2e_PodMonitor \<Rightarrow> time list" where
  "seen_times S rng1 rng2 m =
     (let M = sm_Inner S (em_expectations m)
      in concat (map (\<lambda>k. case M k of None \<Rightarrow> [] | Some x \<Rightarrow> map (\<lambda>pk. the (xp_seen x pk)) (rng2 (xp_seen x))) (rng1 M)))"

definition e2e_Since ::
  "('m, e2e_Expectation) shared_map \<Rightarrow> (e2e_Expectation smap \<Rightarrow> string list) \<Rightarrow> (time smap \<Rightarrow> string list) \<Rightarrow> time \<Rightarrow>
   'm e2e_PodMonitor \<Rightarrow> duration go" where
  "e2e_Since S rng1 rng2 start m = percentile90 (seen_times S rng1 rng2 m) start"

definition e2e_FilterEvent :: "string \<Rightarrow> objmeta \<Rightarrow> bool" where
  "e2e_FilterEvent selector obj \<longleftrightarrow> IsWorkload obj \<and> mget (om_Labels obj) ''workload'' = selector"

definition e2e_HandlePodEvent ::
  "('m, e2e_Expectation) shared_map \<Rightarrow> (pod \<Rightarrow> bool) \<Rightarrow> time \<Rightarrow> pod option \<Rightarrow> pod option \<Rightarrow> 'm e2e_PodMonitor \<times> int \<Rightarrow>
   ('m e2e_PodMonitor \<times> int) go" where
  "e2e_HandlePodEvent S ready now old new st =
     (case new of
        None \<Rightarrow> Ret st
      | Some p \<Rightarrow>
          if ready p then
            (let (m, wg) = st; key = KeyFromObject (pod_Meta p)
             in case sm_Get S (em_expectations m) key of
                  None \<Rightarrow> Ret st
                | Some x \<Rightarrow>
                    go_bind (e2e_Done now p x wg) (\<lambda>(_, x', wg').
                      Ret (m\<lparr>em_expectations := sm_Set S (em_expectations m) key x'\<rparr>, wg')))
          else Ret st)"

fun e2e_on_event ::
  "('m, e2e_Expectation) shared_map \<Rightarrow> (pod \<Rightarrow> bool) \<Rightarrow> time \<Rightarrow> pod_event \<Rightarrow> 'm e2e_PodMonitor \<times> int \<Rightarrow> ('m e2e_PodMonitor \<times> int) go" where
  "e2e_on_event S ready now (CreateEvent p) st = e2e_HandlePodEvent S ready now None (Some p) st"
| "e2e_on_event S ready now (UpdateEvent old new) st = e2e_HandlePodEvent S ready now (Some old) (Some new) st"
| "e2e_on_event S ready now (DeleteEvent p) st = e2e_HandlePodEvent S ready now (Some p) None st"
| "e2e_on_event S ready now (GenericEvent p) st = Ret st"

definition e2e_deliver ::
  "('m, e2e_Expectation) shared_map \<Rightarrow> (pod \<Rightarrow> bool) \<Rightarrow> pod_event \<times> time \<Rightarrow> 'm e2e_PodMonitor \<times> int \<Rightarrow> ('m e2e_PodMonitor \<times> int) go" where
  "e2e_deliver S ready e st =
     (case e of (ev, now) \<Rightarrow>
        if e2e_FilterEvent (em_selector (fst st)) (pod_Meta (ev_object ev)) then e2e_on_event S ready now ev st else Ret st)"

definition e2e_events ::
  "('m, e2e_Expectation) shared_map \<Rightarrow> (pod \<Rightarrow> bool) \<Rightarrow> (pod_event \<times> time) list \<Rightarrow> 'm e2e_PodMonitor \<times> int \<Rightarrow> ('m e2e_PodMonitor \<times> int) go" where
  "e2e_events S ready = go_fold (e2e_deliver S ready)"

section \<open>The benchmark\<close>

text \<open>What the cluster answers during a run; \<open>ee_events\<close> are the events handled between the calls of
  \<open>Watch\<close> and the end of the wait. Nobody waits for the scale updates; \<open>ee_Scale\<close> is their answer if it
  is there when the counter is read.\<close>

record e2e_env =
  ee_setup :: "apierr option"
  ee_synced :: bool
  ee_targets :: "apierr + objmeta list"
  ee_rsPolls :: "(apierr + replicaset list) list"
  ee_Scale :: "objmeta \<Rightarrow> int \<Rightarrow> apierr option option"
  ee_events :: "(pod_event \<times> time) list"
  ee_cancelled :: bool
  ee_start :: time

record e2e_result =
  er_scaled :: int
  er_targets :: int
  er_latency :: duration

definition e2e_measure ::
  "('m, e2e_Expectation) shared_map \<Rightarrow> (pod \<Rightarrow> bool) \<Rightarrow> (e2e_Expectation smap \<Rightarrow> string list) \<Rightarrow> (time smap \<Rightarrow> string list) \<Rightarrow>
   e2e_env \<Rightarrow> objmeta list \<Rightarrow> int \<Rightarrow> 'm e2e_PodMonitor \<Rightarrow> e2e_result option go" where
  "e2e_measure S ready rng1 rng2 env targets nPods monitor =
     (let perTarget = nPodsPerTarget nPods (length targets)
      in go_bind (wg_Add (perTarget * int (length targets)) 0) (\<lambda>wg.
           let m = foldl (\<lambda>m t. e2e_Watch S (KeyFromObject t) m) monitor targets;
               nScaled = count_ok (returned (map (\<lambda>t. ee_Scale env t (int32 perTarget)) targets))
           in go_bind (e2e_events S ready (ee_events env) (m, wg)) (\<lambda>(m', wg').
                if wg' > 0 then Blocked
                else if ee_cancelled env then Ret None
                else go_bind (e2e_Since S rng1 rng2 (ee_start env) m') (\<lambda>latency.
                       Ret (Some \<lparr> er_scaled = nScaled, er_targets = int (length targets), er_latency = latency \<rparr>)))))"

definition e2e_run ::
  "(apierr + replicaset list, unit) poll \<Rightarrow> ('m, e2e_Expectation) shared_map \<Rightarrow> (pod \<Rightarrow> bool) \<Rightarrow>
   (e2e_Expectation smap \<Rightarrow> string list) \<Rightarrow> (time smap \<Rightarrow> string list) \<Rightarrow> e2e_env \<Rightarrow> string \<Rightarrow> int \<Rightarrow> e2e_result option go" where
  "e2e_run P S ready rng1 rng2 env selector nPods =
     (let monitor = e2e_NewPodMonitor S selector
      in case ee_setup env of
           Some err \<Rightarrow> Fatal (''Error creating monitor: '' @ err_Error err)
         | None \<Rightarrow>
             if \<not> ee_synced env then Fatal ''Cannot syncing manager cache''
             else (case ee_targets env of
                     Inl err \<Rightarrow> Fatal (''Error listing Deployments: '' @ err_Error err)
                   | Inr targets \<Rightarrow>
                       if targets = [] then Fatal ''No Deployment selected''
                       else go_bind (P (waitForReplicaSets (length targets)) (ee_rsPolls env) ()) (\<lambda>(err, _).
                              case err of
                                Some e \<Rightarrow> Fatal (''Error waiting for ReplicaSets: '' @ err_Error e)
                              | None \<Rightarrow> e2e_measure S ready rng1 rng2 env targets nPods monitor)))"

section \<open>What the monitor counts\<close>

text \<open>The pods that have been counted, and the ready pods of watched targets in a list of events.\<close>

definition seen_pairs :: "('m, e2e_Expectation) shared_map \<Rightarrow> 'm e2e_PodMonitor \<Rightarrow> (string \<times> string) set" where
  "seen_pairs S m = {(k, pk). \<exists>x. sm_Inner S (em_expectations m) k = Some x \<and> pk \<in> dom (xp_seen x)}"

definition ready_pods :: "(pod \<Rightarrow> bool) \<Rightarrow> string \<Rightarrow> string set \<Rightarrow> (pod_event \<times> time) list \<Rightarrow> (string \<times> string) set" where
  "ready_pods ready selector keys es =
     (\<lambda>p. (KeyFromObject (pod_Meta p), pod_key p)) `
       {p. (\<exists>ev now. (ev, now) \<in> set es \<and> ev_new ev = Some p) \<and> ready p \<and> e2e_FilterEvent selector (pod_Meta p) \<and>
           KeyFromObject (pod_Meta p) \<in> keys}"

abbreviation watched :: "('m, e2e_Expectation) shared_map \<Rightarrow> 'm e2e_PodMonitor \<Rightarrow> string set" where
  "watched S m \<equiv> dom (sm_Inner S (em_expectations m))"

lemma ready_pods_Nil [simp]: "ready_pods ready sel K [] = {}"
  by (simp add: ready_pods_def)

lemma ready_pods_Cons:
  "ready_pods ready sel K (e # es) = ready_pods ready sel K [e] \<union> ready_pods ready sel K es"
  unfolding ready_pods_def image_Un [symmetric] by (rule arg_cong [where f = "image _"]) auto

lemma ready_pods_single:
  "ready_pods ready sel K [(ev, now)] =
     (case ev_new ev of None \<Rightarrow> {}
      | Some p \<Rightarrow> if ready p \<and> e2e_FilterEvent sel (pod_Meta p) \<and> KeyFromObject (pod_Meta p) \<in> K
                  then {(KeyFromObject (pod_Meta p), pod_key p)} else {})"
  by (auto simp: ready_pods_def split: option.splits)

lemma finite_ready_pods: "finite (ready_pods ready sel K es)"
proof (induction es)
  case (Cons e es)
  then show ?case by (cases e, subst ready_pods_Cons) (auto simp: ready_pods_single split: option.splits)
qed simp

text \<open>Delivering one event counts its pod unless it is counted already.\<close>

lemma deliver_effect:
  assumes S: "shared_map_laws S" and N: "N = ready_pods ready (em_selector m) (watched S m) [(ev, now)] - seen_pairs S m"
  shows "N = {} \<Longrightarrow> \<exists>m'. e2e_deliver S ready (ev, now) (m, wg) = Ret (m', wg) \<and> em_selector m' = em_selector m \<and>
           sm_Inner S (em_expectations m') = sm_Inner S (em_expectations m)"
    and "N \<noteq> {} \<Longrightarrow> wg = 0 \<Longrightarrow>
           e2e_deliver S ready (ev, now) (m, wg) = Panic (PanicMsg ''sync: negative WaitGroup counter'')"
    and "N \<noteq> {} \<Longrightarrow> 0 < wg \<Longrightarrow> wg < 2 ^ 31 \<Longrightarrow> \<exists>m' k pk x. e2e_deliver S ready (ev, now) (m, wg) = Ret (m', wg - 1) \<and> em_selector m' = em_selector m \<and>
           N = {(k, pk)} \<and> sm_Inner S (em_expectations m) k = Some x \<and>
           sm_Inner S (em_expectations m') = (sm_Inner S (em_expectations m))(k \<mapsto> x\<lparr>xp_seen := (xp_seen x)(pk \<mapsto> now)\<rparr>)"
  using S N
  by (cases ev; auto simp: e2e_deliver_def e2e_HandlePodEvent_def e2e_Done_def ready_pods_single seen_pairs_def shared_map_simps Let_def
      split: option.splits if_splits)+

lemma seen_pairs_upd:
  "sm_Inner S (em_expectations m) k = Some x \<Longrightarrow>
   sm_Inner S (em_expectations m') = (sm_Inner S (em_expectations m))(k \<mapsto> x\<lparr>xp_seen := (xp_seen x)(pk \<mapsto> now)\<rparr>) \<Longrightarrow>
   seen_pairs S m' = insert (k, pk) (seen_pairs S m)"
  by (auto simp: seen_pairs_def split: if_splits)

definition e2e_ok :: "('m, e2e_Expectation) shared_map \<Rightarrow> 'm e2e_PodMonitor \<times> int \<Rightarrow> bool" where
  "e2e_ok S st \<longleftrightarrow> shared_map_laws S \<and> finite (seen_pairs S (fst st)) \<and> 0 \<le> snd st \<and> snd st < 2 ^ 31"

interpretation e2e_monitor: counting_monitor "e2e_deliver S ready" "\<lambda>e. True" "e2e_ok S"
  "\<lambda>c e. ready_pods ready (fst c) (snd c) [e]" "\<lambda>st. (em_selector (fst st), watched S (fst st))" "\<lambda>st. seen_pairs S (fst st)" snd
  for S :: "('m, e2e_Expectation) shared_map" and ready
proof (unfold_locales, goal_cases)
  case (3 st e)
  obtain m wg where st: "st = (m, wg)" by (cases st)
  obtain ev now where e: "e = (ev, now)" by (cases e)
  have S: "shared_map_laws S" using 3(1) by (simp add: e2e_ok_def)
  have "ready_pods ready (em_selector m) (watched S m) [(ev, now)] - seen_pairs S m = {}" using 3(3) st e by simp
  from deliver_effect(1) [OF S refl this, of wg] obtain m' where m': "e2e_deliver S ready (ev, now) (m, wg) = Ret (m', wg)"
    "em_selector m' = em_selector m" "sm_Inner S (em_expectations m') = sm_Inner S (em_expectations m)" by blast
  then have "seen_pairs S m' = seen_pairs S m" by (simp add: seen_pairs_def)
  with m' 3(1) st e show ?case by (auto simp: e2e_ok_def)
next
  case (4 st e)
  obtain m wg where st: "st = (m, wg)" by (cases st)
  obtain ev now where e: "e = (ev, now)" by (cases e)
  have S: "shared_map_laws S" using 4(1) by (simp add: e2e_ok_def)
  have "ready_pods ready (em_selector m) (watched S m) [(ev, now)] - seen_pairs S m \<noteq> {}" "wg = 0" using 4(3,4) st e by auto
  from deliver_effect(2) [OF S refl this] show ?case by (simp add: st e)
next
  case (5 st e)
  obtain m wg where st: "st = (m, wg)" by (cases st)
  obtain ev now where e: "e = (ev, now)" by (cases e)
  have S: "shared_map_laws S" using 5(1) by (simp add: e2e_ok_def)
  have ne: "ready_pods ready (em_selector m) (watched S m) [(ev, now)] - seen_pairs S m \<noteq> {}" and wg: "0 < wg" "wg < 2 ^ 31"
    using 5(1,3,4) st e by (auto simp: e2e_ok_def)
  from deliver_effect(3) [OF S refl ne wg] obtain m' k pk x where
    m': "e2e_deliver S ready (ev, now) (m, wg) = Ret (m', wg - 1)" "em_selector m' = em_selector m"
    and N: "ready_pods ready (em_selector m) (watched S m) [(ev, now)] - seen_pairs S m = {(k, pk)}"
    and x: "sm_Inner S (em_expectations m) k = Some x"
    and upd: "sm_Inner S (em_expectations m') = (sm_Inner S (em_expectations m))(k \<mapsto> x\<lparr>xp_seen := (xp_seen x)(pk \<mapsto> now)\<rparr>)" by blast
  have sp: "seen_pairs S m' = insert (k, pk) (seen_pairs S m)" by (rule seen_pairs_upd [OF x upd])
  have w: "watched S m' = watched S m" using upd x by auto
  with m' N sp wg 5(1) st e show ?case by (auto simp: e2e_ok_def)
qed (auto simp: e2e_ok_def finite_ready_pods)

lemma ready_pods_UN: "(\<Union>e \<in> set es. ready_pods ready sel K [e]) = ready_pods ready sel K es"
proof (induction es)
  case (Cons e es)
  then show ?case using ready_pods_Cons [of ready sel K e es] by simp
qed simp

lemma events_effect:
  fixes S :: "('m, e2e_Expectation) shared_map"
  assumes "shared_map_laws S" and "finite (seen_pairs S m)" and "0 \<le> wg" and "wg < 2 ^ 31"
  shows "let R = ready_pods ready (em_selector m) (watched S m) es - seen_pairs S m in
    if int (card R) \<le> wg
    then \<exists>m'. e2e_events S ready es (m, wg) = Ret (m', wg - int (card R)) \<and> seen_pairs S m' = seen_pairs S m \<union> R \<and>
           watched S m' = watched S m
    else e2e_events S ready es (m, wg) = Panic (PanicMsg ''sync: negative WaitGroup counter'')"
  using e2e_monitor.run_effect [of S "(m, wg)" es ready] assms
  by (fastforce simp: e2e_ok_def e2e_events_def ready_pods_UN Let_def)

section \<open>When the pods were seen\<close>

text \<open>The time recorded for a pod of a target, and the time of the first event that shows the pod ready.\<close>

definition time_of :: "('m, e2e_Expectation) shared_map \<Rightarrow> 'm e2e_PodMonitor \<Rightarrow> string \<times> string \<Rightarrow> time option" where
  "time_of S m kp = (case sm_Inner S (em_expectations m) (fst kp) of None \<Rightarrow> None | Some x \<Rightarrow> xp_seen x (snd kp))"

definition first_ready :: "(pod \<Rightarrow> bool) \<Rightarrow> string \<Rightarrow> string set \<Rightarrow> (pod_event \<times> time) list \<Rightarrow> string \<times> string \<Rightarrow> time" where
  "first_ready ready sel K es kp = snd (hd (filter (\<lambda>e. kp \<in> ready_pods ready sel K [e]) es))"

lemma seen_pairs_time: "kp \<in> seen_pairs S m \<longleftrightarrow> time_of S m kp \<noteq> None"
  by (cases kp) (auto simp: seen_pairs_def time_of_def split: option.splits)

lemma deliver_time:
  assumes "e2e_ok S (m, wg)" and "e2e_deliver S ready e (m, wg) = Ret (m', wg')"
  shows "em_selector m' = em_selector m \<and> watched S m' = watched S m \<and> e2e_ok S (m', wg') \<and>
     time_of S m' kp = (case time_of S m kp of Some t \<Rightarrow> Some t
       | None \<Rightarrow> if kp \<in> ready_pods ready (em_selector m) (watched S m) [e] then Some (snd e) else None)"
proof -
  obtain ev now where e: "e = (ev, now)" by (cases e)
  have S: "shared_map_laws S" and wg: "0 \<le> wg" "wg < 2 ^ 31" using assms(1) by (simp_all add: e2e_ok_def)
  let ?N = "ready_pods ready (em_selector m) (watched S m) [(ev, now)] - seen_pairs S m"
  show ?thesis
  proof (cases "?N = {}")
    case True
    then have "em_selector m' = em_selector m" "sm_Inner S (em_expectations m') = sm_Inner S (em_expectations m)" "wg' = wg"
      using deliver_effect(1) [OF S refl True, of wg] assms(2) e by auto
    moreover from this(2) have "time_of S m' = time_of S m" "seen_pairs S m' = seen_pairs S m"
      by (simp_all add: time_of_def [abs_def] seen_pairs_def)
    ultimately show ?thesis using True assms(1) seen_pairs_time [of kp S m] e by (auto simp: e2e_ok_def split: option.splits)
  next
    case False
    then have "wg \<noteq> 0" using deliver_effect(2) [OF S refl False, of wg] assms(2) e by auto
    then have "0 < wg" using wg by simp
    from deliver_effect(3) [OF S refl False this wg(2)] assms(2) e obtain k pk x where
      m': "em_selector m' = em_selector m" "wg' = wg - 1" "?N = {(k, pk)}" "sm_Inner S (em_expectations m) k = Some x"
      "sm_Inner S (em_expectations m') = (sm_Inner S (em_expectations m))(k \<mapsto> x\<lparr>xp_seen := (xp_seen x)(pk \<mapsto> now)\<rparr>)" by auto
    have t: "time_of S m' kp = (if kp = (k, pk) then Some now else time_of S m kp)"
      using m'(4,5) by (cases kp) (auto simp: time_of_def split: option.splits)
    have "(k, pk) \<notin> seen_pairs S m" and r: "ready_pods ready (em_selector m) (watched S m) [(ev, now)] - seen_pairs S m = {(k, pk)}"
      using m'(3) by auto
    then have "time_of S m (k, pk) = None" by (simp add: seen_pairs_time)
    moreover have "kp \<in> ready_pods ready (em_selector m) (watched S m) [(ev, now)] \<longleftrightarrow> kp = (k, pk)" if "time_of S m kp = None"
      using that r seen_pairs_time [of kp S m] by auto
    moreover have "watched S m' = watched S m" using m'(4,5) by auto
    moreover have "e2e_ok S (m', wg')"
      using assms(1) seen_pairs_upd [OF m'(4,5)] m'(2) \<open>0 < wg\<close> by (simp add: e2e_ok_def)
    ultimately show ?thesis using m'(1) e by (auto simp: t split: option.splits)
  qed
qed

lemma first_ready_Cons:
  "first_ready ready sel K (e # es) kp = (if kp \<in> ready_pods ready sel K [e] then snd e else first_ready ready sel K es kp)"
  by (simp add: first_ready_def)

lemma events_time:
  assumes "e2e_ok S (m, wg)" and "e2e_events S ready es (m, wg) = Ret (m', wg')"
  shows "time_of S m' kp = (case time_of S m kp of Some t \<Rightarrow> Some t
     | None \<Rightarrow> if kp \<in> ready_pods ready (em_selector m) (watched S m) es
              then Some (first_ready ready (em_selector m) (watched S m) es kp) else None)"
  using assms
proof (induction es arbitrary: m wg)
  case Nil
  then show ?case by (simp add: e2e_events_def split: option.splits)
next
  case (Cons e es)
  then obtain m1 wg1 where d: "e2e_deliver S ready e (m, wg) = Ret (m1, wg1)" "e2e_events S ready es (m1, wg1) = Ret (m', wg')"
    by (auto simp: e2e_events_def)
  note one = deliver_time [OF Cons.prems(1) d(1)]
  have "e2e_ok S (m1, wg1)" using one by blast
  from Cons.IH [OF this d(2)] one [of kp] show ?case
    using ready_pods_Cons [of ready "em_selector m" "watched S m" e es]
    by (auto simp: first_ready_Cons split: option.splits if_splits)
qed

section \<open>Watching and reading\<close>

lemma watch_all:
  assumes "shared_map_laws S"
  shows "em_selector (foldl (\<lambda>m t. e2e_Watch S (KeyFromObject t) m) m ts) = em_selector m"
    and "sm_Inner S (em_expectations (foldl (\<lambda>m t. e2e_Watch S (KeyFromObject t) m) m ts)) =
         (\<lambda>k. if k \<in> KeyFromObject ` set ts then Some e2e_NewExpectation else sm_Inner S (em_expectations m) k)"
  using assms by (induction ts arbitrary: m) (auto simp: e2e_Watch_def shared_map_simps)

text \<open>Reading them gives the recorded time of every pod that was counted.\<close>

lemma distinct_concat_tagged:
  "distinct ks \<Longrightarrow> (\<And>k. distinct (f k)) \<Longrightarrow> (\<And>k x. x \<in> set (f k) \<Longrightarrow> fst x = k) \<Longrightarrow> distinct (concat (map f ks))"
proof (induction ks)
  case (Cons k ks)
  have "x \<notin> set (concat (map f ks))" if "x \<in> set (f k)" for x
  proof
    assume "x \<in> set (concat (map f ks))"
    then obtain k' where "k' \<in> set ks" "x \<in> set (f k')" by auto
    with Cons.prems(1) Cons.prems(3) [OF this(2)] Cons.prems(3) [OF that] show False by auto
  qed
  then have "set (f k) \<inter> set (concat (map f ks)) = {}" by blast
  with Cons show ?case by simp
qed simp

lemma seen_times_mset:
  assumes "range_laws rng1" and "range_laws rng2" and "finite (watched S m)" and "finite (seen_pairs S m)"
  shows "mset (seen_times S rng1 rng2 m) = image_mset (\<lambda>kp. the (time_of S m kp)) (mset_set (seen_pairs S m))"
proof -
  let ?M = "sm_Inner S (em_expectations m)"
  let ?f = "\<lambda>k. case ?M k of None \<Rightarrow> [] | Some x \<Rightarrow> map (\<lambda>pk. (k, pk)) (rng2 (xp_seen x))"
  let ?ps = "concat (map ?f (rng1 ?M))"
  have r1: "set (rng1 ?M) = dom ?M" "distinct (rng1 ?M)" using assms(1,3) by (auto simp: range_laws_def)
  have fx: "finite (dom (xp_seen x))" if "?M k = Some x" for k x
  proof -
    have "dom (xp_seen x) \<subseteq> snd ` seen_pairs S m" using that by (force simp: seen_pairs_def)
    then show ?thesis using assms(4) finite_subset by blast
  qed
  have r2: "set (rng2 (xp_seen x)) = dom (xp_seen x)" "distinct (rng2 (xp_seen x))" if "?M k = Some x" for k x
    using assms(2) fx [OF that] by (auto simp: range_laws_def)
  have d: "distinct (?f k)" for k using r2(2) [of k] by (cases "?M k") (simp_all add: distinct_map inj_on_def)
  have tag: "fst kp = k" if "kp \<in> set (?f k)" for kp k using that by (cases "?M k") auto
  have "distinct ?ps" by (rule distinct_concat_tagged [OF r1(2) d tag])
  moreover have "set ?ps = seen_pairs S m"
  proof (intro equalityI subsetI)
    fix kp
    assume "kp \<in> set ?ps"
    then obtain k where k: "k \<in> dom ?M" "kp \<in> set (?f k)" using r1(1) by auto
    then obtain x where "?M k = Some x" by blast
    with k r2(1) [OF this] show "kp \<in> seen_pairs S m" by (auto simp: seen_pairs_def)
  next
    fix kp
    assume "kp \<in> seen_pairs S m"
    then obtain k pk x where x: "kp = (k, pk)" "?M k = Some x" "pk \<in> dom (xp_seen x)" by (auto simp: seen_pairs_def)
    then have "kp \<in> set (?f k)" using r2(1) [OF x(2)] by simp
    moreover have "k \<in> set (rng1 ?M)" using r1(1) x(2) by auto
    ultimately show "kp \<in> set ?ps" by auto
  qed
  ultimately have ps: "mset ?ps = mset_set (seen_pairs S m)" using mset_set_set [of ?ps] by simp
  have f: "(case ?M k of None \<Rightarrow> [] | Some x \<Rightarrow> map (\<lambda>pk. the (xp_seen x pk)) (rng2 (xp_seen x))) =
      map (\<lambda>kp. the (time_of S m kp)) (?f k)" for k
    by (cases "?M k") (simp_all add: time_of_def)
  have "seen_times S rng1 rng2 m = map (\<lambda>kp. the (time_of S m kp)) ?ps"
    unfolding seen_times_def Let_def f map_concat map_map comp_def ..
  then have "mset (seen_times S rng1 rng2 m) = image_mset (\<lambda>kp. the (time_of S m kp)) (mset ?ps)" by (simp del: mset_concat)
  then show ?thesis unfolding ps .
qed

section \<open>Properties\<close>

text \<open>C30: the end-to-end benchmark measures exactly the pods it asked for. Once the Deployments are
  listed and their ReplicaSets exist, the run asks each target for the same number of pods,
  at least one, and counts the distinct ready pods of the selected targets: with fewer than
  asked it keeps waiting, with more the wait group panics, and with exactly as many it
  reports how many scale updates had succeeded by then and the 90th percentile of the times at which these
  pods were first seen ready, one time for each pod. Pods and targets are fewer than \<open>2 ^ 31\<close>, the range of the wait group.\<close>

theorem e2e_measures:
  fixes S :: "('m, e2e_Expectation) shared_map"
  assumes S: "shared_map_laws S" and rng: "range_laws rng1" "range_laws rng2"
    and env: "ee_setup env = None" "ee_synced env" "ee_targets env = Inr targets" "targets \<noteq> []" "\<not> ee_cancelled env"
      "P (waitForReplicaSets (length targets)) (ee_rsPolls env) () = Ret (None, ())"
    and n: "0 \<le> nPods" "nPods < 2 ^ 31" "int (length targets) < 2 ^ 31"
  shows "let per = max 1 (nPods div int (length targets));
             R = ready_pods ready selector (KeyFromObject ` set targets) (ee_events env)
         in if int (card R) < per * int (length targets) then e2e_run P S ready rng1 rng2 env selector nPods = Blocked
            else if per * int (length targets) < int (card R)
            then e2e_run P S ready rng1 rng2 env selector nPods = Panic (PanicMsg ''sync: negative WaitGroup counter'')
            else \<exists>ts latency.
                   mset ts = image_mset (first_ready ready selector (KeyFromObject ` set targets) (ee_events env)) (mset_set R) \<and>
                   percentile90 ts (ee_start env) = Ret latency \<and>
                   e2e_run P S ready rng1 rng2 env selector nPods =
                     Ret (Some \<lparr> er_scaled = int (length (filter (\<lambda>t. ee_Scale env t (int32 per) = Some None) targets)),
                                 er_targets = int (length targets), er_latency = latency \<rparr>)"
proof -
  define per where "per = max 1 (nPods div int (length targets))"
  define R where "R = ready_pods ready selector (KeyFromObject ` set targets) (ee_events env)"
  define wg where "wg = per * int (length targets)"
  define m where "m = foldl (\<lambda>m t. e2e_Watch S (KeyFromObject t) m) (e2e_NewPodMonitor S selector) targets"
  have per: "nPodsPerTarget nPods (length targets) = per" using n(1) env(4) by (simp add: nPodsPerTarget_nonneg per_def)
  have "nPods div int (length targets) * int (length targets) \<le> nPods" using minus_mod_eq_div_mult [of nPods "int (length targets)"] env(4) by (smt (verit) length_greater_0_conv of_nat_0_less_iff pos_mod_sign)
  then have wg0: "0 < wg" "wg < 2 ^ 31" using env(4) n(2,3) by (auto simp: wg_def per_def max_def)
  have m: "em_selector m = selector" "watched S m = KeyFromObject ` set targets" "seen_pairs S m = {}"
    using S by (auto simp: m_def watch_all e2e_NewPodMonitor_def shared_map_simps seen_pairs_def e2e_NewExpectation_def split: if_splits)
  have run: "e2e_run P S ready rng1 rng2 env selector nPods =
      go_bind (e2e_events S ready (ee_events env) (m, wg)) (\<lambda>(m', wg'). if wg' > 0 then Blocked
        else go_bind (percentile90 (seen_times S rng1 rng2 m') (ee_start env)) (\<lambda>latency.
          Ret (Some \<lparr> er_scaled = int (length (filter (\<lambda>t. ee_Scale env t (int32 per) = Some None) targets)),
                      er_targets = int (length targets), er_latency = latency \<rparr>)))"
    using env wg0 n(3) by (simp add: e2e_run_def e2e_measure_def e2e_Since_def [abs_def] per wg_Add_new count_ok_returned filter_map
        comp_def cong: if_cong flip: wg_def m_def)
  note eff = events_effect [OF S, of m wg ready "ee_events env", unfolded m(1-3) Diff_empty Un_empty_left, folded R_def, unfolded Let_def]
  consider (less) "int (card R) < wg" | (more) "wg < int (card R)" | (eq) "int (card R) = wg" by linarith
  then show ?thesis
  proof cases
    case less
    with eff wg0 run show ?thesis by (auto simp: Let_def simp flip: per_def R_def wg_def split: if_splits)
  next
    case more
    with eff wg0 run show ?thesis by (auto simp: Let_def simp flip: per_def R_def wg_def split: if_splits)
  next
    case eq
    with eff wg0 obtain m' where m': "e2e_events S ready (ee_events env) (m, wg) = Ret (m', 0)" "seen_pairs S m' = R"
      "watched S m' = KeyFromObject ` set targets" by auto
    have fR: "finite R" by (simp add: R_def finite_ready_pods)
    have "time_of S m kp = None" for kp using seen_pairs_time [of kp S m] m(3) by simp
    then have "the (time_of S m' kp) = first_ready ready selector (KeyFromObject ` set targets) (ee_events env) kp" if "kp \<in> R" for kp
      using events_time [OF _ m'(1), of kp] that S wg0 m by (simp add: e2e_ok_def R_def)
    moreover have "mset (seen_times S rng1 rng2 m') = image_mset (\<lambda>kp. the (time_of S m' kp)) (mset_set R)"
      using seen_times_mset [OF rng, of S m'] fR m'(2,3) by simp
    ultimately have ts: "mset (seen_times S rng1 rng2 m') =
        image_mset (first_ready ready selector (KeyFromObject ` set targets) (ee_events env)) (mset_set R)"
      using fR by (metis (no_types, lifting) elem_mset_set image_mset_cong)
    then have "length (seen_times S rng1 rng2 m') = card R" by (metis size_image_mset size_mset size_mset_set)
    then have "seen_times S rng1 rng2 m' \<noteq> []" using eq wg0 by auto
    then obtain latency where "percentile90 (seen_times S rng1 rng2 m') (ee_start env) = Ret latency"
      using percentile90_Ret by blast
    with ts eq run m' show ?thesis by (auto simp: Let_def simp flip: per_def R_def wg_def)
  qed
qed

definition bench_target :: objmeta where
  "bench_target =
     \<lparr> om_Namespace = ''d'', om_Name = ''f'', om_UID = [], om_ResourceVersion = [],
       om_Labels = [''app'' \<mapsto> ''f'', ''workload'' \<mapsto> ''test''], om_Annotations = Map.empty, om_DeletionTimestamp = None \<rparr>"

definition bench_pod :: "string \<Rightarrow> pod" where
  "bench_pod name = sample_pod\<lparr>pod_Meta := bench_target\<lparr>om_Name := name\<rparr>\<rparr>"

definition bench_rs :: replicaset where
  "bench_rs = \<lparr> rs_Meta = bench_target, rs_HasController = True, rs_Replicas = 0, rs_ReadyReplicas = 0 \<rparr>"

text \<open>Two pods are asked for; the first one is reported twice.\<close>

definition e2e_sample :: e2e_env where
  "e2e_sample =
     \<lparr> ee_setup = None, ee_synced = True, ee_targets = Inr [bench_target], ee_rsPolls = [Inr [], Inr [bench_rs]],
       ee_Scale = (\<lambda>t r. Some None),
       ee_events = [(CreateEvent (bench_pod ''a''), 10), (UpdateEvent (bench_pod ''a'') (bench_pod ''a''), 12),
                    (CreateEvent (bench_pod ''b''), 15)],
       ee_cancelled = False, ee_start = 4 \<rparr>"

lemma e2e_sample_pods:
  "ready_pods (\<lambda>p. True) ''test'' (KeyFromObject ` set [bench_target]) (ee_events e2e_sample) = {(''d/f'', ''d/a''), (''d/f'', ''d/b'')}"
  unfolding e2e_sample_def e2e_env.simps
  by (subst ready_pods_Cons, subst ready_pods_Cons)
    (auto simp: ready_pods_single bench_pod_def bench_target_def pod_key_def KeyFromObject_def e2e_FilterEvent_def IsWorkload_def)

theorem e2e_measures_witness:
  "\<exists>ts latency. mset ts = {#10, 15#} \<and> percentile90 ts 4 = Ret latency \<and>
     e2e_run go_poll go_map (\<lambda>p. True) sorted_range sorted_range e2e_sample ''test'' 2 =
       Ret (Some \<lparr> er_scaled = 1, er_targets = 1, er_latency = latency \<rparr>)"
proof -
  have env: "ee_setup e2e_sample = None" "ee_synced e2e_sample" "ee_targets e2e_sample = Inr [bench_target]" "[bench_target] \<noteq> []"
    "\<not> ee_cancelled e2e_sample" "ee_start e2e_sample = 4" "ee_Scale e2e_sample t r = Some None" for t r
    by (simp_all add: e2e_sample_def)
  have poll: "go_poll (waitForReplicaSets (length [bench_target])) (ee_rsPolls e2e_sample) () = Ret (None, ())"
    by (simp add: e2e_sample_def waitForReplicaSets_def bench_rs_def)
  have two: "card {(''d/f'', ''d/a''), (''d/f'', ''d/b'')} = 2" by simp
  have fr: "first_ready (\<lambda>p. True) ''test'' (KeyFromObject ` set [bench_target]) (ee_events e2e_sample) (''d/f'', ''d/a'') = 10"
    "first_ready (\<lambda>p. True) ''test'' (KeyFromObject ` set [bench_target]) (ee_events e2e_sample) (''d/f'', ''d/b'') = 15"
    by (simp_all add: first_ready_def e2e_sample_def ready_pods_single bench_pod_def bench_target_def pod_key_def KeyFromObject_def
        e2e_FilterEvent_def IsWorkload_def)
  from e2e_measures [where P = go_poll, OF go_map_laws sorted_range_laws sorted_range_laws env(1-5) poll, of 2 "\<lambda>p. True" "''test''", unfolded e2e_sample_pods two]
  show ?thesis using fr by (auto simp: env Let_def eval_nat_numeral)
qed

end
