(* ===== verification/Bench_Kubelet.thy ===== *)
theory Bench_Kubelet
  imports Bench Kubelet_Sync
begin

text \<open>
  \<open>src/experiments/microbench/breakdown/kubelet\<close>: the kubelet benchmark. \<open>client.go\<close> shakes hands
  with the kubelet of one node, sends it one binding request per pod and waits until every
  pod has been seen ready or deleted; \<open>monitor.go\<close> counts them.

  The client hub of \<open>kdrpc\<close> and the conversion of a pod description to a binding request are
  parameters; a client is its identifier and its epoch. The wait group lives in the
  expectation, nil until \<open>Watch\<close> is called.
\<close>

section \<open>monitor.go\<close>

record kb_Expectation =
  kx_wg :: "int option"
  kx_desired :: "time smap"

definition kb_NewExpectation :: kb_Expectation where
  "kb_NewExpectation = \<lparr> kx_wg = None, kx_desired = Map.empty \<rparr>"

definition info_key :: "PodInfo \<Rightarrow> string" where "info_key i = pi_Namespace i @ ''/'' @ pi_Name i"

definition kb_Watch :: "int \<Rightarrow> PodInfo list \<Rightarrow> kb_Expectation \<Rightarrow> kb_Expectation" where
  "kb_Watch wg podInfos s =
     s\<lparr>kx_wg := Some wg, kx_desired := foldl (\<lambda>d i. d(info_key i \<mapsto> 0)) (kx_desired s) podInfos\<rparr>"

definition kb_Done :: "time \<Rightarrow> pod \<Rightarrow> kb_Expectation \<Rightarrow> (bool \<times> kb_Expectation) go" where
  "kb_Done now p s =
     (let key = pod_key p
      in case kx_wg s of
           None \<Rightarrow> Ret (False, s)
         | Some wg \<Rightarrow>
             (case kx_desired s key of
                None \<Rightarrow> Ret (False, s)
              | Some t \<Rightarrow>
                  if t_IsZero t
                  then go_bind (wg_Done wg) (\<lambda>wg'. Ret (True, s\<lparr>kx_desired := (kx_desired s)(key \<mapsto> now), kx_wg := Some wg'\<rparr>))
                  else Ret (False, s)))"

record kb_PodMonitor =
  km_ownerName :: string
  km_expectation :: kb_Expectation

definition kb_NewPodMonitor :: "string \<Rightarrow> kb_PodMonitor" where
  "kb_NewPodMonitor ownerName = \<lparr> km_ownerName = ownerName, km_expectation = kb_NewExpectation \<rparr>"

definition kb_Since :: "(time smap \<Rightarrow> string list) \<Rightarrow> time \<Rightarrow> kb_PodMonitor \<Rightarrow> duration go" where
  "kb_Since rng start m =
     (let d = kx_desired (km_expectation m) in percentile90 (map (\<lambda>k. the (d k)) (rng d)) start)"

text \<open>\<open>IsManaged\<close> and the owner label are those of \<open>kdutil\<close>.\<close>

definition kb_FilterEvent :: "(objmeta \<Rightarrow> bool) \<Rightarrow> string \<Rightarrow> string \<Rightarrow> objmeta \<Rightarrow> bool" where
  "kb_FilterEvent IsManaged OwnerNameLabel ownerName obj \<longleftrightarrow>
     IsManaged obj \<and> mget (om_Labels obj) OwnerNameLabel = ownerName"

definition kb_HandlePodEvent :: "(pod \<Rightarrow> bool) \<Rightarrow> time \<Rightarrow> pod option \<Rightarrow> pod option \<Rightarrow> kb_PodMonitor \<Rightarrow> kb_PodMonitor go" where
  "kb_HandlePodEvent ready now old new m =
     (case new of
        None \<Rightarrow>
          (case old of
             None \<Rightarrow> Panic NilDeref
           | Some p \<Rightarrow> go_bind (kb_Done now p (km_expectation m)) (\<lambda>(_, x). Ret (m\<lparr>km_expectation := x\<rparr>)))
      | Some p \<Rightarrow>
          if ready p then go_bind (kb_Done now p (km_expectation m)) (\<lambda>(_, x). Ret (m\<lparr>km_expectation := x\<rparr>))
          else Ret m)"

fun kb_on_event :: "(pod \<Rightarrow> bool) \<Rightarrow> time \<Rightarrow> pod_event \<Rightarrow> kb_PodMonitor \<Rightarrow> kb_PodMonitor go" where
  "kb_on_event ready now (CreateEvent p) m = kb_HandlePodEvent ready now None (Some p) m"
| "kb_on_event ready now (UpdateEvent old new) m = kb_HandlePodEvent ready now (Some old) (Some new) m"
| "kb_on_event ready now (DeleteEvent p) m = kb_HandlePodEvent ready now (Some p) None m"
| "kb_on_event ready now (GenericEvent p) m = Ret m"

definition kb_deliver ::
  "(objmeta \<Rightarrow> bool) \<Rightarrow> string \<Rightarrow> (pod \<Rightarrow> bool) \<Rightarrow> pod_event \<times> time \<Rightarrow> kb_PodMonitor \<Rightarrow> kb_PodMonitor go" where
  "kb_deliver IsManaged lbl ready e m =
     (case e of (ev, now) \<Rightarrow>
        if kb_FilterEvent IsManaged lbl (km_ownerName m) (pod_Meta (ev_object ev)) then kb_on_event ready now ev m else Ret m)"

definition kb_events ::
  "(objmeta \<Rightarrow> bool) \<Rightarrow> string \<Rightarrow> (pod \<Rightarrow> bool) \<Rightarrow> (pod_event \<times> time) list \<Rightarrow> kb_PodMonitor \<Rightarrow> kb_PodMonitor go" where
  "kb_events IsManaged lbl ready = go_fold (kb_deliver IsManaged lbl ready)"

section \<open>client.go\<close>

definition testClient :: string where "testClient = ''test''"

definition kdClientKeyFunc :: "string \<Rightarrow> string" where "kdClientKeyFunc nodeName = testClient @ ''/'' @ nodeName"

text \<open>\<open>newReq\<close> is \<open>kdrpc.NewHandshakeRequest\<close>, which chooses the epoch; \<open>call\<close> sends the request and
  returns the epoch of the answer.\<close>

definition doKubeletHandshake ::
  "(string \<Rightarrow> string \<Rightarrow> HandshakeRequest) \<Rightarrow> (HandshakeRequest \<Rightarrow> apierr + string) \<Rightarrow> string \<Rightarrow> string \<Rightarrow> (apierr + string) go" where
  "doKubeletHandshake newReq call src dest =
     (let clientKey = kdClientKeyFunc dest
      in if src \<noteq> clientKey then Panic (PanicMsg (''invalid source: expected '' @ clientKey @ '', got '' @ src))
         else (let msg = newReq src dest; epoch = hr_Epoch msg
               in case call msg of
                    Inl err \<Rightarrow> Ret (Inl err)
                  | Inr e \<Rightarrow>
                      if epoch \<noteq> e then Ret (Inl (OtherErr (''epoch mismatch: expected '' @ epoch @ '', got '' @ e)))
                      else Ret (Inr epoch)))"

text \<open>The address lister; \<open>override\<close> is \<open>kdrpc.GetKubeletServiceOverrideAddr\<close>.\<close>

definition newKubeletLister ::
  "(node \<Rightarrow> string \<times> bool) \<Rightarrow> string \<Rightarrow> (string \<Rightarrow> apierr + node) \<Rightarrow> string \<Rightarrow> bool \<Rightarrow> (apierr + string list) go" where
  "newKubeletLister override KubeletServicePort get nodeName requireAddrAnnotation =
     (case get nodeName of
        Inl err \<Rightarrow> Ret (Inl err)
      | Inr node \<Rightarrow>
          (let (overrideAddr, mustOverride) = override node
           in if overrideAddr \<noteq> [] then Ret (Inr [overrideAddr])
              else if mustOverride \<or> requireAddrAnnotation
              then Fatal (''Missing Kubelet service address annotation on node '' @ nodeName)
              else Ret (Inr (map (\<lambda>a. addr_Address a @ KubeletServicePort)
                               (filter (\<lambda>a. addr_Type a = ''InternalIP'') (node_Addresses node))))))"

text \<open>The creation time stamp of a description is not read by any modelled code and left out; \<open>nano\<close> is
  its \<open>UnixNano\<close>.\<close>

definition newPodInfos :: "string \<Rightarrow> string \<Rightarrow> string \<Rightarrow> int \<Rightarrow> int \<Rightarrow> PodInfo list go" where
  "newPodInfos ownerNamespace ownerName nodeName nPods nano =
     (if nPods < 0 then Panic (PanicMsg ''makeslice: len out of range'')
      else Ret (map (\<lambda>i. \<lparr> pi_Namespace = ownerNamespace, pi_Name = ownerName @ ''-'' @ itoa nano @ ''-'' @ itoa (int i),
                          pi_OwnerName = ownerName, pi_NodeName = nodeName \<rparr>) [0..<nat nPods]))"

record kd_client =
  kdc_ID :: string
  kdc_Epoch :: string

text \<open>\<open>toReq\<close> is the method \<open>RequestForBinding\<close>; the client pointer may be nil.\<close>

definition newBindingRequests ::
  "(PodInfo \<Rightarrow> kd_client option \<Rightarrow> PodBindingRequest go) \<Rightarrow> kd_client option \<Rightarrow> PodInfo list \<Rightarrow> PodBindingRequest list go" where
  "newBindingRequests toReq kdClient podInfos = go_traverse (\<lambda>i. toReq i kdClient) podInfos"

text \<open>The condition of the loop that waits for the client.\<close>

definition unwrapClient :: "kd_client option \<Rightarrow> kd_client option \<Rightarrow> ((apierr + bool) \<times> kd_client option) go" where
  "unwrapClient hub _ = Ret (Inr (hub \<noteq> None), hub)"

text \<open>Nobody waits for the binding calls; \<open>be_BindPod\<close> is their answer if it is there when the counter is
  read.\<close>

record kb_env =
  be_setup :: "apierr option"
  be_synced :: bool
  be_getPod :: "string \<Rightarrow> string \<Rightarrow> apierr + pod"
  be_IsTemplatePod :: "pod \<Rightarrow> bool"
  be_IsManaged :: "objmeta \<Rightarrow> bool"
  be_OwnerNameLabel :: string
  be_IsKubeletResponsibleFor :: "pod \<Rightarrow> bool"
  be_hub :: "kd_client option list"
  be_toReq :: "PodInfo \<Rightarrow> kd_client option \<Rightarrow> PodBindingRequest go"
  be_BindPod :: "PodBindingRequest \<Rightarrow> apierr option option"
  be_IsPodReady :: "pod \<Rightarrow> bool"
  be_events :: "(pod_event \<times> time) list"
  be_cancelled :: bool
  be_nano :: int
  be_start :: time

record kb_result =
  kr_bound :: int
  kr_pods :: int
  kr_latency :: duration

definition check_template :: "kb_env \<Rightarrow> string \<Rightarrow> bool \<Rightarrow> pod go" where
  "check_template env target useDefaultKubelet =
     (case be_getPod env ''default'' (target @ ''-template'') of
        Inl err \<Rightarrow> Fatal (''Error getting template pod: '' @ err_Error err)
      | Inr templatePod \<Rightarrow>
          if \<not> be_IsTemplatePod env templatePod then Fatal ''Invalid template pod: missing template pod label''
          else if mget (om_Labels (pod_Meta templatePod)) (be_OwnerNameLabel env) \<noteq> target
          then Fatal (''Invalid owner label, expected '' @ target @ '', got '' @
                      mget (om_Labels (pod_Meta templatePod)) (be_OwnerNameLabel env))
          else if useDefaultKubelet \<noteq> be_IsKubeletResponsibleFor env templatePod
          then Fatal ''Invalid template pod: pod-lifecycle label does not match kubelet implementation''
          else Ret templatePod)"

definition kb_measure ::
  "(time smap \<Rightarrow> string list) \<Rightarrow> kb_env \<Rightarrow> kd_client option \<Rightarrow> PodInfo list \<Rightarrow> int \<Rightarrow> kb_PodMonitor \<Rightarrow> kb_result option go" where
  "kb_measure rng env kdClient podInfos nPods monitor =
     go_bind (newBindingRequests (be_toReq env) kdClient podInfos) (\<lambda>reqs.
       go_bind (wg_Add (int (length reqs)) 0) (\<lambda>wg.
         let m = monitor\<lparr>km_expectation := kb_Watch wg podInfos (km_expectation monitor)\<rparr>;
             nBound = count_ok (returned (map (be_BindPod env) reqs))
         in if kdClient = None \<and> reqs \<noteq> [] then Panic NilDeref
            else go_bind (kb_events (be_IsManaged env) (be_OwnerNameLabel env) (be_IsPodReady env) (be_events env) m) (\<lambda>m'.
                   if (case kx_wg (km_expectation m') of None \<Rightarrow> False | Some c \<Rightarrow> c > 0) then Blocked
                   else if be_cancelled env then Ret None
                   else go_bind (kb_Since rng (be_start env) m') (\<lambda>latency.
                          Ret (Some \<lparr> kr_bound = nBound, kr_pods = nPods, kr_latency = latency \<rparr>)))))"

definition kb_run ::
  "(kd_client option, kd_client option) poll \<Rightarrow> (time smap \<Rightarrow> string list) \<Rightarrow> kb_env \<Rightarrow> string \<Rightarrow> string \<Rightarrow> int \<Rightarrow> bool \<Rightarrow>
   kb_result option go" where
  "kb_run P rng env nodeName target nPods useDefaultKubelet =
     (case be_setup env of
        Some err \<Rightarrow> Fatal (''Error creating monitor: '' @ err_Error err)
      | None \<Rightarrow>
          if \<not> be_synced env then Fatal ''Cannot syncing manager cache''
          else go_bind (check_template env target useDefaultKubelet) (\<lambda>templatePod.
                 go_bind (P unwrapClient (be_hub env) None) (\<lambda>(_, kdClient).
                   go_bind (newPodInfos (om_Namespace (pod_Meta templatePod)) target nodeName nPods (be_nano env)) (\<lambda>podInfos.
                     kb_measure rng env kdClient podInfos nPods (kb_NewPodMonitor target)))))"

section \<open>What the monitor counts\<close>

text \<open>The pods not seen yet, and those that a list of events shows ready or deleted.\<close>

definition outstanding :: "kb_PodMonitor \<Rightarrow> string set" where
  "outstanding m = {k. kx_desired (km_expectation m) k = Some 0}"

fun ev_done :: "(pod \<Rightarrow> bool) \<Rightarrow> pod_event \<Rightarrow> bool" where
  "ev_done ready (CreateEvent p) = ready p"
| "ev_done ready (UpdateEvent old new) = ready new"
| "ev_done ready (DeleteEvent p) = True"
| "ev_done ready (GenericEvent p) = False"

definition done_pods :: "(objmeta \<Rightarrow> bool) \<Rightarrow> string \<Rightarrow> (pod \<Rightarrow> bool) \<Rightarrow> string \<Rightarrow> (pod_event \<times> time) list \<Rightarrow> string set" where
  "done_pods IsManaged lbl ready owner es =
     (\<lambda>(ev, _). pod_key (ev_object ev)) `
       {e \<in> set es. ev_done ready (fst e) \<and> kb_FilterEvent IsManaged lbl owner (pod_Meta (ev_object (fst e)))}"

text \<open>The counter is the number of outstanding pods, and every other recorded time is a time of \<open>T\<close>.\<close>

definition kb_ok :: "time set \<Rightarrow> kb_PodMonitor \<Rightarrow> bool" where
  "kb_ok T m \<longleftrightarrow> finite (dom (kx_desired (km_expectation m))) \<and> kx_wg (km_expectation m) = Some (int (card (outstanding m))) \<and>
     card (outstanding m) < 2 ^ 31 \<and> ran (kx_desired (km_expectation m)) \<subseteq> insert 0 T"

lemma finite_outstanding: "kb_ok T m \<Longrightarrow> finite (outstanding m)"
  unfolding kb_ok_def outstanding_def by (elim conjE, rule finite_subset) auto

lemma Done_effect:
  assumes "kb_ok T m" and "now \<noteq> 0" and "now \<in> T"
  shows "\<exists>b x. kb_Done now p (km_expectation m) = Ret (b, x) \<and> kb_ok T (m\<lparr>km_expectation := x\<rparr>) \<and>
     outstanding (m\<lparr>km_expectation := x\<rparr>) = outstanding m - {pod_key p} \<and>
     dom (kx_desired x) = dom (kx_desired (km_expectation m))"
proof (cases "pod_key p \<in> outstanding m")
  case True
  let ?x = "(km_expectation m)\<lparr>kx_desired := (kx_desired (km_expectation m))(pod_key p \<mapsto> now), kx_wg := Some (int (card (outstanding m)) - 1)\<rparr>"
  have pos: "0 < card (outstanding m)" using True finite_outstanding [OF assms(1)] by (auto simp: card_gt_0_iff)
  have o: "outstanding (m\<lparr>km_expectation := ?x\<rparr>) = outstanding m - {pod_key p}" using assms(2) by (auto simp: outstanding_def)
  have wg: "kx_wg (km_expectation m) = Some (int (card (outstanding m)))" "int (card (outstanding m)) < 2 ^ 31"
    using assms(1) by (simp_all add: kb_ok_def)
  have "kb_Done now p (km_expectation m) = Ret (True, ?x)"
    using True pos wg by (simp add: kb_Done_def outstanding_def t_IsZero_def)
  moreover have "ran ((kx_desired (km_expectation m))(pod_key p \<mapsto> now)) \<subseteq> insert now (ran (kx_desired (km_expectation m)))"
    by (auto simp: ran_def)
  with True pos assms(1,3) finite_outstanding [OF assms(1)] have "kb_ok T (m\<lparr>km_expectation := ?x\<rparr>)"
    unfolding kb_ok_def o by (auto simp: card_Diff_singleton of_nat_diff)
  moreover have "dom (kx_desired ?x) = dom (kx_desired (km_expectation m))" using True by (auto simp: outstanding_def)
  ultimately show ?thesis using o by blast
next
  case False
  then have "kb_Done now p (km_expectation m) = Ret (False, km_expectation m)"
    using assms(1) by (auto simp: kb_Done_def kb_ok_def outstanding_def t_IsZero_def Let_def split: option.splits)
  with False assms(1) show ?thesis by auto
qed

lemma deliver_done:
  assumes "kb_ok T m" and "now \<noteq> 0" and "now \<in> T"
  shows "\<exists>m'. kb_deliver IsManaged lbl ready (ev, now) m = Ret m' \<and> kb_ok T m' \<and> km_ownerName m' = km_ownerName m \<and>
     outstanding m' = outstanding m - done_pods IsManaged lbl ready (km_ownerName m) [(ev, now)] \<and>
     dom (kx_desired (km_expectation m')) = dom (kx_desired (km_expectation m))"
proof (cases "ev_done ready ev \<and> kb_FilterEvent IsManaged lbl (km_ownerName m) (pod_Meta (ev_object ev))")
  case True
  then have d: "done_pods IsManaged lbl ready (km_ownerName m) [(ev, now)] = {pod_key (ev_object ev)}" by (auto simp: done_pods_def)
  obtain b x where x: "kb_Done now (ev_object ev) (km_expectation m) = Ret (b, x)" "kb_ok T (m\<lparr>km_expectation := x\<rparr>)"
     "outstanding (m\<lparr>km_expectation := x\<rparr>) = outstanding m - {pod_key (ev_object ev)}"
     "dom (kx_desired x) = dom (kx_desired (km_expectation m))"
    using Done_effect [OF assms, of "ev_object ev"] by blast
  have "kb_deliver IsManaged lbl ready (ev, now) m = Ret (m\<lparr>km_expectation := x\<rparr>)"
    using True x(1) by (cases ev) (simp_all add: kb_deliver_def kb_HandlePodEvent_def)
  with x d show ?thesis by auto
next
  case False
  then have "done_pods IsManaged lbl ready (km_ownerName m) [(ev, now)] = {}" by (auto simp: done_pods_def)
  moreover have "kb_deliver IsManaged lbl ready (ev, now) m = Ret m"
    using False by (cases ev) (auto simp: kb_deliver_def kb_HandlePodEvent_def)
  ultimately show ?thesis using assms(1) by simp
qed

lemma done_pods_Cons:
  "done_pods IsManaged lbl ready owner (e # es) = done_pods IsManaged lbl ready owner [e] \<union> done_pods IsManaged lbl ready owner es"
  unfolding done_pods_def image_Un [symmetric] by (rule arg_cong [where f = "image _"]) auto

lemma done_pods_UN: "(\<Union>e \<in> set es. done_pods IsManaged lbl ready owner [e]) = done_pods IsManaged lbl ready owner es"
proof (induction es)
  case (Cons e es)
  then show ?case using done_pods_Cons [of IsManaged lbl ready owner e es] by simp
qed (simp add: done_pods_def)

lemma finite_done_pods: "finite (done_pods IsManaged lbl ready owner es)"
  by (simp add: done_pods_def)

lemma done_pods_single: "done_pods IsManaged lbl ready owner [e] \<subseteq> {pod_key (ev_object (fst e))}"
  by (auto simp: done_pods_def)

text \<open>The pods counted are the desired ones with a time.\<close>

definition arrived :: "kb_PodMonitor \<Rightarrow> string set" where
  "arrived m = dom (kx_desired (km_expectation m)) - outstanding m"

lemma outstanding_dom: "outstanding m \<subseteq> dom (kx_desired (km_expectation m))"
  by (auto simp: outstanding_def)

interpretation kb_monitor: counting_monitor "kb_deliver IsManaged lbl ready" "\<lambda>e. snd e \<noteq> 0 \<and> snd e \<in> T" "kb_ok T"
  "\<lambda>c e. done_pods IsManaged lbl ready (fst c) [e] \<inter> snd c" "\<lambda>m. (km_ownerName m, dom (kx_desired (km_expectation m)))" arrived
  "\<lambda>m. int (card (outstanding m))" for IsManaged lbl ready T
proof (unfold_locales, goal_cases)
  case (3 m e)
  obtain ev now where e: "e = (ev, now)" by (cases e)
  from deliver_done [OF 3(1), of now IsManaged lbl ready ev] 3(2) e obtain m' where
    m': "kb_deliver IsManaged lbl ready e m = Ret m'" "kb_ok T m'" "km_ownerName m' = km_ownerName m"
     "outstanding m' = outstanding m - done_pods IsManaged lbl ready (km_ownerName m) [e]"
     "dom (kx_desired (km_expectation m')) = dom (kx_desired (km_expectation m))" by auto
  then have "outstanding m' = outstanding m" using 3(3) outstanding_dom [of m] by (auto simp: arrived_def)
  with m' show ?case by (simp add: arrived_def)
next
  case (4 m e)
  then show ?case using finite_outstanding [OF 4(1)] by (auto simp: arrived_def)
next
  case (5 m e)
  obtain ev now where e: "e = (ev, now)" by (cases e)
  let ?k = "pod_key (ev_object ev)"
  from deliver_done [OF 5(1), of now IsManaged lbl ready ev] 5(2) e obtain m' where
    m': "kb_deliver IsManaged lbl ready e m = Ret m'" "kb_ok T m'" "km_ownerName m' = km_ownerName m"
     "outstanding m' = outstanding m - done_pods IsManaged lbl ready (km_ownerName m) [e]"
     "dom (kx_desired (km_expectation m')) = dom (kx_desired (km_expectation m))" by auto
  have d: "done_pods IsManaged lbl ready (km_ownerName m) [e] = {?k}" and k: "?k \<in> outstanding m"
    using 5(3) done_pods_single [of IsManaged lbl ready "km_ownerName m" e] e by (auto simp: arrived_def)
  have "card (outstanding m') = card (outstanding m) - 1" using m'(4) d k by simp
  moreover have "arrived m' = insert ?k (arrived m)" using m'(4,5) d k outstanding_dom [of m] by (auto simp: arrived_def)
  ultimately show ?case using m' d k 5(4) outstanding_dom [of m] by (auto simp: arrived_def of_nat_diff)
qed (auto simp: finite_done_pods)

lemma events_done:
  assumes "kb_ok T m" and "\<And>e. e \<in> set es \<Longrightarrow> snd e \<noteq> 0 \<and> snd e \<in> T"
  shows "\<exists>m'. kb_events IsManaged lbl ready es m = Ret m' \<and> kb_ok T m' \<and>
     outstanding m' = outstanding m - done_pods IsManaged lbl ready (km_ownerName m) es \<and>
     dom (kx_desired (km_expectation m')) = dom (kx_desired (km_expectation m))"
proof -
  let ?D = "dom (kx_desired (km_expectation m))" and ?P = "done_pods IsManaged lbl ready (km_ownerName m) es"
  have R: "(\<Union>e \<in> set es. done_pods IsManaged lbl ready (km_ownerName m) [e] \<inter> ?D) - arrived m = ?P \<inter> outstanding m"
    using outstanding_dom [of m] done_pods_UN [of IsManaged lbl ready "km_ownerName m" es] unfolding arrived_def by blast
  have "card (?P \<inter> outstanding m) \<le> card (outstanding m)" by (rule card_mono) (simp_all add: finite_outstanding [OF assms(1)])
  with kb_monitor.run_effect [where IsManaged = IsManaged and lbl = lbl and ready = ready and es = es, OF assms] obtain m' where m': "kb_events IsManaged lbl ready es m = Ret m'" "kb_ok T m'"
    "dom (kx_desired (km_expectation m')) = ?D" "arrived m' = arrived m \<union> (?P \<inter> outstanding m)"
    unfolding fst_conv snd_conv R by (auto simp: kb_events_def Let_def)
  have "outstanding m' = ?D - arrived m'" using m'(3) outstanding_dom [of m'] by (auto simp: arrived_def)
  also have "\<dots> = outstanding m - ?P" using m'(4) outstanding_dom [of m] by (auto simp: arrived_def)
  finally show ?thesis using m' by blast
qed

section \<open>The descriptions\<close>

lemma newPodInfos_names:
  assumes "newPodInfos ns owner node nPods nano = Ret infos"
  shows "int (length infos) = nPods" and "distinct (map pi_Name infos)" and "distinct (map info_key infos)"
  using assms by (auto simp: newPodInfos_def distinct_map inj_on_def info_key_def itoa_def split: if_splits)

lemma watch_desired:
  "foldl (\<lambda>d i. d(info_key i \<mapsto> 0)) d infos = (\<lambda>k. if k \<in> info_key ` set infos then Some 0 else d k)"
  by (induction infos arbitrary: d) auto

lemma watch_ok:
  assumes "distinct (map info_key infos)" and "km_expectation m = kb_NewExpectation" and "length infos < 2 ^ 31"
  defines "m' \<equiv> m\<lparr>km_expectation := kb_Watch (int (length infos)) infos (km_expectation m)\<rparr>"
  shows "kb_ok T m'" and "outstanding m' = info_key ` set infos" and "dom (kx_desired (km_expectation m')) = info_key ` set infos"
proof -
  have d: "kx_desired (km_expectation m') = (\<lambda>k. if k \<in> info_key ` set infos then Some 0 else None)"
    using assms(2) by (simp add: m'_def kb_Watch_def watch_desired kb_NewExpectation_def)
  show dom: "dom (kx_desired (km_expectation m')) = info_key ` set infos" unfolding d by (auto split: if_splits)
  show o: "outstanding m' = info_key ` set infos" by (auto simp: outstanding_def d)
  have "card (info_key ` set infos) = length infos" using assms(1) by (metis distinct_card length_map set_map)
  moreover have "ran (kx_desired (km_expectation m')) \<subseteq> {0}" by (auto simp: d ran_def split: if_splits)
  ultimately show "kb_ok T m'" unfolding kb_ok_def dom o using assms(3) by (auto simp: m'_def kb_Watch_def)
qed

section \<open>Properties\<close>

text \<open>C31: the kubelet benchmark waits for every pod it bound, and only for those. When the template
  is valid and the client is there, the run counts each requested pod once, when it is first
  seen ready or deleted; events of other pods do not count, so the wait group never panics.
  It keeps waiting as long as one requested pod is missing, and then reports how many
  bindings had succeeded by then and a 90th percentile of one observation time per pod.\<close>

theorem kubelet_bench_waits:
  assumes env: "be_setup env = None" "be_synced env" "check_template env target dflt = Ret tpl" "\<not> be_cancelled env"
      "P unwrapClient (be_hub env) None = Ret (err, Some c)"
    and req: "\<And>i. be_toReq env i (Some c) = Ret (mk i)"
    and n: "0 < nPods" "nPods < 2 ^ 31" and rng: "range_laws rng"
    and clock: "\<And>e. e \<in> set (be_events env) \<Longrightarrow> snd e \<noteq> 0"
    and infos: "newPodInfos (om_Namespace (pod_Meta tpl)) target nodeName nPods (be_nano env) = Ret infos"
  shows "if info_key ` set infos \<subseteq> done_pods (be_IsManaged env) (be_OwnerNameLabel env) (be_IsPodReady env) target (be_events env)
    then \<exists>ts latency. int (length ts) = nPods \<and> set ts \<subseteq> snd ` set (be_events env) \<and> percentile90 ts (be_start env) = Ret latency \<and>
           kb_run P rng env nodeName target nPods dflt =
             Ret (Some \<lparr> kr_bound = int (length (filter (\<lambda>i. be_BindPod env (mk i) = Some None) infos)), kr_pods = nPods, kr_latency = latency \<rparr>)
    else kb_run P rng env nodeName target nPods dflt = Blocked"
proof -
  let ?T = "snd ` set (be_events env)"
  let ?D = "done_pods (be_IsManaged env) (be_OwnerNameLabel env) (be_IsPodReady env) target (be_events env)"
  note names = newPodInfos_names [OF infos]
  define m where "m = (kb_NewPodMonitor target)\<lparr>km_expectation := kb_Watch (int (length infos)) infos (km_expectation (kb_NewPodMonitor target))\<rparr>"
  have m: "kb_ok ?T m" "outstanding m = info_key ` set infos" "dom (kx_desired (km_expectation m)) = info_key ` set infos"
    "km_ownerName m = target"
    using watch_ok [OF names(3), of "kb_NewPodMonitor target"] names(1) n(2) by (simp_all add: m_def kb_NewPodMonitor_def)
  have cl: "snd e \<noteq> 0 \<and> snd e \<in> ?T" if "e \<in> set (be_events env)" for e
    using clock that by simp
  obtain m' where m': "kb_events (be_IsManaged env) (be_OwnerNameLabel env) (be_IsPodReady env) (be_events env) m = Ret m'"
    "kb_ok ?T m'" "outstanding m' = info_key ` set infos - ?D" "dom (kx_desired (km_expectation m')) = info_key ` set infos"
    using events_done [OF m(1) cl, of "be_events env" "be_IsManaged env" "be_OwnerNameLabel env" "be_IsPodReady env"] unfolding m(2-4) by blast
  have reqs: "newBindingRequests (be_toReq env) (Some c) infos = Ret (map mk infos)"
    unfolding newBindingRequests_def by (rule go_traverse_Ret) (rule req)
  have bound: "count_ok (returned (map (be_BindPod env) (map mk infos))) = int (length (filter (\<lambda>i. be_BindPod env (mk i) = Some None) infos))"
    using names(1) n(2) by (simp add: count_ok_returned filter_map comp_def)
  have wg: "kx_wg (km_expectation m') = Some (int (card (outstanding m')))" using m'(2) by (simp add: kb_ok_def)
  have add: "wg_Add (int (length infos)) 0 = Ret (int (length infos))" by (rule wg_Add_new) (use names(1) n in simp_all)
  have run: "kb_run P rng env nodeName target nPods dflt =
      (if outstanding m' \<noteq> {} then Blocked
       else go_bind (kb_Since rng (be_start env) m') (\<lambda>latency.
         Ret (Some \<lparr> kr_bound = int (length (filter (\<lambda>i. be_BindPod env (mk i) = Some None) infos)), kr_pods = nPods, kr_latency = latency \<rparr>)))"
    using env infos reqs m'(1) wg bound finite_outstanding [OF m'(2)] add
    by (simp add: kb_run_def kb_measure_def card_gt_0_iff flip: m_def)
  show ?thesis
  proof (cases "info_key ` set infos \<subseteq> ?D")
    case False
    then have "outstanding m' \<noteq> {}" using m'(3) by auto
    with False run show ?thesis by simp
  next
    case True
    let ?d = "kx_desired (km_expectation m')"
    let ?ts = "map (\<lambda>k. the (?d k)) (rng ?d)"
    have o: "outstanding m' = {}" using True m'(3) by auto
    have r: "set (rng ?d) = dom ?d" "distinct (rng ?d)" using rng m'(4) by (auto simp: range_laws_def)
    have "length ?ts = card (info_key ` set infos)" using r m'(4) by (metis distinct_card length_map)
    then have len: "int (length ?ts) = nPods" using names(1,3) by (metis distinct_card length_map set_map)
    have "set ?ts \<subseteq> ?T" using r(1) o m'(2) by (fastforce simp: kb_ok_def outstanding_def ran_def)
    moreover have "?ts \<noteq> []" using len n(1) by auto
    then obtain latency where lat: "percentile90 ?ts (be_start env) = Ret latency" using percentile90_Ret by blast
    moreover have "kb_run P rng env nodeName target nPods dflt =
        Ret (Some \<lparr> kr_bound = int (length (filter (\<lambda>i. be_BindPod env (mk i) = Some None) infos)), kr_pods = nPods, kr_latency = latency \<rparr>)"
      using run o lat by (simp add: kb_Since_def Let_def)
    ultimately show ?thesis unfolding if_P [OF True] using len by blast
  qed
qed

text \<open>One pod is asked for and seen ready; an event of another pod comes first.\<close>

definition bench_template :: pod where
  "bench_template =
     \<lparr> pod_Meta = \<lparr> om_Namespace = ''default'', om_Name = ''t-template'', om_UID = [], om_ResourceVersion = [],
                    om_Labels = [''owner'' \<mapsto> ''t''], om_Annotations = Map.empty, om_DeletionTimestamp = None \<rparr>,
       pod_NodeName = [], pod_ReadinessGates = [], pod_Containers = [], pod_InitContainers = [],
       pod_Status = \<lparr> st_Phase = ''Pending'', st_Conditions = [], st_HostIP = [], st_PodIP = [], st_StartTime = None,
                      st_ContainerStatuses = [], st_InitContainerStatuses = [] \<rparr> \<rparr>"

definition named_pod :: "string \<Rightarrow> pod" where
  "named_pod name = bench_template\<lparr>pod_Meta := (pod_Meta bench_template)\<lparr>om_Name := name\<rparr>\<rparr>"

definition sample_toReq :: "PodInfo \<Rightarrow> kd_client option \<Rightarrow> PodBindingRequest go" where
  "sample_toReq i c =
     (case c of None \<Rightarrow> Panic NilDeref
      | Some k \<Rightarrow> Ret \<lparr> br_Source = kdc_ID k, br_Epoch = kdc_Epoch k, br_OwnerNamespace = pi_Namespace i, br_OwnerName = pi_OwnerName i,
                        br_PodName = pi_Name i, br_NodeName = pi_NodeName i \<rparr>)"

definition kb_sample :: kb_env where
  "kb_sample =
     \<lparr> be_setup = None, be_synced = True, be_getPod = (\<lambda>ns n. Inr bench_template), be_IsTemplatePod = (\<lambda>p. True),
       be_IsManaged = (\<lambda>m. True), be_OwnerNameLabel = ''owner'', be_IsKubeletResponsibleFor = (\<lambda>p. False),
       be_hub = [None, Some \<lparr> kdc_ID = ''test/n1'', kdc_Epoch = ''e1'' \<rparr>], be_toReq = sample_toReq, be_BindPod = (\<lambda>r. Some None),
       be_IsPodReady = (\<lambda>p. True), be_events = [(CreateEvent (named_pod ''other''), 8), (CreateEvent (named_pod ''t-7-0''), 9)],
       be_cancelled = False, be_nano = 7, be_start = 4 \<rparr>"

theorem kubelet_bench_waits_witness:
  "\<exists>ts latency. int (length ts) = 1 \<and> percentile90 ts 4 = Ret latency \<and>
     kb_run go_poll sorted_range kb_sample ''n1'' ''t'' 1 False =
       Ret (Some \<lparr> kr_bound = 1, kr_pods = 1, kr_latency = latency \<rparr>)"
proof -
  let ?c = "\<lparr> kdc_ID = ''test/n1'', kdc_Epoch = ''e1'' \<rparr>" and ?infos = "[\<lparr> pi_Namespace = ''default'', pi_Name = ''t-7-0'', pi_OwnerName = ''t'', pi_NodeName = ''n1'' \<rparr>]"
  let ?mk = "\<lambda>i. \<lparr> br_Source = ''test/n1'', br_Epoch = ''e1'', br_OwnerNamespace = pi_Namespace i, br_OwnerName = pi_OwnerName i,
                  br_PodName = pi_Name i, br_NodeName = pi_NodeName i \<rparr>"
  have env: "be_setup kb_sample = None" "be_synced kb_sample" "check_template kb_sample ''t'' False = Ret bench_template"
    "\<not> be_cancelled kb_sample" "go_poll unwrapClient (be_hub kb_sample) None = Ret (None, Some ?c)"
    "be_toReq kb_sample i (Some ?c) = Ret (?mk i)" "be_start kb_sample = 4" "be_BindPod kb_sample r = Some None" for i r
    by (simp_all add: kb_sample_def check_template_def bench_template_def unwrapClient_def sample_toReq_def)
  have clock: "snd e \<noteq> 0" if "e \<in> set (be_events kb_sample)" for e using that by (auto simp: kb_sample_def)
  have ch: "char_of (55 :: nat) = CHR ''7''" "char_of (48 :: nat) = CHR ''0''" by code_simp+
  have infos: "newPodInfos (om_Namespace (pod_Meta bench_template)) ''t'' ''n1'' 1 (be_nano kb_sample) = Ret ?infos"
    by (simp add: newPodInfos_def bench_template_def kb_sample_def itoa_def itoa_nat.simps digit_char_def ch)
  have "info_key ` set ?infos \<subseteq> done_pods (be_IsManaged kb_sample) (be_OwnerNameLabel kb_sample) (be_IsPodReady kb_sample) ''t'' (be_events kb_sample)"
    by (auto simp: done_pods_def info_key_def kb_sample_def named_pod_def bench_template_def kb_FilterEvent_def pod_key_def image_iff)
  with kubelet_bench_waits [where P = go_poll, OF env(1-6) _ _ sorted_range_laws clock infos] show ?thesis by (auto simp: env)
qed

end
