(* ===== verification/Bench_Breakdown.thy ===== *)
theory Bench_Breakdown
  imports Bench Kubelet
begin

text \<open>
  \<open>src/experiments/microbench/breakdown\<close>: the benchmarks of single control-plane stages. Each
  shakes hands with one service, asks it for pods for the selected targets and reports how
  many calls returned without an error and how long all of them took.

  The four files \<open>deployment\<close>, \<open>replicaset\<close>, \<open>scheduler\<close> and \<open>endpoints/common.go\<close> have the same
  handshake and address lister up to names (\<open>service_handshake\<close>, \<open>service_lister\<close>), and
  \<open>autoscaler/common.go\<close> is the same file as \<open>deployment/common.go\<close>. What the cluster and the
  services answer during a run is a record per benchmark; a call that never returns is
  \<open>None\<close> in its answer, and then the run is \<open>Blocked\<close>.
\<close>

section \<open>Clients\<close>

definition test_client :: string where "test_client = ''test''"

record bench_client =
  bc_ID :: string
  bc_Epoch :: string

text \<open>\<open>newReq\<close> is \<open>kdrpc.NewHandshakeRequest\<close>; \<open>call\<close> sends the request and returns the epoch of the
  answer.\<close>

definition service_handshake ::
  "string \<Rightarrow> (string \<Rightarrow> string \<Rightarrow> HandshakeRequest) \<Rightarrow> (HandshakeRequest \<Rightarrow> apierr + string) \<Rightarrow> string \<Rightarrow> string \<Rightarrow>
   (apierr + string) go" where
  "service_handshake service newReq call src dest =
     (if src \<noteq> test_client then Panic (PanicMsg (''invalid source: expected '' @ test_client @ '', got '' @ src))
      else if dest \<noteq> service then Panic (PanicMsg (''invalid destination: expected '' @ service @ '', got '' @ dest))
      else (let msg = newReq src dest; epoch = hr_Epoch msg
            in case call msg of
                 Inl err \<Rightarrow> Ret (Inl err)
               | Inr e \<Rightarrow>
                   if epoch \<noteq> e then Ret (Inl (OtherErr (''epoch mismatch: expected '' @ epoch @ '', got '' @ e)))
                   else Ret (Inr epoch)))"

definition dpService :: string where "dpService = ''dp''"
definition rsService :: string where "rsService = ''rs''"
definition epService :: string where "epService = ''ep''"
definition schedService :: string where "schedService = ''sched''"

definition doDeploymentHandshake where "doDeploymentHandshake = service_handshake dpService"
definition doReplicaSetHandshake where "doReplicaSetHandshake = service_handshake rsService"
definition doEndpointsHandshake where "doEndpointsHandshake = service_handshake epService"
definition doSchedulerHandshake where "doSchedulerHandshake = service_handshake schedService"

text \<open>The addresses of the ready pods of the component that serves; \<open>listed\<close> answers the listing.\<close>

definition service_lister :: "(pod \<Rightarrow> bool) \<Rightarrow> string \<Rightarrow> apierr + pod list \<Rightarrow> apierr + string list" where
  "service_lister ready port listed =
     (case listed of
        Inl err \<Rightarrow> Inl err
      | Inr pods \<Rightarrow>
          if pods = [] then Inr []
          else Inr (map (\<lambda>p. st_PodIP (pod_Status p) @ port) (filter ready pods)))"

definition newDeploymentServiceLister where
  "newDeploymentServiceLister ready port list = service_lister ready port (list ''kube-system'' ''component'' ''kube-controller-manager'')"

definition newReplicaSetServiceLister where
  "newReplicaSetServiceLister ready port list = service_lister ready port (list ''kube-system'' ''component'' ''kube-controller-manager'')"

definition newEndpointsServiceLister where
  "newEndpointsServiceLister ready port list = service_lister ready port (list ''kube-system'' ''component'' ''kube-controller-manager'')"

definition newSchedulerLister where
  "newSchedulerLister ready port list = service_lister ready port (list ''kube-system'' ''component'' ''kube-scheduler'')"

text \<open>Waiting for the client of the hub; the error of the wait is dropped, so the pointer may stay nil.\<close>

definition unwrap_hub :: "bench_client option \<Rightarrow> bench_client option \<Rightarrow> ((apierr + bool) \<times> bench_client option) go" where
  "unwrap_hub hub _ = Ret (Inr (hub \<noteq> None), hub)"

text \<open>The answers of calls that may not return: all of them, or \<open>None\<close>.\<close>

fun all_answers :: "'a option list \<Rightarrow> 'a list option" where
  "all_answers [] = Some []"
| "all_answers (None # xs) = None"
| "all_answers (Some x # xs) = map_option ((#) x) (all_answers xs)"

record bench_report =
  rp_scaled :: int
  rp_returned :: int
  rp_targets :: int
  rp_us :: int

section \<open>deployment/common.go and autoscaler/common.go\<close>

record DeploymentWatchRequest =
  dw_Source :: string
  dw_Epoch :: string
  dw_Target :: "string \<times> string"
  dw_Replicas :: int

definition newDeploymentWatchRequest :: "bench_client \<Rightarrow> objmeta \<Rightarrow> int \<Rightarrow> DeploymentWatchRequest" where
  "newDeploymentWatchRequest c dp replicas =
     \<lparr> dw_Source = bc_ID c, dw_Epoch = bc_Epoch c, dw_Target = (om_Namespace dp, om_Name dp), dw_Replicas = int32 replicas \<rparr>"

record dp_env =
  dp_targets :: "apierr + objmeta list"
  dp_IsManaged :: "objmeta \<Rightarrow> bool"
  dp_rsPolls :: "(apierr + replicaset list) list"
  dp_hub :: "bench_client option list"
  dp_Watch :: "DeploymentWatchRequest \<Rightarrow> apierr option option"
  dp_Scale :: "objmeta \<Rightarrow> int \<Rightarrow> apierr option"
  dp_cancelled :: "bool \<times> bool"
  dp_start :: time
  dp_end :: time

text \<open>Watchers and scale updates: both groups of goroutines are waited for, the scale updates first.\<close>

definition dp_measure :: "dp_env \<Rightarrow> bench_client option \<Rightarrow> objmeta list \<Rightarrow> int \<Rightarrow> bench_report option go" where
  "dp_measure env kdClient targets perTarget =
     (case kdClient of
        None \<Rightarrow> Panic NilDeref
      | Some c \<Rightarrow>
          (let nScaled = count_ok (map (\<lambda>t. dp_Scale env t (int32 perTarget)) targets)
           in if fst (dp_cancelled env) then Ret None
              else (case all_answers (map (\<lambda>t. dp_Watch env (newDeploymentWatchRequest c t perTarget)) targets) of
                      None \<Rightarrow> Blocked
                    | Some rs \<Rightarrow>
                        if snd (dp_cancelled env) then Ret None
                        else Ret (Some \<lparr> rp_scaled = nScaled, rp_returned = count_ok rs, rp_targets = int (length targets),
                                         rp_us = d_Microseconds (t_Since (dp_end env) (dp_start env)) \<rparr>))))"

definition deployment_run ::
  "(apierr + replicaset list, unit) poll \<Rightarrow> (bench_client option, bench_client option) poll \<Rightarrow> dp_env \<Rightarrow> int \<Rightarrow> bool \<Rightarrow>
   bench_report option go" where
  "deployment_run P Q env nPods fallback =
     (case dp_targets env of
        Inl err \<Rightarrow> Fatal (''Error listing scaling targets: '' @ err_Error err)
      | Inr targets \<Rightarrow>
          if targets = [] then Fatal ''No scaling targets selected''
          else if \<exists>dp \<in> set targets. fallback \<noteq> (\<not> dp_IsManaged env dp)
          then Fatal ''Deployment must not be managed in fallback mode and vice versa''
          else go_bind (P (waitForReplicaSets (length targets)) (dp_rsPolls env) ()) (\<lambda>(err, _).
                 case err of
                   Some e \<Rightarrow> Fatal (''Error waiting for ReplicaSets: '' @ err_Error e)
                 | None \<Rightarrow>
                     (let perTarget = nPodsPerTarget nPods (length targets)
                      in go_bind (Q unwrap_hub (dp_hub env) None) (\<lambda>(_, kdClient). dp_measure env kdClient targets perTarget))))"

text \<open>The autoscaler benchmark is the same code in another package.\<close>

definition as_doDeploymentHandshake where "as_doDeploymentHandshake = doDeploymentHandshake"
definition as_newDeploymentServiceLister where "as_newDeploymentServiceLister = newDeploymentServiceLister"
definition as_newDeploymentWatchRequest where "as_newDeploymentWatchRequest = newDeploymentWatchRequest"
definition autoscaler_run where "autoscaler_run = deployment_run"

section \<open>replicaset/common.go\<close>

text \<open>\<open>rv_Scale\<close> sends the blocking scaling request for a ReplicaSet with its new number of replicas.\<close>

record rs_env =
  rv_targets :: "apierr + objmeta list"
  rv_IsManaged :: "objmeta \<Rightarrow> bool"
  rv_IsFallbackScaling :: "objmeta \<Rightarrow> bool"
  rv_hub :: "bench_client option list"
  rv_Scale :: "bench_client \<Rightarrow> objmeta \<Rightarrow> int \<Rightarrow> apierr option option"
  rv_cancelled :: bool
  rv_start :: time
  rv_end :: time

definition replicaset_run ::
  "(bench_client option, bench_client option) poll \<Rightarrow> rs_env \<Rightarrow> int \<Rightarrow> bool \<Rightarrow> bench_report option go" where
  "replicaset_run Q env nPods fallback =
     (case rv_targets env of
        Inl err \<Rightarrow> Fatal (''Error listing scaling targets: '' @ err_Error err)
      | Inr targets \<Rightarrow>
          if targets = [] then Fatal ''No scaling targets selected''
          else (case find (\<lambda>rs. \<not> rv_IsManaged env rs \<or> fallback \<noteq> rv_IsFallbackScaling env rs) targets of
                  Some rs \<Rightarrow>
                    if \<not> rv_IsManaged env rs then Fatal ''ReplicaSet must be managed in this breakdown test''
                    else Fatal ''ReplicaSet should set fallback label if and only if in fallback mode''
                | None \<Rightarrow>
                    (let perTarget = nPodsPerTarget nPods (length targets)
                     in go_bind (Q unwrap_hub (rv_hub env) None) (\<lambda>(_, kdClient).
                          case kdClient of
                            None \<Rightarrow> Panic NilDeref
                          | Some c \<Rightarrow>
                              (case all_answers (map (\<lambda>t. rv_Scale env c t (int32 perTarget)) targets) of
                                 None \<Rightarrow> Blocked
                               | Some rs \<Rightarrow>
                                   if rv_cancelled env then Ret None
                                   else Ret (Some \<lparr> rp_scaled = count_ok rs, rp_returned = count_ok rs, rp_targets = int (length targets),
                                                    rp_us = d_Microseconds (t_Since (rv_end env) (rv_start env)) \<rparr>))))))"

section \<open>scheduler/common.go\<close>

record sc_env =
  sc_getPod :: "string \<Rightarrow> string \<Rightarrow> apierr + pod"
  sc_IsTemplatePod :: "pod \<Rightarrow> bool"
  sc_OwnerNameLabel :: string
  sc_IsFallbackBinding :: "pod \<Rightarrow> bool"
  sc_hub :: "bench_client option list"
  sc_SchedulePods :: "bench_client \<Rightarrow> string \<times> string \<Rightarrow> int \<Rightarrow> apierr option option"
  sc_start :: time
  sc_end :: time

text \<open>The result is the measured time, or nothing when the call returned an error.\<close>

definition scheduler_run ::
  "(bench_client option, bench_client option) poll \<Rightarrow> sc_env \<Rightarrow> string \<Rightarrow> int \<Rightarrow> bool \<Rightarrow> int option go" where
  "scheduler_run Q env target nPods fallback =
     (case sc_getPod env ''default'' (target @ ''-template'') of
        Inl err \<Rightarrow> Fatal (''Error getting template pod: '' @ err_Error err)
      | Inr templatePod \<Rightarrow>
          if \<not> sc_IsTemplatePod env templatePod then Fatal ''Invalid template pod: missing template pod label''
          else if mget (om_Labels (pod_Meta templatePod)) (sc_OwnerNameLabel env) \<noteq> target
          then Fatal (''Invalid owner label, expected '' @ target @ '', got '' @
                      mget (om_Labels (pod_Meta templatePod)) (sc_OwnerNameLabel env))
          else if fallback \<noteq> sc_IsFallbackBinding env templatePod
          then Fatal ''Invalid template pod: should set fallback binding label if and only if in fallback mode''
          else go_bind (Q unwrap_hub (sc_hub env) None) (\<lambda>(_, kdClient).
                 case kdClient of
                   None \<Rightarrow> Panic NilDeref
                 | Some c \<Rightarrow>
                     (case sc_SchedulePods env c (om_Namespace (pod_Meta templatePod), target) nPods of
                        None \<Rightarrow> Blocked
                      | Some (Some err) \<Rightarrow> Ret None
                      | Some None \<Rightarrow> Ret (Some (d_Microseconds (t_Since (sc_end env) (sc_start env)))))))"

section \<open>endpoints/common.go\<close>

record EndpointsWatchRequest =
  ew_Source :: string
  ew_Epoch :: string
  ew_Service :: "string \<times> string"

definition newEndpointsWatchRequest :: "bench_client \<Rightarrow> objmeta \<Rightarrow> EndpointsWatchRequest" where
  "newEndpointsWatchRequest c service =
     \<lparr> ew_Source = bc_ID c, ew_Epoch = bc_Epoch c, ew_Service = (om_Namespace service, om_Name service) \<rparr>"

definition checkMetadata :: "(objmeta \<Rightarrow> bool) \<Rightarrow> objmeta \<Rightarrow> bool \<Rightarrow> unit go" where
  "checkMetadata IsManaged obj fallback =
     (if mget (om_Labels obj) ''app'' \<noteq> om_Name obj
      then Fatal (''ReplicaSet \"app\" label must match name: expected '' @ om_Name obj @ '', got '' @ mget (om_Labels obj) ''app'')
      else if fallback \<noteq> (\<not> IsManaged obj) then Fatal ''ReplicaSet should set fallback label if and only if in fallback mode''
      else Ret ())"

record ep_env =
  ep_services :: "apierr + objmeta list"
  ep_getRS :: "string \<Rightarrow> string \<Rightarrow> apierr + replicaset"
  ep_IsManaged :: "objmeta \<Rightarrow> bool"
  ep_Scale :: "objmeta \<Rightarrow> int \<Rightarrow> apierr option"
  ep_rsPolls :: "(apierr + replicaset list) list"
  ep_hub :: "bench_client option list"
  ep_Watch :: "EndpointsWatchRequest \<Rightarrow> apierr option option"
  ep_Update :: "objmeta \<Rightarrow> string smap \<Rightarrow> apierr option"
  ep_cancelled :: "bool \<times> bool"
  ep_start :: time
  ep_end :: time

text \<open>The ReplicaSet of a service, after all checks.\<close>

definition matching_rs :: "ep_env \<Rightarrow> bool \<Rightarrow> objmeta \<Rightarrow> replicaset go" where
  "matching_rs env fallback svc =
     go_bind (checkMetadata (ep_IsManaged env) svc fallback) (\<lambda>_.
       case ep_getRS env (om_Namespace svc) (om_Name svc) of
         Inl err \<Rightarrow> Fatal (''Error getting matching ReplicaSet for Service '' @ om_Namespace svc @ ''/'' @ om_Name svc @ '': '' @ err_Error err)
       | Inr rs \<Rightarrow>
           go_bind (checkMetadata (ep_IsManaged env) (rs_Meta rs) fallback) (\<lambda>_.
             if rs_Replicas rs \<noteq> 0
             then Fatal (''ReplicaSet '' @ om_Namespace (rs_Meta rs) @ ''/'' @ om_Name (rs_Meta rs) @ '' has non-zero initial replicas'')
             else Ret rs))"

fun scale_all :: "ep_env \<Rightarrow> int \<Rightarrow> replicaset list \<Rightarrow> unit go" where
  "scale_all env n [] = Ret ()"
| "scale_all env n (rs # rest) =
     (case ep_Scale env (rs_Meta rs) n of
        Some err \<Rightarrow> Fatal (''Error scaling up '' @ om_Namespace (rs_Meta rs) @ ''/'' @ om_Name (rs_Meta rs) @ '': '' @ err_Error err)
      | None \<Rightarrow> scale_all env n rest)"

definition waitForReadyPods :: "int \<Rightarrow> apierr + replicaset list \<Rightarrow> unit \<Rightarrow> ((apierr + bool) \<times> unit) go" where
  "waitForReadyPods perTarget listed u =
     (case listed of
        Inl err \<Rightarrow> Fatal (''Error listing ReplicaSets: '' @ err_Error err)
      | Inr rsList \<Rightarrow> Ret (Inr (list_all (\<lambda>rs. rs_ReadyReplicas rs = int32 perTarget) rsList), ()))"

definition service_selector :: "string \<Rightarrow> objmeta \<Rightarrow> string smap" where
  "service_selector selector service = [''app'' \<mapsto> om_Name service, ''workload'' \<mapsto> selector]"

definition ep_measure :: "ep_env \<Rightarrow> string \<Rightarrow> bench_client option \<Rightarrow> objmeta list \<Rightarrow> bench_report option go" where
  "ep_measure env selector kdClient services =
     (case kdClient of
        None \<Rightarrow> Panic NilDeref
      | Some c \<Rightarrow>
          (let nUpdated = count_ok (map (\<lambda>s. ep_Update env s (service_selector selector s)) services)
           in if fst (ep_cancelled env) then Ret None
              else (case all_answers (map (\<lambda>s. ep_Watch env (newEndpointsWatchRequest c s)) services) of
                      None \<Rightarrow> Blocked
                    | Some rs \<Rightarrow>
                        if snd (ep_cancelled env) then Ret None
                        else Ret (Some \<lparr> rp_scaled = nUpdated, rp_returned = count_ok rs, rp_targets = int (length services),
                                         rp_us = d_Microseconds (t_Since (ep_end env) (ep_start env)) \<rparr>))))"

definition endpoints_run ::
  "(apierr + replicaset list, unit) poll \<Rightarrow> (bench_client option, bench_client option) poll \<Rightarrow> ep_env \<Rightarrow> string \<Rightarrow> int \<Rightarrow> bool \<Rightarrow>
   bench_report option go" where
  "endpoints_run P Q env selector nPods fallback =
     (case ep_services env of
        Inl err \<Rightarrow> Fatal (''Error listing Services: '' @ err_Error err)
      | Inr services \<Rightarrow>
          if services = [] then Fatal ''No Service selected''
          else go_bind (go_traverse (matching_rs env fallback) services) (\<lambda>replicaSets.
                 let perTarget = nPodsPerTarget nPods (length services)
                 in go_bind (scale_all env (int32 perTarget) replicaSets) (\<lambda>_.
                      go_bind (P (waitForReadyPods perTarget) (ep_rsPolls env) ()) (\<lambda>(err, _).
                        case err of
                          Some e \<Rightarrow> Fatal (''Error waiting for ready pods: '' @ err_Error e)
                        | None \<Rightarrow>
                            go_bind (Q unwrap_hub (ep_hub env) None) (\<lambda>(_, kdClient). ep_measure env selector kdClient services)))))"

section \<open>Properties\<close>

text \<open>A Service is prepared for a run: it and its ReplicaSet have the labels of the mode, the ReplicaSet is empty
  and accepts the scale \<open>n\<close>.\<close>

definition service_prepared :: "ep_env \<Rightarrow> bool \<Rightarrow> int \<Rightarrow> objmeta \<Rightarrow> bool" where
  "service_prepared env fallback n svc \<longleftrightarrow>
     mget (om_Labels svc) ''app'' = om_Name svc \<and> ep_IsManaged env svc = (\<not> fallback) \<and>
     (\<exists>rs. ep_getRS env (om_Namespace svc) (om_Name svc) = Inr rs \<and>
        mget (om_Labels (rs_Meta rs)) ''app'' = om_Name (rs_Meta rs) \<and> ep_IsManaged env (rs_Meta rs) = (\<not> fallback) \<and>
        rs_Replicas rs = 0 \<and> ep_Scale env (rs_Meta rs) n = None)"

lemma matching_rs_Ret_iff:
  "matching_rs env fallback svc = Ret rs \<longleftrightarrow>
     mget (om_Labels svc) ''app'' = om_Name svc \<and> ep_IsManaged env svc = (\<not> fallback) \<and>
     ep_getRS env (om_Namespace svc) (om_Name svc) = Inr rs \<and>
     mget (om_Labels (rs_Meta rs)) ''app'' = om_Name (rs_Meta rs) \<and> ep_IsManaged env (rs_Meta rs) = (\<not> fallback) \<and> rs_Replicas rs = 0"
  by (auto simp: matching_rs_def checkMetadata_def split: if_splits sum.splits)

lemma prepare_iff:
  "(\<exists>rss. go_traverse (matching_rs env fallback) svcs = Ret rss \<and> scale_all env n rss = Ret ()) \<longleftrightarrow>
     (\<forall>svc \<in> set svcs. service_prepared env fallback n svc)"
proof (induction svcs)
  case (Cons svc svcs)
  have "(\<exists>rss. go_traverse (matching_rs env fallback) (svc # svcs) = Ret rss \<and> scale_all env n rss = Ret ()) \<longleftrightarrow>
      (\<exists>rs. matching_rs env fallback svc = Ret rs \<and> ep_Scale env (rs_Meta rs) n = None) \<and>
      (\<exists>rss. go_traverse (matching_rs env fallback) svcs = Ret rss \<and> scale_all env n rss = Ret ())"
    by (fastforce split: option.splits)
  with Cons.IH show ?case by (auto simp: matching_rs_Ret_iff service_prepared_def)
qed simp

text \<open>The wait ends at the first listing whose members all have the number of ready pods.\<close>

lemma wait_ready_iff:
  assumes "poll_laws P"
  shows "P (waitForReadyPods n) es () = Ret (None, ()) \<longleftrightarrow>
     (\<exists>pre l post. es = map Inr pre @ Inr l # post \<and> list_all (\<lambda>rs. rs_ReadyReplicas rs = int32 n) l \<and>
        (\<forall>l' \<in> set pre. \<not> list_all (\<lambda>rs. rs_ReadyReplicas rs = int32 n) l'))" (is "_ \<longleftrightarrow> ?first es")
proof (induction es)
  case Nil
  then show ?case using poll_nil [OF assms, of "waitForReadyPods n" "()"] by auto
next
  case (Cons e es)
  let ?r = "list_all (\<lambda>rs. rs_ReadyReplicas rs = int32 n)"
  show ?case
  proof (cases e)
    case (Inl err)
    then show ?thesis by (auto simp: poll_cons [OF assms] waitForReadyPods_def Cons_eq_append_conv Cons_eq_map_conv)
  next
    case (Inr l)
    then have "P (waitForReadyPods n) (e # es) () = Ret (None, ()) \<longleftrightarrow> ?r l \<or> P (waitForReadyPods n) es () = Ret (None, ())"
      by (simp add: poll_cons [OF assms] waitForReadyPods_def)
    also have "\<dots> \<longleftrightarrow> ?r l \<or> (\<not> ?r l \<and> ?first es)" using Cons.IH by blast
    also have "\<dots> \<longleftrightarrow> ?first (e # es)"
    proof
      assume "?r l \<or> (\<not> ?r l \<and> ?first es)"
      then show "?first (e # es)"
      proof
        assume "?r l"
        then have "e # es = map Inr [] @ Inr l # es \<and> ?r l \<and> (\<forall>l' \<in> set []. \<not> ?r l')" using Inr by simp
        then show ?thesis by blast
      next
        assume "\<not> ?r l \<and> ?first es"
        then obtain pre l2 post where "es = map Inr pre @ Inr l2 # post" "?r l2" "\<forall>l' \<in> set pre. \<not> ?r l'" "\<not> ?r l" by blast
        then have "e # es = map Inr (l # pre) @ Inr l2 # post \<and> ?r l2 \<and> (\<forall>l' \<in> set (l # pre). \<not> ?r l')" using Inr by simp
        then show ?thesis by blast
      qed
    next
      assume "?first (e # es)"
      then obtain pre l2 post where f: "e # es = map Inr pre @ Inr l2 # post" "?r l2" "\<forall>l' \<in> set pre. \<not> ?r l'" by blast
      show "?r l \<or> (\<not> ?r l \<and> ?first es)"
      proof (cases pre)
        case Nil
        with f Inr show ?thesis by simp
      next
        case (Cons l0 pre')
        with f Inr have "es = map Inr pre' @ Inr l2 # post \<and> ?r l2 \<and> (\<forall>l' \<in> set pre'. \<not> ?r l')" by simp
        then show ?thesis by blast
      qed
    qed
    finally show ?thesis .
  qed
qed

lemma unwrap_hub_eq: "unwrap_hub h s = Ret (Inr (h \<noteq> None), h)"
  by (simp add: unwrap_hub_def)

lemma unwrap_iff:
  assumes "poll_laws Q"
  shows "(\<exists>err. Q unwrap_hub hs None = Ret (err, Some c)) \<longleftrightarrow> (\<exists>k post. hs = replicate k None @ Some c # post)"
proof (induction hs)
  case Nil
  then show ?case using poll_nil [OF assms, of unwrap_hub None] by auto
next
  case (Cons h hs)
  show ?case
  proof (cases h)
    case None
    have "Q unwrap_hub (h # hs) None = Q unwrap_hub hs None" by (subst poll_cons [OF assms]) (simp add: None unwrap_hub_eq)
    then have "(\<exists>err. Q unwrap_hub (h # hs) None = Ret (err, Some c)) \<longleftrightarrow> (\<exists>k post. hs = replicate k None @ Some c # post)"
      using Cons.IH by simp
    also have "\<dots> \<longleftrightarrow> (\<exists>k post. h # hs = replicate k None @ Some c # post)"
    proof
      assume "\<exists>k post. hs = replicate k None @ Some c # post"
      then obtain k post where "h # hs = replicate (Suc k) None @ Some c # post" using None by auto
      then show "\<exists>k post. h # hs = replicate k None @ Some c # post" by blast
    next
      assume "\<exists>k post. h # hs = replicate k None @ Some c # post"
      then obtain k post where k: "h # hs = replicate k None @ Some c # post" by blast
      with None show "\<exists>k post. hs = replicate k None @ Some c # post" by (cases k) auto
    qed
    finally show ?thesis .
  next
    case (Some d)
    then have "(\<exists>k post. h # hs = replicate k None @ Some c # post) \<longleftrightarrow> c = d"
      by (auto simp: Cons_eq_append_conv Cons_replicate_eq intro: exI [of _ "0 :: nat"])
    with Some show ?thesis by (auto simp: poll_cons [OF assms] unwrap_hub_eq)
  qed
qed

lemma all_answers_iff: "all_answers xs = Some rs \<longleftrightarrow> xs = map Some rs"
  by (induction xs arbitrary: rs rule: all_answers.induct) auto

lemma ep_measure_iff:
  assumes "int (length services) < 2 ^ 31"
  shows "ep_measure env selector (Some c) services = Ret (Some rep) \<longleftrightarrow>
     ep_cancelled env = (False, False) \<and> (\<forall>s \<in> set services. ep_Watch env (newEndpointsWatchRequest c s) \<noteq> None) \<and>
     rep = \<lparr> rp_scaled = int (length (filter (\<lambda>s. ep_Update env s (service_selector selector s) = None) services)),
             rp_returned = int (length (filter (\<lambda>s. ep_Watch env (newEndpointsWatchRequest c s) = Some None) services)),
             rp_targets = int (length services), rp_us = d_Microseconds (t_Since (ep_end env) (ep_start env)) \<rparr>"
proof -
  let ?w = "\<lambda>s. ep_Watch env (newEndpointsWatchRequest c s)"
  have up: "count_ok (map (\<lambda>s. ep_Update env s (service_selector selector s)) services) =
      int (length (filter (\<lambda>s. ep_Update env s (service_selector selector s) = None) services))"
    using assms by (simp add: count_ok_length filter_map comp_def)
  have ans: "all_answers (map ?w services) = (if \<forall>s \<in> set services. ?w s \<noteq> None then Some (map (\<lambda>s. the (?w s)) services) else None)"
  proof (induction services)
    case (Cons s services)
    then show ?case by (cases "?w s") auto
  qed simp
  have "count_ok (map (\<lambda>s. the (?w s)) services) = int (length (filter (\<lambda>s. ?w s = Some None) services))"
    if "\<forall>s \<in> set services. ?w s \<noteq> None"
  proof -
    have "filter (\<lambda>s. the (?w s) = None) services = filter (\<lambda>s. ?w s = Some None) services"
      using that by (intro filter_cong) auto
    then show ?thesis using assms by (simp add: count_ok_length filter_map comp_def)
  qed
  then show ?thesis by (cases "ep_cancelled env") (auto simp: ep_measure_def up ans Let_def)
qed

text \<open>C33: when the endpoints benchmark reports. A run ends with a report exactly when Services were
  selected, every one of them and its ReplicaSet has the labels of the mode, starts with no replicas and
  accepts the common scale, some listing shows only ReplicaSets with exactly that number of ready pods (the
  first such one ends the wait), the hub has a client, nothing was cancelled and every Watch call returned;
  the report then counts the accepted updates and the successful calls. The listing need not contain the
  ReplicaSets of the Services: one that is empty, for instance because the ReplicaSets, which are fetched by name, lack the workload label, also ends the wait.\<close>

theorem endpoints_reports_iff:
  assumes "poll_laws P" and "poll_laws Q" and "ep_services env = Inr services" and "int (length services) < 2 ^ 31"
    and "n = int32 (nPodsPerTarget nPods (length services))"
  shows "endpoints_run P Q env selector nPods fallback = Ret (Some rep) \<longleftrightarrow>
     services \<noteq> [] \<and> (\<forall>svc \<in> set services. service_prepared env fallback n svc) \<and>
     (\<exists>pre l post. ep_rsPolls env = map Inr pre @ Inr l # post \<and> list_all (\<lambda>rs. rs_ReadyReplicas rs = n) l \<and>
        (\<forall>l' \<in> set pre. \<not> list_all (\<lambda>rs. rs_ReadyReplicas rs = n) l')) \<and>
     (\<exists>k c post. ep_hub env = replicate k None @ Some c # post \<and> ep_cancelled env = (False, False) \<and>
        (\<forall>s \<in> set services. ep_Watch env (newEndpointsWatchRequest c s) \<noteq> None) \<and>
        rep = \<lparr> rp_scaled = int (length (filter (\<lambda>s. ep_Update env s (service_selector selector s) = None) services)),
                rp_returned = int (length (filter (\<lambda>s. ep_Watch env (newEndpointsWatchRequest c s) = Some None) services)),
                rp_targets = int (length services), rp_us = d_Microseconds (t_Since (ep_end env) (ep_start env)) \<rparr>)"
proof -
  let ?per = "nPodsPerTarget nPods (length services)"
  have m: "ep_measure env selector kc services = Ret (Some rep) \<longleftrightarrow> (\<exists>c. kc = Some c \<and> ep_measure env selector (Some c) services = Ret (Some rep))" for kc
    by (cases kc) (simp_all add: ep_measure_def)
  have "endpoints_run P Q env selector nPods fallback = Ret (Some rep) \<longleftrightarrow>
      services \<noteq> [] \<and> (\<exists>rss. go_traverse (matching_rs env fallback) services = Ret rss \<and> scale_all env n rss = Ret ()) \<and>
      P (waitForReadyPods ?per) (ep_rsPolls env) () = Ret (None, ()) \<and>
      (\<exists>err kc. Q unwrap_hub (ep_hub env) None = Ret (err, kc) \<and> ep_measure env selector kc services = Ret (Some rep))"
  proof (cases "services = []")
    case False
    have opt: "(case err of None \<Rightarrow> x | Some e \<Rightarrow> Fatal (f e)) = Ret r \<longleftrightarrow> err = None \<and> x = Ret r" for err f r and x :: "bench_report option go"
      by (cases err) simp_all
    from False show ?thesis
      by (simp add: endpoints_run_def assms(3) opt Let_def case_prod_beta flip: assms(5)) (simp only: ex_simps conj_assoc [symmetric])
  qed (simp add: endpoints_run_def assms(3))
  also have "(\<exists>err kc. Q unwrap_hub (ep_hub env) None = Ret (err, kc) \<and> ep_measure env selector kc services = Ret (Some rep)) \<longleftrightarrow>
      (\<exists>c. (\<exists>err. Q unwrap_hub (ep_hub env) None = Ret (err, Some c)) \<and> ep_measure env selector (Some c) services = Ret (Some rep))"
  proof
    assume "\<exists>err kc. Q unwrap_hub (ep_hub env) None = Ret (err, kc) \<and> ep_measure env selector kc services = Ret (Some rep)"
    then obtain err kc where q: "Q unwrap_hub (ep_hub env) None = Ret (err, kc)" and k: "ep_measure env selector kc services = Ret (Some rep)"
      by (elim exE conjE)
    from m [THEN iffD1, OF k] obtain c where "kc = Some c" "ep_measure env selector (Some c) services = Ret (Some rep)" by (elim exE conjE)
    with q show "\<exists>c. (\<exists>err. Q unwrap_hub (ep_hub env) None = Ret (err, Some c)) \<and> ep_measure env selector (Some c) services = Ret (Some rep)"
      by (intro exI [of _ c] conjI exI [of _ err]) simp_all
  next
    assume "\<exists>c. (\<exists>err. Q unwrap_hub (ep_hub env) None = Ret (err, Some c)) \<and> ep_measure env selector (Some c) services = Ret (Some rep)"
    then show "\<exists>err kc. Q unwrap_hub (ep_hub env) None = Ret (err, kc) \<and> ep_measure env selector kc services = Ret (Some rep)"
      by (elim exE conjE) (intro exI conjI)
  qed
  finally have eq: "endpoints_run P Q env selector nPods fallback = Ret (Some rep) \<longleftrightarrow>
      services \<noteq> [] \<and> (\<exists>rss. go_traverse (matching_rs env fallback) services = Ret rss \<and> scale_all env n rss = Ret ()) \<and>
      P (waitForReadyPods ?per) (ep_rsPolls env) () = Ret (None, ()) \<and>
      (\<exists>c. (\<exists>err. Q unwrap_hub (ep_hub env) None = Ret (err, Some c)) \<and> ep_measure env selector (Some c) services = Ret (Some rep))" .
  have swap: "(\<exists>c. (\<exists>k post. H c k post) \<and> X c) \<longleftrightarrow> (\<exists>k c post. H c k post \<and> X c)"
    for H :: "bench_client \<Rightarrow> nat \<Rightarrow> bench_client option list \<Rightarrow> bool" and X by blast
  show ?thesis
    unfolding eq prepare_iff wait_ready_iff [OF assms(1)] unwrap_iff [OF assms(2)] ep_measure_iff [OF assms(4)] swap assms(5) ..
qed

definition ep_svc :: objmeta where
  "ep_svc =
     \<lparr> om_Namespace = ''d'', om_Name = ''f'', om_UID = [], om_ResourceVersion = [], om_Labels = [''app'' \<mapsto> ''f''],
       om_Annotations = Map.empty, om_DeletionTimestamp = None \<rparr>"

definition ep_sample :: ep_env where
  "ep_sample =
     (let rs = \<lambda>n. \<lparr> rs_Meta = ep_svc, rs_HasController = True, rs_Replicas = 0, rs_ReadyReplicas = n \<rparr>
      in \<lparr> ep_services = Inr [ep_svc], ep_getRS = (\<lambda>ns n. Inr (rs 0)), ep_IsManaged = (\<lambda>m. True), ep_Scale = (\<lambda>m n. None),
           ep_rsPolls = [Inr [rs 1], Inr [rs 3]], ep_hub = [Some \<lparr> bc_ID = ''test'', bc_Epoch = ''e'' \<rparr>], ep_Watch = (\<lambda>r. Some None),
           ep_Update = (\<lambda>s sel. None), ep_cancelled = (False, False), ep_start = 1000, ep_end = 9000 \<rparr>)"

text \<open>The run reports after a listing with the wanted number of ready pods, and also after an empty listing.\<close>

theorem endpoints_reports_iff_witness:
  "\<exists>rep. endpoints_run go_poll go_poll ep_sample ''test'' 3 False = Ret (Some rep) \<and> rp_scaled rep = 1 \<and> rp_returned rep = 1 \<and>
     endpoints_run go_poll go_poll (ep_sample\<lparr>ep_rsPolls := [Inr []]\<rparr>) ''test'' 3 False = Ret (Some rep)"
proof -
  let ?rs = "\<lambda>n. \<lparr> rs_Meta = ep_svc, rs_HasController = True, rs_Replicas = 0, rs_ReadyReplicas = n \<rparr>"
  let ?rep = "\<lparr> rp_scaled = 1, rp_returned = 1, rp_targets = 1, rp_us = d_Microseconds (t_Since 9000 1000) \<rparr>"
  let ?empty = "ep_sample\<lparr>ep_rsPolls := [Inr []]\<rparr>"
  have n: "int32 (nPodsPerTarget 3 (length [ep_svc])) = 3" by (simp add: nPodsPerTarget_def sdiv_nonneg int32_id)
  have sv: "ep_services ep_sample = Inr [ep_svc]" "ep_services ?empty = Inr [ep_svc]" by (simp_all add: ep_sample_def)
  have prep: "service_prepared ep_sample False 3 ep_svc" "service_prepared ?empty False 3 ep_svc"
    by (simp_all add: service_prepared_def ep_sample_def ep_svc_def)
  have polls: "ep_rsPolls ep_sample = map Inr [[?rs 1]] @ Inr [?rs 3] # []" "ep_rsPolls ?empty = map Inr [] @ Inr [] # []"
    by (simp_all add: ep_sample_def)
  have hub: "ep_hub ep_sample = replicate 0 None @ Some \<lparr> bc_ID = ''test'', bc_Epoch = ''e'' \<rparr> # []" "ep_hub ?empty = ep_hub ep_sample"
    "ep_cancelled ep_sample = (False, False)" "ep_Watch ep_sample r = Some None" "ep_Update ep_sample s sel = None"
    "ep_end ep_sample = 9000" "ep_start ep_sample = 1000" for r s sel
    by (simp_all add: ep_sample_def)
  note iffs = endpoints_reports_iff [OF go_poll_laws go_poll_laws, where nPods = 3 and selector = "''test''" and fallback = False and services = "[ep_svc]" and n = 3]
  have "endpoints_run go_poll go_poll ep_sample ''test'' 3 False = Ret (Some ?rep)"
    by (rule iffs [THEN iffD2, OF sv(1)]) (use n prep(1) polls(1) hub in \<open>auto intro!: exI [of _ "[[?rs 1]]"] exI [of _ "0 :: nat"]\<close>)
  moreover have "endpoints_run go_poll go_poll ?empty ''test'' 3 False = Ret (Some ?rep)"
    by (rule iffs [THEN iffD2, OF sv(2)]) (use n prep(2) polls(2) hub in \<open>auto intro!: exI [of _ "0 :: nat"] exI [of _ "[] :: replicaset list list"]\<close>)
  ultimately show ?thesis by (intro exI [of _ ?rep]) simp
qed

end
