(* ===== verification/Bench_Main.thy ===== *)
theory Bench_Main
  imports Bench_E2e Bench_Kubelet Bench_Breakdown Ctrl
begin

text \<open>
  The main programs of the microbenchmarks (\<open>main.go\<close> under \<open>src/experiments/microbench\<close>): the flags with their
  defaults, the checks, the manager, and the choice of the mode by the baseline. What the cluster
  answers depends on the client and the selector, so the environment of a run is a function of both.
\<close>

section \<open>Flags and libraries\<close>

record bench_flags =
  bf_baseline :: string
  bf_selector :: string
  bf_n :: int

text \<open>The defaults of the deployment, autoscaler, endpoints and replicaset programs; of the scheduler,
  whose target is in the field of the selector; and of the end-to-end program.\<close>

definition default_bench_flags :: bench_flags where
  "default_bench_flags = \<lparr> bf_baseline = ''k8s'', bf_selector = [], bf_n = 0 \<rparr>"

definition default_scheduler_flags :: bench_flags where
  "default_scheduler_flags = \<lparr> bf_baseline = ''k8s'', bf_selector = [], bf_n = 100 \<rparr>"

definition default_e2e_flags :: bench_flags where
  "default_e2e_flags = \<lparr> bf_baseline = ''k8s'', bf_selector = ''test'', bf_n = 0 \<rparr>"

record kubelet_bench_flags =
  kbf_baseline :: string
  kbf_target :: string
  kbf_node :: string
  kbf_n :: int

definition default_kubelet_bench_flags :: kubelet_bench_flags where
  "default_kubelet_bench_flags = \<lparr> kbf_baseline = ''kubelet'', kbf_target = [], kbf_node = [], kbf_n = 10 \<rparr>"

record ('sc, 'mp, 'cl) bench_libs =
  bl_GetConfig :: "rest_config go"
  bl_NewManager :: "rest_config \<Rightarrow> mgr_options \<Rightarrow> apierr + ('sc, 'mp) manager"
  bl_NewClient :: "rest_config \<Rightarrow> 'sc \<Rightarrow> 'mp \<Rightarrow> apierr + 'cl"

section \<open>The breakdown programs\<close>

text \<open>The argument of \<open>run\<close> is whether the baseline is the fallback; \<open>run\<close> makes an uncached client first.\<close>

definition breakdown_main ::
  "string \<Rightarrow> ('sc, 'mp, 'cl) bench_libs \<Rightarrow> ('cl \<Rightarrow> string \<Rightarrow> int \<Rightarrow> bool \<Rightarrow> 'r go) \<Rightarrow> bench_flags \<Rightarrow> 'r go" where
  "breakdown_main what lib run f =
     (if bf_selector f = [] then Fatal (''must specify '' @ what)
      else go_bind (NewManagerOrDie (bl_GetConfig lib) (bl_NewManager lib)) (\<lambda>mgr.
        let start = (\<lambda>fallback. go_bind (NewUncachedClientOrDie (bl_NewClient lib) mgr) (\<lambda>uncachedClient.
              run uncachedClient (bf_selector f) (bf_n f) fallback))
        in if bf_baseline f = ''k8s'' then start True
           else if bf_baseline f = ''kd'' then start False
           else Fatal (''unknown baseline '' @ bf_baseline f)))"

definition deployment_main where
  "deployment_main P Q lib env =
     breakdown_main ''workload selector'' lib (\<lambda>cl selector nPods fallback. deployment_run P Q (env cl selector) nPods fallback)"

definition autoscaler_main where
  "autoscaler_main P Q lib env =
     breakdown_main ''workload selector'' lib (\<lambda>cl selector nPods fallback. autoscaler_run P Q (env cl selector) nPods fallback)"

definition endpoints_main where
  "endpoints_main P Q lib env =
     breakdown_main ''workload selector'' lib (\<lambda>cl selector nPods fallback. endpoints_run P Q (env cl selector) selector nPods fallback)"

definition replicaset_main where
  "replicaset_main Q lib env =
     breakdown_main ''workload selector'' lib (\<lambda>cl selector nPods fallback. replicaset_run Q (env cl selector) nPods fallback)"

definition scheduler_main where
  "scheduler_main Q lib env =
     breakdown_main ''target ReplicaSet'' lib (\<lambda>cl target nPods fallback. scheduler_run Q (env cl) target nPods fallback)"

section \<open>The kubelet and the end-to-end program\<close>

text \<open>Both use the client of the manager.\<close>

definition kubelet_bench_main ::
  "(kd_client option, kd_client option) poll \<Rightarrow> (time smap \<Rightarrow> string list) \<Rightarrow> ('sc, 'mp, 'cl) bench_libs \<Rightarrow>
   (('sc, 'mp) manager \<Rightarrow> kb_env) \<Rightarrow> kubelet_bench_flags \<Rightarrow> kb_result option go" where
  "kubelet_bench_main P rng lib env f =
     (if kbf_target f = [] then Fatal ''must specify target ReplicaSet''
      else if kbf_node f = [] then Fatal ''must specify target node''
      else go_bind (NewManagerOrDie (bl_GetConfig lib) (bl_NewManager lib)) (\<lambda>mgr.
        if kbf_baseline f = ''kubelet'' then kb_run P rng (env mgr) (kbf_node f) (kbf_target f) (kbf_n f) True
        else if kbf_baseline f = ''custom'' then kb_run P rng (env mgr) (kbf_node f) (kbf_target f) (kbf_n f) False
        else Fatal (''unknown baseline '' @ kbf_baseline f)))"

definition e2e_main ::
  "(apierr + replicaset list, unit) poll \<Rightarrow> ('m, e2e_Expectation) shared_map \<Rightarrow> (pod \<Rightarrow> bool) \<Rightarrow>
   (e2e_Expectation smap \<Rightarrow> string list) \<Rightarrow> (time smap \<Rightarrow> string list) \<Rightarrow> ('sc, 'mp, 'cl) bench_libs \<Rightarrow>
   (('sc, 'mp) manager \<Rightarrow> string \<Rightarrow> e2e_env) \<Rightarrow> bench_flags \<Rightarrow> e2e_result option go" where
  "e2e_main P S ready rng1 rng2 lib env f =
     (if bf_selector f = [] then Fatal ''must specify workload selector''
      else go_bind (NewManagerOrDie (bl_GetConfig lib) (bl_NewManager lib)) (\<lambda>mgr.
        if bf_baseline f \<in> {''k8s'', ''k8s+'', ''kd'', ''kd+''}
        then e2e_run P S ready rng1 rng2 (env mgr (bf_selector f)) (bf_selector f) (bf_n f)
        else Fatal (''unknown baseline '' @ bf_baseline f)))"

section \<open>The baseline chooses the mode\<close>

lemma breakdown_main_Ret:
  assumes "breakdown_main what lib run f = Ret r"
  shows "bf_selector f \<noteq> [] \<and> bf_baseline f \<in> {''k8s'', ''kd''} \<and>
     (\<exists>cl. run cl (bf_selector f) (bf_n f) (bf_baseline f = ''k8s'') = Ret r)"
  using assms by (auto simp: breakdown_main_def Let_def split: if_split_asm)

text \<open>A deployment benchmark that reports has run in the mode of its targets: with the baseline \<open>kd\<close> every
  selected Deployment was managed, with the baseline \<open>k8s\<close> none was.\<close>

lemma deployment_main_mode:
  assumes "deployment_main P Q lib env f = Ret r"
  shows "\<exists>cl targets. dp_targets (env cl (bf_selector f)) = Inr targets \<and> targets \<noteq> [] \<and>
     (\<forall>dp \<in> set targets. dp_IsManaged (env cl (bf_selector f)) dp \<longleftrightarrow> bf_baseline f = ''kd'')"
proof -
  from breakdown_main_Ret [OF assms [unfolded deployment_main_def]] obtain cl where
    b: "bf_baseline f \<in> {''k8s'', ''kd''}" and
    r: "deployment_run P Q (env cl (bf_selector f)) (bf_n f) (bf_baseline f = ''k8s'') = Ret r" by blast
  from r obtain targets where "dp_targets (env cl (bf_selector f)) = Inr targets" "targets \<noteq> []"
    "\<forall>dp \<in> set targets. (bf_baseline f = ''k8s'') = (\<not> dp_IsManaged (env cl (bf_selector f)) dp)"
    by (auto simp: deployment_run_def split: sum.split_asm if_split_asm)
  with b show ?thesis by (intro exI [of _ cl] exI [of _ targets]) auto
qed

text \<open>Without flags only the end-to-end program runs; the others ask for a target.\<close>

lemma default_flags_need_target:
  "breakdown_main what lib run default_bench_flags = Fatal (''must specify '' @ what)"
  "breakdown_main what lib run default_scheduler_flags = Fatal (''must specify '' @ what)"
  "kubelet_bench_main P rng lib kenv default_kubelet_bench_flags = Fatal ''must specify target ReplicaSet''"
  "NewManagerOrDie (bl_GetConfig lib) (bl_NewManager lib) = Ret mgr \<Longrightarrow>
     e2e_main P' S ready rng1 rng2 lib env default_e2e_flags = e2e_run P' S ready rng1 rng2 (env mgr ''test'') ''test'' 0"
  by (simp_all add: breakdown_main_def kubelet_bench_main_def e2e_main_def default_bench_flags_def default_scheduler_flags_def
      default_kubelet_bench_flags_def default_e2e_flags_def)

end
