(* ===== verification/Spec2Isabelle.thy ===== *)
theory Spec2Isabelle
  imports Kubelet_Start Serving Trace_Accounting Handler Bench_Main
begin

text \<open>
  A verification of \<open>kubedirect-bench\<close>, the custom kubelet, trace-replay gateway and microbenchmarks
  of Kubedirect.

  \<^bold>\<open>The program.\<close> A custom kubelet (\<open>src/cmd/kubelet\<close>) takes pods from the API server and, over RPC,
  from a scheduler, waits a configured delay and reports them ready. A trace experiment
  (\<open>src/experiments/trace\<close>) replays invocation traces: the client (\<open>src/pkg/replay\<close>) sends requests to
  a gateway (\<open>src/pkg/gateway\<close>), which relays them to one dispatcher per target
  (\<open>src/pkg/gateway/dispatcher\<close>); the dispatcher hands each request to an endpoint through a backend
  (\<open>src/pkg/backend\<close>), behind which the workload handler (\<open>src/pkg/workload/handler\<close>) spends the requested
  time. The gateway tells an autoscaler (\<open>src/pkg/autoscaler\<close>) about every request, which scales the
  Deployments; new ready pods come back to the dispatcher through the gateway's \<open>Reconcile\<close>. The
  microbenchmarks (\<open>src/experiments/microbench\<close>) measure single stages of the control plane.

  \<^bold>\<open>Theories.\<close>
  \<^item> \<open>Go_Prelude\<close>: outcomes of Go code (value, panic, fatal exit, blocked), integer widths, times, strings,
    \<open>reachable\<close> states and the locale \<open>inductive_invariant\<close>. \<open>Go_Float\<close>: binary64 values and rounding over
    rationals; the locale \<open>float_round\<close> states what the arithmetic proofs use of a rounding function.
    \<open>Extern\<close>: the libraries outside the repository as records of operations with named laws, one
    concrete instance each, and the API objects.
  \<^item> \<open>Workload\<close> (\<open>src/pkg/workload\<close>): requests, responses, keys, selectors, translation of loader output.
    \<open>Handler\<close> (\<open>src/pkg/workload/handler\<close>, \<open>src/cmd/workload\<close>): the function server, runtimes as 32-bit words.
  \<^item> \<open>Backend\<close>: the fake and the gRPC executor; the Go interface \<open>Executor\<close> is a locale interpreted on both.
  \<^item> \<open>Dispatcher\<close>: \<open>PodDispatcher\<close> and \<open>KnServiceDispatcher\<close>; \<open>pd_step\<close> interleaves the goroutines of the former.
  \<^item> \<open>Metric\<close>, \<open>Decider\<close>, \<open>Autoscaler\<close>: request statistics, the KPA decision and the autoscalers; the Go interfaces
    \<open>Decider\<close> and \<open>Autoscaler\<close> are locales; \<open>as_step\<close> is the running autoscaler.
  \<^item> \<open>Gateway\<close>: buffers, relay loops and the two gateways; \<open>gw_step\<close> is the running relay of a target, \<open>ka_step\<close>
    the goroutine of the autoscaler that \<open>Start\<close> launches after the relays.
  \<^item> \<open>Service\<close>: the contract of what serves requests, an abstract service with the locale \<open>refines_service\<close>; the
    dispatchers and the gateway interpret it. \<open>Serving\<close>: the relay composed with the dispatcher of its target;
    the locale \<open>serves_requests\<close> is what the relay needs of a dispatcher, interpreted on both.
  \<^item> \<open>Replay\<close>: the trace client. \<open>Ctrl\<close> (\<open>src/pkg/util/ctrl.go\<close>): clients and managers. \<open>Trace\<close> (\<open>src/experiments/trace\<close>): the trace program, from its
    flags to the end; \<open>main_step\<close> are the steps of \<open>main\<close> with its waiting times, \<open>go_step\<close> those of the
    goroutines, both over one clock. The clock may pass any time while a step is possible, so the relation has at
    least the runs of the program; what holds of all reachable states holds of the program. \<open>Trace_Accounting\<close>: where every request of all targets is during that run.
  \<^item> \<open>Kubelet\<close> (definitions), \<open>Kubelet_Sync\<close> (case analysis of \<open>SyncPod\<close> and the step relation \<open>kl_step\<close>),
    \<open>Kubelet_Props\<close> (properties), \<open>Kubelet_Start\<close> (from the flags to the workers): the custom kubelet.
  \<^item> \<open>Bench\<close>: wait groups, percentiles and the locale \<open>counting_monitor\<close> of monitors that count pods;
    \<open>Bench_E2e\<close> and \<open>Bench_Kubelet\<close> interpret it on the monitors of the two benchmarks;
    \<open>Bench_Breakdown\<close>: the other stages; \<open>Bench_Main\<close>: the main programs.
  \<^item> This theory: properties that span components.

  \<^bold>\<open>State and steps.\<close> A Go struct is a record with the struct's name and fields (prefixed), a method a
  definition with the method's name; where two types share a method name, a prefix tells them
  apart (\<open>kp_Reconcile\<close>, \<open>kg_Reconcile\<close>, \<open>Reconcile\<close> of the dispatcher). A method body that runs under a lock
  or on one goroutine is one definition; goroutines that interleave are rules of an inductive
  step relation (\<open>kl_step\<close>, \<open>pd_step\<close>, \<open>as_step\<close>, \<open>ka_step\<close>, \<open>gw_step\<close>, \<open>se_step\<close>, \<open>tm_step\<close>). Clock readings, answers of the API server,
  network results and random numbers are inputs; calls that leave the process are recorded
  outputs. Map iteration order is a parameter with the law that it enumerates the domain once.

  \<^bold>\<open>What is shown.\<close> The kubelet never reports a pod before its delay and reports it after it, by merge patch or by update;
  bindings are idempotent and fenced by epochs; in-memory pods are exposed once and until they
  exist; it works only after its address is published. The dispatcher answers every request once and never runs two requests on an
  endpoint that was added once; reconciliation converges to the ready pods. The statistics
  refine an exact integer specification; the decision stays within the configured rates, does
  not scale down in panic mode, is in panic mode exactly while the last surge is recent, and scales up
  from zero, also with the shipped scale-down delay; every active target is ticked once.
  The relay neither loses nor duplicates requests; dispatcher and gateway refine the abstract
  service, and composed they answer every request exactly once, for deployments and for Knative
  services; the replay sends each invocation once and not early. At any time of a trace run every
  request of every target is in exactly one place, and when the program ends its last output line
  counts the responses, so that what is missing is what the gateway still held. A trace run that is
  not interrupted closes the gateway only after everything has been sent, and can always end after
  that. Relaying with the Knative autoscaler is safe exactly from the moment its
  goroutine runs. The benchmarks stop exactly when the pods they asked for have been seen, and the end-to-end
  benchmark measures the time each was first seen ready; the endpoints benchmark reports exactly when a listing
  shows no ReplicaSet that is not ready. The composition of kubelet, gateway and dispatcher
  serves a pod that was reported ready, and the kubelet benchmark and the kubelet agree on
  epochs. Some lemmas document defects, among them \<open>grpc_close_blocks\<close>, \<open>readd_breaks_concurrency\<close>,
  \<open>close_races_senders\<close>, \<open>relay_needs_run\<close>, \<open>endpoints_reports_iff\<close>,
  \<open>default_flags_crash\<close>, \<open>list_error_drops_endpoints\<close> and \<open>missing_client_panics\<close>.

  \<^bold>\<open>Bounds.\<close> Waiting for a token has a budget \<open>n\<close>, the number of receives before the deadline is noticed; a
  budget of the length of the token queue is shown to be enough when a token is live. A polling
  loop runs on the finite list of situations it meets until its context is cancelled. Integers
  are exact in binary64 up to 2 to the 53, which bounds trace lengths and the times of the
  statistics; counters of 32 bits, wait groups among them, are exact below 2 to the 31.

  \<^bold>\<open>Not modelled.\<close> The generated protocol code; logging (\<open>src/pkg/util/log.go\<close>); signal handling and cache
  synchronisation in the main programs of the kubelet and the microbenchmarks beyond their outcome;
  shell and Python scripts. The third-party libraries are parameters.
\<close>

section \<open>A pod the kubelet reports ready is served\<close>

text \<open>\<open>kdutil.IsPodReady\<close>, which kubelet and gateway both use: a pod is ready when its Ready condition is
  True.\<close>

definition ready_laws :: "(pod \<Rightarrow> bool) \<Rightarrow> bool" where
  "ready_laws ready \<longleftrightarrow> (\<forall>p. ready p \<longleftrightarrow> cond_true PodReady p)"

text \<open>The API server's answer to a status write: an update gives the pod the status it was sent; a merge
  patch replaces a list that it contains, so the conditions that are true in the patch are true in the
  patched pod.\<close>

definition status_api_laws :: "('t, 'i, 'c, 'h) kd_libs \<Rightarrow> kenv \<Rightarrow> bool" where
  "status_api_laws L env \<longleftrightarrow>
     (\<forall>c q p'. ke_UpdateStatus env c q = Inr p' \<longrightarrow> pod_Status p' = pod_Status q) \<and>
     (\<forall>c ns n uid st b p'. kl_Marshal L uid st = Inr b \<longrightarrow> ke_Patch env c ns n b = Inr p' \<longrightarrow>
        set (true_types st) \<subseteq> set (true_types (pod_Status p')))"

lemma cond_true_types: "cond_true t p \<longleftrightarrow> t \<in> set (true_types (pod_Status p))"
  by (auto simp: cond_true_def true_types_def list_ex_iff)

lemma refStatusFor_ready:
  assumes "ready_laws (kl_IsPodReady L)" and "refStatusFor L env s p = Ret (Inr st)"
  shows "PodReady \<in> set (true_types st)"
proof (cases "ks_simulate s")
  case True
  with assms(2) have "st = simulateRefPodStatus env p" by (simp add: refStatusFor_def)
  then have "true_types st = [PodReady, ContainersReady, PodScheduled, PodInitialized] @ pod_ReadinessGates p"
    by (simp add: simulateRefPodStatus_def tweakRefPodStatus_def true_condition_def true_types_def filter_map comp_def)
  then show ?thesis by simp
next
  case False
  with assms(2) obtain ps ref where "ref \<in> set (filter (kl_IsPodReady L) ps)"
    "st = tweakRefPodStatus (ke_now_status env) (pod_Status ref)"
    by (auto simp: refStatusFor_def getRefPodStatus_def Let_def go_index_def simp del: set_filter split: sum.splits if_splits
        dest!: nth_mem)
  moreover from this(1) assms(1) have "PodReady \<in> set (true_types (pod_Status ref))"
    by (simp add: ready_laws_def cond_true_types)
  ultimately show ?thesis by (auto simp: tweakRefPodStatus_def true_types_def filter_map comp_def)
qed

lemma SyncPod_write_ready:
  assumes "kd_maps L" and "SyncPod L env pending s = Ret (err, s')" and out: "ks_out s' = ks_out s @ [w]"
    and ans: "write_answer env w = Some (Inr p')" and "ready_laws (kl_IsPodReady L)" and "status_api_laws L env"
  shows "cond_true PodReady p'"
  using assms(1,2)
proof (cases rule: SyncPod_cases)
  case (report p)
  let ?s1 = "set_timer L env pending s"
  from report(4) obtain r where r: "refStatusFor L env ?s1 p = Ret r" by (auto simp: reportReady_def)
  with report(4) out obtain st where "r = Inr st" by (cases r) (auto simp: reportReady_def)
  with r report(4) obtain m where st: "refStatusFor L env ?s1 p = Ret (Inr st)" "markPodReady L env p st ?s1 = Ret (m, s')"
    by (auto simp: reportReady_def)
  then obtain c where "status_write L (ks_patch s) c p st = Inr w"
    using markPodReady_written [OF assms(1) st(2)] out by auto
  then have "PodReady \<in> set (true_types (pod_Status p'))"
    using ans assms(6) refStatusFor_ready [OF assms(5) st(1)]
    by (auto simp: status_write_def status_api_laws_def prepareMergePatchBytesForPodStatus_def split: if_splits sum.splits) blast+
  then show ?thesis by (simp add: cond_true_types)
qed (use out ans in auto)

lemma wanted_mem:
  assumes "p \<in> set ps"
  shows "wanted ps (fst (podEndpointKeyFunc p)) \<noteq> None"
proof -
  have "(foldl (\<lambda>m p. let (key, ep) = podEndpointKeyFunc p in m(key \<mapsto> ep)) m ps) (fst (podEndpointKeyFunc p)) \<noteq> None"
    if "p \<in> set ps \<or> m (fst (podEndpointKeyFunc p)) \<noteq> None" for m
    using that by (induction ps arbitrary: m) (auto simp: Let_def case_prod_beta)
  with assms show ?thesis by (simp add: wanted_def)
qed

text \<open>C15: from the kubelet to the dispatcher. When a synchronisation of the kubelet writes a pod status,
  by update or by patch, and the API server accepts the write, and the gateway then lists for a target
  it has a dispatcher for a pod with the status the server answered, one \<open>Reconcile\<close> of the gateway succeeds,
  makes that pod an endpoint of the dispatcher with a token if it was not one, and a request waiting with
  a budget that covers the tokens is dispatched, provided the backends of the listed pods start. Ready
  means the Ready condition is True, and the server applies updates and merge patches as documented.\<close>

theorem ready_pod_is_served:
  assumes "kd_maps L" and "ready_laws (kl_IsPodReady L)" and "status_api_laws L env"
    and "SyncPod L env pending s = Ret (err, s')" and "ks_out s' = ks_out s @ [w]" and "write_answer env w = Some (Inr p')"
    and "shared_map_laws S" and "chann_laws T" and "valid_framework cfg" and "range_laws rng1" and "range_laws rng2"
    and "get nn = Inr target" and "listPods (om_Namespace (dep_Meta target)) (dep_TemplateLabels target) = Inr pods"
    and "q \<in> set pods" and "pod_Status q = pod_Status p'"
    and "kg_dispatchers g (NamespacedName_String nn) = Some pd" and "heap_ok S pd"
    and "sm_Inner S (pd_endpoints pd) (fst (podEndpointKeyFunc q)) = None"
    and "\<And>k. wanted (filter (kl_IsPodReady L) pods) k \<noteq> None \<Longrightarrow> starts C cfg dial (wanted (filter (kl_IsPodReady L) pods)) k"
  shows "\<exists>g' pd' k a pd''. kg_Reconcile S T C cfg dial rng1 rng2 get listPods (kl_IsPodReady L) nn g = Ret ([], g') \<and>
     kg_dispatchers g' (NamespacedName_String nn) = Some pd' \<and>
     sm_Inner S (pd_endpoints pd') (fst (podEndpointKeyFunc q)) \<noteq> None \<and>
     fst (podEndpointKeyFunc q) \<in> set (ch_Items T (pd_tokens pd')) \<and>
     dispatch S T (length (ch_Items T (pd_tokens pd'))) pd' = (Some (k, a), pd'')"
proof -
  let ?R = "filter (kl_IsPodReady L) pods"
  let ?W = "wanted ?R" and ?k = "fst (podEndpointKeyFunc q)" and ?E = "sm_Inner S (pd_endpoints pd)"
  let ?A = "to_add rng1 ?W ?E"
  have "cond_true PodReady p'" by (rule SyncPod_write_ready [OF assms(1,4-6,2,3)])
  then have "q \<in> set ?R" using assms(2,14,15) by (simp add: ready_laws_def cond_true_types)
  then have w: "?W ?k \<noteq> None" by (rule wanted_mem)
  from Reconcile_effect [OF assms(7-11,17), of C dial ?R] obtain errs closed pd' where
    r: "Reconcile S T C cfg dial rng1 rng2 ?R pd = Ret (errs, closed, pd')"
    and d: "\<And>k. sm_Inner S (pd_endpoints pd') k \<noteq> None \<longleftrightarrow> ?W k \<noteq> None \<and> (?E k \<noteq> None \<or> starts C cfg dial ?W k)"
    and t: "ch_Items T (pd_tokens pd') = ch_Items T (pd_tokens pd) @ filter (starts C cfg dial ?W) ?A"
    and e: "errs = []" using assms(19) by auto
  have live: "sm_Inner S (pd_endpoints pd') ?k \<noteq> None" using d w assms(19) by blast
  have "?k \<in> set ?A" using w assms(10,18) finite_wanted [of ?R] by (auto simp: to_add_def range_laws_def dom_def)
  then have tok: "?k \<in> set (ch_Items T (pd_tokens pd'))" using t w assms(19) by auto
  obtain k a pd'' where "dispatch S T (length (ch_Items T (pd_tokens pd'))) pd' = (Some (k, a), pd'')"
    using dispatch_finds [OF assms(7,8) order_refl] live tok by blast
  moreover have "kg_Reconcile S T C cfg dial rng1 rng2 get listPods (kl_IsPodReady L) nn g =
      Ret ([], g\<lparr>kg_dispatchers := (kg_dispatchers g)(NamespacedName_String nn \<mapsto> pd')\<rparr>)"
    using r e assms(12,13,16) by (simp add: kg_Reconcile_def)
  ultimately show ?thesis using live tok by auto
qed

definition gw_empty :: sample_gateway where
  "gw_empty = gw_two\<lparr>kg_dispatchers := [''default/f'' \<mapsto> sample_pd]\<rparr>"

lemma sample_ready_laws: "ready_laws (kl_IsPodReady sample_libs)" by (simp add: ready_laws_def sample_libs_def)

lemma sample_status_api: "status_api_laws sample_libs (env_at t pods)"
proof -
  have "true_types (st\<lparr>st_Conditions := map true_condition ts\<rparr>) = ts" for st ts
    by (simp add: true_types_def true_condition_def filter_map comp_def)
  then show ?thesis by (auto simp: status_api_laws_def env_at_def sample_libs_def dec_enc_words)
qed

text \<open>In patch mode, the default: the server answers with a pod that has the conditions of the patch, and the
  gateway lists it with another resource version.\<close>

definition patched_pod :: pod where
  "patched_pod = api_pod\<lparr>pod_Meta := (pod_Meta api_pod)\<lparr>om_ResourceVersion := ''8''\<rparr>,
     pod_Status := pending_status\<lparr>st_Conditions := map true_condition [PodReady, ContainersReady, PodScheduled, PodInitialized, ''gate'']\<rparr>\<rparr>"

theorem ready_pod_is_served_witness:
  "\<exists>g' pd'. kg_Reconcile go_map fifo fifo fake_cfg no_dial sorted_range sorted_range (\<lambda>_. Inr dep_f) (\<lambda>_ _. Inr [patched_pod])
       (cond_true PodReady) (''default'', ''f'') gw_empty = Ret ([], g') \<and>
     kg_dispatchers g' ''default/f'' = Some pd' \<and> ''p@:80'' \<in> set (pd_tokens pd')"
proof -
  let ?s = "srv_at [item_key \<mapsto> 1100] []\<lparr>ks_patch := True\<rparr>" and ?env = "env_at 1100 [api_pod]"
  let ?st = "simulateRefPodStatus ?env api_pod"
  let ?w = "ApiPatchStatus 9 ''d'' ''p'' (enc_words (true_types ?st))"
  have k: "NamespacedName_String (''default'', ''f'') = ''default/f''" by (simp add: NamespacedName_String_def)
  have n: "ks_nodeName ?s = ''n1''" by (simp add: srv_at_def srv0_def)
  have due: "readyTime sample_libs ?env item ?s \<le> ke_now_until ?env" "refStatusFor sample_libs ?env ?s api_pod = Ret (Inr ?st)"
    "pool sample_libs ?s (pod_NodeName api_pod) = Some 9" "status_write sample_libs (ks_patch ?s) 9 api_pod ?st = Inr ?w"
    by (simp_all add: readyTime_def sample_sel srv_at_def item_def item_key_def PendingPod_String_def refStatusFor_def srv0_def
        api_pod_def status_write_def prepareMergePatchBytesForPodStatus_def) (simp_all add: sample_libs_def)
  obtain err where sync: "SyncPod sample_libs ?env item ?s = Ret (err, emit ?w (set_timer sample_libs ?env item ?s))"
    using SyncPod_due_writes [OF sample_maps sample_handles [OF n] sample_awaiting due] by blast
  have tt: "true_types ?st = [PodReady, ContainersReady, PodScheduled, PodInitialized, ''gate'']"
    by (simp add: true_types_def simulateRefPodStatus_def tweakRefPodStatus_def true_condition_def api_pod_def)
  have ans: "write_answer ?env ?w = Some (Inr (patched_pod\<lparr>pod_Meta := pod_Meta api_pod\<rparr>))"
    unfolding tt by (simp add: env_at_def dec_enc_words patched_pod_def)
  have key: "fst (podEndpointKeyFunc patched_pod) = ''p@:80''"
    by (simp add: podEndpointKeyFunc_def patched_pod_def api_pod_def pending_status_def WorkloadServicePort_def Let_def)
  have hp: "heap_ok go_map sample_pd" by (simp add: heap_ok_def sample_pd_def NewPodDispatcher_def go_map_sel)
  have items: "ch_Items fifo q = q" for q :: "string list" by (simp add: fifo_def)
  have r: "kl_IsPodReady sample_libs = cond_true PodReady" by (simp add: sample_libs_def)
  have out: "ks_out (emit ?w (set_timer sample_libs ?env item ?s)) = ks_out ?s @ [?w]" by simp
  from ready_pod_is_served [where get = "\<lambda>_. Inr dep_f" and listPods = "\<lambda>_ _. Inr [patched_pod]" and q = patched_pod
      and C = "fifo :: (nat list, nat) chann" and dial = no_dial and nn = "(''default'', ''f'')" and g = gw_empty and pd = sample_pd,
      OF sample_maps sample_ready_laws sample_status_api sync out ans go_map_laws fifo_laws fake_cfg_valid sorted_range_laws sorted_range_laws
        refl refl _ _ _ hp]
  have "\<exists>g' pd'. kg_Reconcile go_map fifo fifo fake_cfg no_dial sorted_range sorted_range (\<lambda>_. Inr dep_f) (\<lambda>_ _. Inr [patched_pod])
       (cond_true PodReady) (''default'', ''f'') gw_empty = Ret ([], g') \<and>
     kg_dispatchers g' ''default/f'' = Some pd' \<and> fst (podEndpointKeyFunc patched_pod) \<in> set (pd_tokens pd')"
    by (auto simp: k r items fake_starts gw_empty_def sample_pd_def NewPodDispatcher_def go_map_sel)
  then show ?thesis by (simp add: key)
qed

section \<open>The kubelet benchmark against the custom kubelet\<close>

text \<open>The requests of the benchmark arrive one after the other.\<close>

fun bind_all ::
  "('t, 'i, 'c, 'h) kd_libs \<Rightarrow> kenv \<Rightarrow> PodBindingRequest list \<Rightarrow> ('t, 'i, 'c, 'h) KubedirectServer \<Rightarrow>
   grpc_error option list \<times> ('t, 'i, 'c, 'h) KubedirectServer" where
  "bind_all L env [] s = ([], s)"
| "bind_all L env (r # rs) s =
     (let (e, s') = BindPod L env r s; (es, s'') = bind_all L env rs s' in (e # es, s''))"

text \<open>\<open>kdctx\<close>: a binding request carries the client's identity and the description it was made from.\<close>

definition binding_laws :: "('t, 'i, 'c, 'h) kd_libs \<Rightarrow> (PodInfo \<Rightarrow> kd_client \<Rightarrow> PodBindingRequest) \<Rightarrow> bool" where
  "binding_laws L mk \<longleftrightarrow>
     (\<forall>i c. br_Source (mk i c) = kdc_ID c \<and> br_Epoch (mk i c) = kdc_Epoch c \<and> br_OwnerNamespace (mk i c) = pi_Namespace i \<and>
            br_OwnerName (mk i c) = pi_OwnerName i \<and> kl_NewPodInfoFromBindingRequest L (mk i c) = i)"

lemma bind_all_fresh:
  assumes "kd_maps L" and "binding_laws L mk"
    and "\<And>i. i \<in> set infos \<Longrightarrow> ke_GetUnnamedTemplateFor env (pi_Namespace i) (pi_OwnerName i) False = Inr t"
    and "kl_RLock L (ks_serverHub s) (kdc_ID c) (kdc_Epoch c) = None"
    and "distinct (map pi_Name infos)" and "\<And>i. i \<in> set infos \<Longrightarrow> cache L s (pi_Name i) = None"
  shows "fst (bind_all L env (map (\<lambda>i. mk i c) infos) s) = replicate (length infos) None \<and>
     ks_out (snd (bind_all L env (map (\<lambda>i. mk i c) infos) s)) = ks_out s @ map (\<lambda>i. QAdd (NewPendingPodFromInMemCache i)) infos \<and>
     cache L (snd (bind_all L env (map (\<lambda>i. mk i c) infos) s)) = cache L s ++ map_of (map (\<lambda>i. (pi_Name i, i)) infos) \<and>
     pool L (snd (bind_all L env (map (\<lambda>i. mk i c) infos) s)) = pool L s"
  using assms(3-6)
proof (induction infos arbitrary: s)
  case (Cons i infos)
  obtain e s1 where b: "BindPod L env (mk i c) s = (e, s1)" by (cases "BindPod L env (mk i c) s")
  have l: "br_Source (mk i c) = kdc_ID c" "br_Epoch (mk i c) = kdc_Epoch c" "br_OwnerNamespace (mk i c) = pi_Namespace i"
    "br_OwnerName (mk i c) = pi_OwnerName i" "i = kl_NewPodInfoFromBindingRequest L (mk i c)"
    using assms(2) by (simp_all add: binding_laws_def)
  have lock: "kl_RLock L (ks_serverHub s) (br_Source (mk i c)) (br_Epoch (mk i c)) = None" using Cons.prems(2) l by simp
  have "ke_GetUnnamedTemplateFor env (br_OwnerNamespace (mk i c)) (br_OwnerName (mk i c)) False = Inr t" using Cons.prems(1) l by simp
  from BindPod_granted [OF assms(1) this lock l(5)] b Cons.prems(4) [of i] have s1: "e = None" "cache L s1 = (cache L s)(pi_Name i \<mapsto> i)"
    "ks_out s1 = ks_out s @ [QAdd (NewPendingPodFromInMemCache i)]" "ks_serverHub s1 = ks_serverHub s" by simp_all
  have pool: "pool L s1 = pool L s" using BindPod_frame(2) [of L env "mk i c" s] b by simp
  have "map_of (map (\<lambda>i. (pi_Name i, i)) infos) (pi_Name i) = None"
    using Cons.prems(3) by (auto simp: map_of_eq_None_iff)
  then have m: "(cache L s)(pi_Name i \<mapsto> i) ++ map_of (map (\<lambda>i. (pi_Name i, i)) infos) =
      cache L s ++ map_of (map (\<lambda>i. (pi_Name i, i)) (i # infos))"
    by (auto simp: map_add_def fun_eq_iff split: option.splits)
  have fresh: "cache L s1 (pi_Name j) = None" if "j \<in> set infos" for j
  proof -
    have "pi_Name j \<noteq> pi_Name i" using that Cons.prems(3) by (metis distinct.simps(2) imageI list.simps(9) list.set_map)
    with that Cons.prems(4) [of j] s1(2) show ?thesis by simp
  qed
  have lock1: "kl_RLock L (ks_serverHub s1) (kdc_ID c) (kdc_Epoch c) = None" using Cons.prems(2) s1(4) by simp
  have step: "bind_all L env (map (\<lambda>i. mk i c) (i # infos)) s =
      (None # fst (bind_all L env (map (\<lambda>i. mk i c) infos) s1), snd (bind_all L env (map (\<lambda>i. mk i c) infos) s1))"
    using b s1(1) by (simp add: case_prod_beta Let_def)
  have dist: "distinct (map pi_Name infos)" using Cons.prems(3) by simp
  from Cons.IH [OF Cons.prems(1) lock1 dist fresh] show ?case
    unfolding step s1(2,3) m pool by (simp del: map_of.simps list.simps(9) add: list.simps(9) [of "\<lambda>i. QAdd (NewPendingPodFromInMemCache i)"])
qed simp

text \<open>C7: the benchmark and the kubelet agree on the epoch. The handshake of the benchmark with the
  custom kubelet succeeds with the epoch of the request; after it the kubelet has a client for
  the node, accepts every binding request of the benchmark in whatever order they arrive,
  keeps each pod in its cache and queues it exactly once, provided the template exists and
  the names are new to the kubelet.\<close>

theorem bench_binds_kubelet:
  assumes "kd_maps L" and "hub_laws L" and "binding_laws L mk"
    and "\<And>src dest. hr_Source (newReq src dest) = src \<and> hr_Destination (newReq src dest) = dest"
    and "newPodInfos ns target node nPods nano = Ret infos" and "mset order = mset infos"
    and "ke_GetUnnamedTemplateFor env' ns target False = Inr t"
    and "\<And>i. i \<in> set infos \<Longrightarrow> cache L s (pi_Name i) = None"
  shows "let src = kdClientKeyFunc node; msg = newReq src node; (resp, s1) = Handshake L env msg s;
             c = \<lparr> kdc_ID = src, kdc_Epoch = hr_Epoch msg \<rparr>; (errs, s2) = bind_all L env' (map (\<lambda>i. mk i c) order) s1
         in doKubeletHandshake newReq (\<lambda>m. Inr (hs_Epoch (fst (Handshake L env m s)))) src node = Ret (Inr (hr_Epoch msg)) \<and>
            pool L s2 node \<noteq> None \<and>
            errs = replicate (nat nPods) None \<and> ks_out s2 = ks_out s @ map (\<lambda>i. QAdd (NewPendingPodFromInMemCache i)) order \<and>
            (\<forall>i \<in> set infos. cache L s2 (pi_Name i) = Some i)"
proof -
  let ?src = "kdClientKeyFunc node"
  let ?msg = "newReq ?src node"
  define s1 where "s1 = snd (Handshake L env ?msg s)"
  define c where "c = \<lparr> kdc_ID = ?src, kdc_Epoch = hr_Epoch ?msg \<rparr>"
  define s2 where "s2 = snd (bind_all L env' (map (\<lambda>i. mk i c) order) s1)"
  have ord: "set order = set infos" "distinct (map pi_Name order)" "length order = length infos"
    using assms(6) newPodInfos_names(2) [OF assms(5)]
    by (metis mset_eq_setD, metis distinct_map mset_eq_imp_distinct_iff mset_map, metis size_mset)
  have lock: "kl_RLock L (ks_serverHub s1) (kdc_ID c) (kdc_Epoch c) = None"
    using assms(2,4) by (simp add: s1_def c_def Handshake_def hub_laws_def Let_def)
  have p1: "pool L s1 node \<noteq> None" "cache L s1 = cache L s" "ks_out s1 = ks_out s"
    using Handshake_maps [OF assms(1)] assms(4) by (auto simp: s1_def split: option.splits)
  have frame: "pool L (snd (bind_all L env' rs u)) = pool L u" for rs u
  proof (induction rs arbitrary: u)
    case (Cons r rs)
    then show ?case using BindPod_frame(2) [of L env' r u] by (cases "BindPod L env' r u") (simp add: case_prod_beta Let_def)
  qed simp
  have "doKubeletHandshake newReq (\<lambda>m. Inr (hs_Epoch (fst (Handshake L env m s)))) ?src node = Ret (Inr (hr_Epoch ?msg))"
    by (simp add: doKubeletHandshake_def Handshake_def Let_def)
  moreover have "fst (bind_all L env' (map (\<lambda>i. mk i c) order) s1) = replicate (nat nPods) None \<and>
      ks_out s2 = ks_out s @ map (\<lambda>i. QAdd (NewPendingPodFromInMemCache i)) order \<and> (\<forall>i \<in> set infos. cache L s2 (pi_Name i) = Some i)"
  proof -
    have tpl: "ke_GetUnnamedTemplateFor env' (pi_Namespace i) (pi_OwnerName i) False = Inr t" if "i \<in> set order" for i
      using that ord(1) assms(5,7) by (auto simp: newPodInfos_def split: if_splits)
    have fresh: "cache L s1 (pi_Name i) = None" if "i \<in> set order" for i using that ord(1) assms(8) p1(2) by simp
    note b = bind_all_fresh [OF assms(1,3) tpl lock ord(2) fresh]
    have "map_of (map (\<lambda>i. (pi_Name i, i)) order) (pi_Name i) = Some i" if "i \<in> set infos" for i
      using that ord(1,2) by (intro map_of_is_SomeI) (auto simp: comp_def)
    moreover have "length order = nat nPods" using newPodInfos_names(1) [OF assms(5)] ord(3) by simp
    ultimately show ?thesis using b p1 by (simp add: s2_def map_add_def)
  qed
  moreover have "pool L s2 node \<noteq> None" using frame p1(1) by (simp add: s2_def)
  ultimately show ?thesis
    by (simp add: Let_def case_prod_beta flip: s1_def c_def s2_def)
qed

definition sample_mk :: "PodInfo \<Rightarrow> kd_client \<Rightarrow> PodBindingRequest" where
  "sample_mk i c =
     \<lparr> br_Source = kdc_ID c, br_Epoch = kdc_Epoch c, br_OwnerNamespace = pi_Namespace i, br_OwnerName = pi_OwnerName i,
       br_PodName = pi_Name i, br_NodeName = pi_NodeName i \<rparr>"

definition sample_newReq :: "string \<Rightarrow> string \<Rightarrow> HandshakeRequest" where
  "sample_newReq src dest = \<lparr> hr_Source = src, hr_Destination = dest, hr_Epoch = ''e7'' \<rparr>"

theorem bench_binds_kubelet_witness:
  "\<exists>infos. newPodInfos ''d'' ''t'' ''n1'' 2 7 = Ret infos \<and>
     (let (resp, s1) = Handshake sample_libs (env_at 1 []) (sample_newReq (kdClientKeyFunc ''n1'') ''n1'') srv0;
          (errs, s2) = bind_all sample_libs (env_at 2 [])
            (map (\<lambda>i. sample_mk i \<lparr> kdc_ID = kdClientKeyFunc ''n1'', kdc_Epoch = ''e7'' \<rparr>) (rev infos)) s1
      in errs = [None, None] \<and> ks_out s2 = map (\<lambda>i. QAdd (NewPendingPodFromInMemCache i)) (rev infos))"
proof -
  obtain infos where i: "newPodInfos ''d'' ''t'' ''n1'' 2 7 = Ret infos" by (simp add: newPodInfos_def)
  have laws: "binding_laws sample_libs sample_mk" by (simp add: binding_laws_def sample_mk_def sample_libs_def)
  have req: "hr_Source (sample_newReq src dest) = src \<and> hr_Destination (sample_newReq src dest) = dest" for src dest
    by (simp add: sample_newReq_def)
  have tpl: "ke_GetUnnamedTemplateFor (env_at 2 []) ''d'' ''t'' False = Inr api_pod" by (simp add: env_at_def)
  have fresh: "cache sample_libs srv0 k = None" "ks_out srv0 = []" for k by (simp_all add: sample_sel srv0_def)
  from bench_binds_kubelet [where order = "rev infos" and env = "env_at 1 []", OF sample_maps sample_hub laws req i mset_rev tpl fresh(1)] i
  show ?thesis by (auto simp: Let_def case_prod_beta sample_newReq_def fresh(2) numeral_2_eq_2)
qed

end
